(* ===== verification/Prelude.thy ===== *)
theory Prelude
  imports Main "HOL-Library.Word"
begin

text \<open>
  Shared vocabulary of the development of the wifiap-binding: the ways a C call can fail
  to return, C strings and fixed-size character buffers, decimal printing as printf does it, and the
  collections of rewrite rules the component theories feed.
\<close>

unbundle bit_operations_syntax

named_theorems frame_simps \<open>fields an operation does not touch\<close>
named_theorems buffer_simps \<open>reading back character buffers after they are written\<close>
named_theorems inv_intros \<open>operations keep the invariants of the state\<close>

section \<open>Calls that do not return\<close>

text \<open>
  A C call either returns a value or leaves the defined behaviour of the language: it
  dereferences NULL, touches memory outside its object or after \<open>free\<close>, unlinks an element
  from a list it is not in, fails an \<open>assert\<close>, or blocks for ever on a mutex that nobody will release. The model keeps these
  as values of a sum type: \<open>Inl\<close> of the fault, \<open>Inr\<close> of the result.
\<close>

datatype fault =
    Null_deref
  | Out_of_bounds
  | Use_after_free
  | Deadlock
  | Assert_failed
  | Bad_list

definition bindE :: "('e + 'a) \<Rightarrow> ('a \<Rightarrow> 'e + 'b) \<Rightarrow> 'e + 'b" where
  "bindE m f = (case m of Inl e \<Rightarrow> Inl e | Inr x \<Rightarrow> f x)"

lemma bindE_simps [simp]:
  "bindE (Inl e) f = Inl e"
  "bindE (Inr x) f = f x"
  by (simp_all add: bindE_def)

lemma bindE_eq_Inr [simp]:
  "bindE m f = Inr y \<longleftrightarrow> (\<exists>x. m = Inr x \<and> f x = Inr y)"
  by (cases m) simp_all

lemma bindE_eq_Inl:
  "bindE m f = Inl e \<longleftrightarrow> m = Inl e \<or> (\<exists>x. m = Inr x \<and> f x = Inl e)"
  by (cases m) auto

lemma bindE_assoc: "bindE (bindE m f) g = bindE m (\<lambda>x. bindE (f x) g)"
  by (cases m) simp_all

lemma bindE_split_asm:
  "P (bindE m f) \<longleftrightarrow>
     \<not> ((\<exists>e. m = Inl e \<and> \<not> P (Inl e)) \<or> (\<exists>x. m = Inr x \<and> \<not> P (f x)))"
  by (cases m) auto

section \<open>C strings and buffers\<close>

text \<open>
  A \<open>const char *\<close> that points to a string is modelled by the bytes of its object without the
  terminator: the list \<open>s\<close> stands for an object that holds \<open>s\<close> and then a zero
  byte. What C reads as the string ends at the first zero byte, so \<open>cstr\<close> cuts the list
  there; the same function reads a \<open>char buf[n]\<close>, which is a list of length \<open>n\<close>.
\<close>

abbreviation NUL :: char where "NUL \<equiv> CHR 0x00"

abbreviation NL :: char where "NL \<equiv> CHR 0x0A"

definition cstr :: "char list \<Rightarrow> string" where
  "cstr b = takeWhile (\<lambda>c. c \<noteq> NUL) b"

definition strlen :: "char list \<Rightarrow> nat" where
  "strlen b = length (cstr b)"

text \<open>A buffer of \<open>n\<close> bytes whose last byte is NUL, so that what it holds is a terminated string.\<close>

definition buffer_ok :: "nat \<Rightarrow> char list \<Rightarrow> bool" where
  "buffer_ok n b \<longleftrightarrow> length b = n \<and> b \<noteq> [] \<and> last b = NUL"

lemma buffer_ok_NUL: "buffer_ok n b \<Longrightarrow> NUL \<in> set b"
  using last_in_set [of b] by (auto simp: buffer_ok_def)

lemma cstr_no_NUL [simp]: "NUL \<notin> set (cstr b)"
  unfolding cstr_def by (auto dest: set_takeWhileD)

lemma cstr_id [simp]: "NUL \<notin> set s \<Longrightarrow> cstr s = s"
  unfolding cstr_def by (subst takeWhile_eq_all_conv) auto

lemma cstr_append_NUL [buffer_simps, simp]: "NUL \<notin> set s \<Longrightarrow> cstr (s @ NUL # t) = s"
  by (simp add: cstr_def takeWhile_append)

lemma cstr_append_no_NUL: "NUL \<notin> set s \<Longrightarrow> cstr (s @ t) = s @ cstr t"
  by (simp add: cstr_def takeWhile_append)

lemma cstr_Nil [simp]: "cstr [] = []"
  by (simp add: cstr_def)

lemma cstr_cstr [simp]: "cstr (cstr b) = cstr b"
  by simp

lemma cstr_replicate [simp]: "cstr (replicate n NUL) = []"
  by (cases n) (simp_all add: cstr_def)

lemma cstr_Cons [simp]: "cstr (c # b) = (if c = NUL then [] else c # cstr b)"
  by (simp add: cstr_def)

lemma strlen_cstr [simp]: "strlen (cstr b) = strlen b"
  by (simp add: strlen_def)

lemma length_cstr_le: "length (cstr b) \<le> length b"
  by (simp add: cstr_def length_takeWhile_le)

lemma length_cstr_less: "NUL \<in> set b \<Longrightarrow> length (cstr b) < length b"
proof -
  assume "NUL \<in> set b"
  then obtain xs ys where b: "b = xs @ NUL # ys" and "NUL \<notin> set xs"
    by (meson split_list_first)
  then have "cstr b = xs" by simp
  then show ?thesis by (simp add: b)
qed

lemma buffer_ok_cstr_length: "buffer_ok n b \<Longrightarrow> length (cstr b) < n"
  using length_cstr_less buffer_ok_NUL [of n b] by (auto simp: buffer_ok_def)

lemma buffer_ok_replicate: "0 < n \<Longrightarrow> buffer_ok n (replicate n NUL)"
  by (simp add: buffer_ok_def)

lemma cstr_eq_Nil: "cstr b = [] \<longleftrightarrow> b = [] \<or> hd b = NUL"
  by (cases b) simp_all

lemma cstr_decompose: "NUL \<in> set b \<Longrightarrow> b = cstr b @ NUL # drop (Suc (length (cstr b))) b"
proof -
  assume "NUL \<in> set b"
  then obtain xs ys where b: "b = xs @ NUL # ys" and "NUL \<notin> set xs"
    by (meson split_list_first)
  then have "cstr b = xs" by simp
  with b show ?thesis by simp
qed

section \<open>Decimal printing\<close>

text \<open>The digits \<open>printf\<close> writes for \<open>%u\<close> and, with the sign, for \<open>%d\<close>.\<close>

definition digit_char :: "nat \<Rightarrow> char" where
  "digit_char d = char_of (48 + d)"

fun show_nat :: "nat \<Rightarrow> string" where
  "show_nat n = (if n < 10 then [digit_char n] else show_nat (n div 10) @ [digit_char (n mod 10)])"

declare show_nat.simps [simp del]

definition show_int :: "int \<Rightarrow> string" where
  "show_int i = (if i < 0 then CHR ''-'' # show_nat (nat (- i)) else show_nat (nat i))"

lemma digit_char_neq_NUL [simp]: "d < 10 \<Longrightarrow> digit_char d \<noteq> NUL"
proof
  assume "d < 10" "digit_char d = NUL"
  then have "of_char (digit_char d) = (0::nat)" by simp
  then show False using \<open>d < 10\<close> by (simp add: digit_char_def)
qed

lemma show_nat_no_NUL [simp]: "NUL \<notin> set (show_nat n)"
proof (induction n rule: show_nat.induct)
  case (1 n)
  then show ?case
    using digit_char_neq_NUL [of n] digit_char_neq_NUL [of "n mod 10"]
    by (subst show_nat.simps) (auto dest: sym)
qed

lemma show_int_no_NUL [simp]: "NUL \<notin> set (show_int i)"
  by (simp add: show_int_def)

lemma length_show_nat: "n < 10 ^ k \<Longrightarrow> 0 < k \<Longrightarrow> length (show_nat n) \<le> k"
proof (induction n arbitrary: k rule: show_nat.induct)
  case (1 n)
  show ?case
  proof (cases "n < 10")
    case True
    with "1.prems" show ?thesis by (subst show_nat.simps) simp
  next
    case False
    with "1.prems" obtain j where k: "k = Suc j" "0 < j"
      by (cases k; cases "k - 1") auto
    have "n div 10 < 10 ^ j"
      using "1.prems"(1) k(1) by (simp add: less_mult_imp_div_less mult.commute)
    with "1.IH" [OF False _ k(2)] have "length (show_nat (n div 10)) \<le> j" by simp
    with False k show ?thesis by (subst show_nat.simps) simp
  qed
qed

end
