(* ===== verification/World.thy ===== *)
theory World
  imports Prelude
begin

text \<open>
  The environment the binding runs in: the operating system below \<open>system\<close>, \<open>popen\<close>,
  \<open>fopen\<close>, \<open>malloc\<close> and the pthread calls, and the framework above. Nothing is assumed
  of it: every external call is answered by an arbitrary function of the call and of all the calls made
  before, so the environment may remember anything and answer the same call differently each time.
  What the program itself does to the file system (the files it writes and removes) and to the strings
  it allocates is modelled in full.
\<close>

section \<open>External calls and the environment that answers them\<close>

text \<open>
  The status of a reply to a request: 0, one of the framework's predefined errors, or
  \<open>AFB_USER_ERRNO(n)\<close>. The numbers behind them belong to the framework and are not used.
\<close>

datatype reply_status =
    Success
  | AFB_ERRNO_INVALID_REQUEST
  | AFB_ERRNO_INTERNAL_ERROR
  | AFB_USER_ERRNO int

datatype call =
    System string
  | Popen string
  | Pclose
  | Fopen_r string
  | Fopen_w string
  | Fwrite string string
  | Remove string
  | Strdup string
  | Calloc
  | Malloc nat
  | Attr_init
  | Attr_setinheritsched
  | Attr_setdetachstate bool
  | Getspecific
  | Setspecific
  | Pthread_setname string
  | Sched_setscheduler
  | Setpriority int
  | Pthread_create nat
  | Pthread_cancel nat
  | Pthread_join nat
  | New_event string
  | Subscribe
  | Unsubscribe
  | Push_event string int
  | Create_data string
  | Reply reply_status "string option"

text \<open>
  A JSON value as json-c gives it; the NULL pointer stands for \<open>null\<close>. An object is a list of keys
  and values in which the first value of a key counts.
\<close>

datatype json =
    JNull
  | JBool bool
  | JInt int
  | JDouble string
  | JString string
  | JArray "json list"
  | JObject "(string \<times> json) list"

type_synonym files = "string \<rightharpoonup> string"

text \<open>
  \<open>answer\<close> is the integer an external call returns (for calls that return a pointer, 0 is a
  non-NULL result), \<open>effect\<close> what a shell command does to the files, \<open>stdout_of\<close> what a
  command started by \<open>popen\<close> prints. \<open>app_dir\<close> is the build-time constant \<open>APP_DIR_\<close>,
  \<open>stack_junk\<close> what an uninitialised array of integers on the stack holds.
  \<open>info_json\<close> is the generated text the verb \<open>info\<close> sends,
  \<open>json_print\<close> is what \<open>json_object_get_string\<close> gives for a value that is neither null nor a string, and
  \<open>unpack_ip\<close> what \<open>rp_jsonc_unpack\<close> stores for the format of \<open>setIpRange\<close>, or None when it fails.
\<close>

record env =
  answer :: "call list \<Rightarrow> call \<Rightarrow> int"
  effect :: "call list \<Rightarrow> string \<Rightarrow> files \<Rightarrow> files"
  stdout_of :: "call list \<Rightarrow> string \<Rightarrow> string"
  app_dir :: string
  stack_junk :: "nat \<Rightarrow> int"
  json_print :: "json \<Rightarrow> string"
  info_json :: string
  unpack_ip :: "json \<Rightarrow> (string \<times> string \<times> string \<times> string) option"

record world =
  files :: files
  calls :: "call list"

definition ask :: "env \<Rightarrow> call \<Rightarrow> 'a world_scheme \<Rightarrow> int \<times> 'a world_scheme" where
  "ask E c w = (answer E (calls w) c, w\<lparr>calls := calls w @ [c]\<rparr>)"

section \<open>The standard library calls of the source\<close>

text \<open>
  \<open>system(3)\<close> returns a wait status. \<open>WIFEXITED\<close> and \<open>WEXITSTATUS\<close> are the bit
  tests of \<open>sys/wait.h\<close>; a status of a shell killed by a signal keeps the signal in its low
  seven bits and has exit byte 0.
\<close>

definition WIFEXITED :: "int \<Rightarrow> bool" where
  "WIFEXITED st \<longleftrightarrow> st AND 0x7f = 0"

definition WEXITSTATUS :: "int \<Rightarrow> int" where
  "WEXITSTATUS st = drop_bit 8 (st AND 0xff00)"

definition system :: "env \<Rightarrow> string \<Rightarrow> 'a world_scheme \<Rightarrow> int \<times> 'a world_scheme" where
  "system E cmd w =
     (let (st, w1) = ask E (System cmd) w
      in (st, w1\<lparr>files := effect E (calls w) cmd (files w)\<rparr>))"

text \<open>\<open>fopen(path, "r")\<close>: NULL when there is no such file or the environment refuses it.\<close>

definition fopen_r :: "env \<Rightarrow> string \<Rightarrow> 'a world_scheme \<Rightarrow> bool \<times> 'a world_scheme" where
  "fopen_r E path w =
     (let (r, w1) = ask E (Fopen_r path) w in (path \<in> dom (files w) \<and> r = 0, w1))"

text \<open>\<open>fopen(path, "w")\<close>: on success the file is there and empty.\<close>

definition fopen_w :: "env \<Rightarrow> string \<Rightarrow> 'a world_scheme \<Rightarrow> bool \<times> 'a world_scheme" where
  "fopen_w E path w =
     (let (r, w1) = ask E (Fopen_w path) w
      in if r = 0 then (True, w1\<lparr>files := (files w1)(path \<mapsto> [])\<rparr>) else (False, w1))"

text \<open>
  Writing through a stream open on \<open>path\<close> appends as many bytes as the environment accepts: the
  answer is the number of bytes refused. The result is the number written.
\<close>

definition fwrite :: "env \<Rightarrow> string \<Rightarrow> string \<Rightarrow> 'a world_scheme \<Rightarrow> nat \<times> 'a world_scheme" where
  "fwrite E path data w =
     (let (r, w1) = ask E (Fwrite path data) w;
          n = length data - nat r;
          old = (case files w1 path of None \<Rightarrow> [] | Some c \<Rightarrow> c)
      in (n, w1\<lparr>files := (files w1)(path \<mapsto> old @ take n data)\<rparr>))"

text \<open>\<open>fprintf\<close>, whose result the source ignores.\<close>

definition fprintf :: "env \<Rightarrow> string \<Rightarrow> string \<Rightarrow> 'a world_scheme \<Rightarrow> 'a world_scheme" where
  "fprintf E path data w = snd (fwrite E path data w)"

definition remove_file :: "env \<Rightarrow> string \<Rightarrow> 'a world_scheme \<Rightarrow> 'a world_scheme" where
  "remove_file E path w =
     (let (r, w1) = ask E (Remove path) w
      in if r = 0 then w1\<lparr>files := (files w1)(path := None)\<rparr> else w1)"

text \<open>\<open>popen(cmd, "r")\<close>: the text the command prints, or None for NULL.\<close>

definition popen :: "env \<Rightarrow> string \<Rightarrow> 'a world_scheme \<Rightarrow> string option \<times> 'a world_scheme" where
  "popen E cmd w =
     (let (r, w1) = ask E (Popen cmd) w
      in (if r = 0 then Some (stdout_of E (calls w) cmd) else None, w1))"

text \<open>
  \<open>fgets(buf, n, f)\<close>: at most \<open>n - 1\<close> bytes, through the first newline; \<open>None\<close> is the
  NULL of an exhausted stream. The rest of the stream comes back with the chunk.
\<close>

fun fgets_chunk :: "nat \<Rightarrow> string \<Rightarrow> string \<times> string" where
  "fgets_chunk 0 s = ([], s)"
| "fgets_chunk (Suc k) [] = ([], [])"
| "fgets_chunk (Suc k) (c # s) =
     (if c = CHR 0x0A then ([c], s)
      else let (chunk, rest) = fgets_chunk k s in (c # chunk, rest))"

definition fgets :: "nat \<Rightarrow> string \<Rightarrow> (string \<times> string) option" where
  "fgets n s = (if s = [] \<or> n \<le> 1 then None else Some (fgets_chunk (n - 1) s))"

text \<open>\<open>strstr(hay, needle) != NULL\<close>.\<close>

fun starts_with :: "string \<Rightarrow> string \<Rightarrow> bool" where
  "starts_with [] s = True"
| "starts_with (c # p) [] = False"
| "starts_with (c # p) (d # s) = (c = d \<and> starts_with p s)"

fun strstr :: "string \<Rightarrow> string \<Rightarrow> bool" where
  "strstr [] needle = (needle = [])"
| "strstr (c # s) needle = (starts_with needle (c # s) \<or> strstr s needle)"

section \<open>Facts about the calls\<close>

lemma ask_eq [simp]:
  "fst (ask E c w) = answer E (calls w) c"
  "calls (snd (ask E c w)) = calls w @ [c]"
  "files (snd (ask E c w)) = files w"
  "world.more (snd (ask E c w)) = world.more w"
  by (simp_all add: ask_def)

lemma WIFEXITED_0 [simp]: "WIFEXITED 0"
  by (simp add: WIFEXITED_def)

lemma WEXITSTATUS_0 [simp]: "WEXITSTATUS 0 = 0"
  by (simp add: WEXITSTATUS_def)

lemma system_more [frame_simps]: "world.more (snd (system E cmd w)) = world.more w"
  by (simp add: system_def ask_def)

lemma system_calls [simp]: "calls (snd (system E cmd w)) = calls w @ [System cmd]"
  by (simp add: system_def ask_def)

lemma fopen_r_frame [frame_simps]:
  "world.more (snd (fopen_r E p w)) = world.more w" "files (snd (fopen_r E p w)) = files w"
  by (simp_all add: fopen_r_def ask_def)

lemma fopen_w_more [frame_simps]: "world.more (snd (fopen_w E p w)) = world.more w"
  by (simp add: fopen_w_def ask_def)

lemma fwrite_more [frame_simps]: "world.more (snd (fwrite E p d w)) = world.more w"
  by (simp add: fwrite_def ask_def Let_def)

lemma fprintf_more [frame_simps]: "world.more (fprintf E p d w) = world.more w"
  by (simp add: fprintf_def fwrite_more)

lemma remove_file_more [frame_simps]: "world.more (remove_file E p w) = world.more w"
  by (simp add: remove_file_def ask_def)

lemma popen_frame [frame_simps]:
  "world.more (snd (popen E c w)) = world.more w" "files (snd (popen E c w)) = files w"
  by (simp_all add: popen_def ask_def)

lemma fwrite_le: "fst (fwrite E p d w) \<le> length d"
  by (simp add: fwrite_def ask_def Let_def)

lemma fwrite_full:
  "fst (fwrite E p d w) = length d \<Longrightarrow> files w p = Some c \<Longrightarrow>
     files (snd (fwrite E p d w)) = (files w)(p \<mapsto> c @ d)"
  by (simp add: fwrite_def ask_def Let_def)

lemma files_fwrite_other: "q \<noteq> p \<Longrightarrow> files (snd (fwrite E p d w)) q = files w q"
  by (simp add: fwrite_def ask_def Let_def)

lemma fgets_chunk_append: "fst (fgets_chunk k s) @ snd (fgets_chunk k s) = s"
  by (induction k s rule: fgets_chunk.induct) (auto simp: Let_def split: prod.splits)

lemma fgets_progress: "fgets n s = Some (chunk, rest) \<Longrightarrow> length rest < length s"
proof -
  assume "fgets n s = Some (chunk, rest)"
  then have ne: "s \<noteq> []" and n: "1 < n" and e: "fgets_chunk (n - 1) s = (chunk, rest)"
    by (auto simp: fgets_def split: if_splits)
  from n obtain k where "n - 1 = Suc k" by (cases "n - 1") auto
  with ne e have "chunk \<noteq> []"
    by (cases s) (auto split: if_splits prod.splits)
  moreover have "chunk @ rest = s"
    using fgets_chunk_append [of "n - 1" s] e by simp
  ultimately show ?thesis by auto
qed

lemma starts_with_iff: "starts_with p s \<longleftrightarrow> (\<exists>t. s = p @ t)"
  by (induction p s rule: starts_with.induct) auto

lemma strstr_iff: "strstr s p \<longleftrightarrow> (\<exists>a b. s = a @ p @ b)"
proof (induction s)
  case Nil
  then show ?case by auto
next
  case (Cons c s)
  show ?case (is "?l \<longleftrightarrow> ?r")
  proof
    assume ?l
    then consider "starts_with p (c # s)" | "strstr s p" by auto
    then show ?r
    proof cases
      case 1
      then obtain t where "c # s = [] @ p @ t" by (auto simp: starts_with_iff)
      then show ?thesis by blast
    next
      case 2
      then obtain a b where "s = a @ p @ b" using Cons.IH by blast
      then have "c # s = (c # a) @ p @ b" by simp
      then show ?thesis by blast
    qed
  next
    assume ?r
    then obtain a b where ab: "c # s = a @ p @ b" by blast
    show ?l
    proof (cases a)
      case Nil
      with ab have "c # s = p @ b" by simp
      then have "starts_with p (c # s)" unfolding starts_with_iff by blast
      then show ?thesis by simp
    next
      case (Cons x a')
      with ab have "s = a' @ p @ b" by simp
      then have "strstr s p" using Cons.IH by blast
      then show ?thesis by simp
    qed
  qed
qed

end
