(* ===== verification/Utilities.thy ===== *)
theory Utilities
  imports World
begin

text \<open>
  \<open>src/lib/wifi-ap-utilities.c\<close>: copying and appending UTF-8 strings into bounded buffers, the test
  for a file, and the conversion of a dotted netmask to a prefix length. Buffers are byte lists, indices are
  checked: a read or a write outside an object is the fault \<open>Out_of_bounds\<close>. The copy is proved equal to
  a reference definition on whole characters, for every source string.
\<close>

section \<open>UTF-8 characters\<close>

text \<open>
  \<open>firstByte\<close> is a signed \<open>char\<close>, promoted to \<open>int\<close>; each mask keeps bits of the low
  byte only, so the tests read the eight bits of the byte.
\<close>

definition byte_of :: "char \<Rightarrow> 8 word" where
  "byte_of c = of_char c"

definition utf8_NumBytesInChar :: "char \<Rightarrow> nat" where
  "utf8_NumBytesInChar firstByte =
     (if byte_of firstByte AND 0x80 = 0x00 then 1
      else if byte_of firstByte AND 0xE0 = 0xC0 then 2
      else if byte_of firstByte AND 0xF0 = 0xE0 then 3
      else if byte_of firstByte AND 0xF8 = 0xF0 then 4
      else 0)"

text \<open>The inner loop \<open>for (; charLength > 0; charLength--) { destStr[i] = srcStr[i]; i++; }\<close>.\<close>

fun copy_bytes :: "char list \<Rightarrow> char list \<Rightarrow> nat \<Rightarrow> nat \<Rightarrow> fault + char list" where
  "copy_bytes dest src 0 i = Inr dest"
| "copy_bytes dest src (Suc charLength) i =
     (if i < length src \<and> i < length dest
      then copy_bytes (dest[i := src ! i]) src charLength (Suc i)
      else Inl Out_of_bounds)"

definition put_byte :: "char list \<Rightarrow> nat \<Rightarrow> char \<Rightarrow> fault + char list" where
  "put_byte dest i c = (if i < length dest then Inr (dest[i := c]) else Inl Out_of_bounds)"

text \<open>
  The loop \<open>while (1)\<close>, from index \<open>i\<close>. \<open>src\<close> is the whole object the source points
  into, terminator included, so reading past its end is visible. The result is the return value, the
  destination, and the number stored through \<open>numBytesPtr\<close> (ignored by a caller that passes NULL).
\<close>

function utf8_Copy_loop ::
    "char list \<Rightarrow> char list \<Rightarrow> nat \<Rightarrow> nat \<Rightarrow> fault + (int \<times> char list \<times> nat)" where
  "utf8_Copy_loop dest src destSize i =
     (if \<not> i < length src then Inl Out_of_bounds
      else if src ! i = NUL then bindE (put_byte dest i NUL) (\<lambda>d. Inr (0, d, i))
      else
        let charLength = utf8_NumBytesInChar (src ! i) in
        if charLength = 0 then bindE (put_byte dest 0 NUL) (\<lambda>d. Inr (0, d, 0))
        else if charLength + i \<ge> destSize then bindE (put_byte dest i NUL) (\<lambda>d. Inr (- 1, d, i))
        else bindE (copy_bytes dest src charLength i)
               (\<lambda>d. utf8_Copy_loop d src destSize (i + charLength)))"
  by pat_completeness auto
termination
  by (relation "measure (\<lambda>(dest, src, destSize, i). destSize - i)") auto

declare utf8_Copy_loop.simps [simp del]

definition utf8_Copy :: "char list \<Rightarrow> char list \<Rightarrow> nat \<Rightarrow> fault + (int \<times> char list \<times> nat)" where
  "utf8_Copy destStr srcStr destSize =
     (if destSize = 0 then Inl Assert_failed else utf8_Copy_loop destStr srcStr destSize 0)"

text \<open>\<open>size_t\<close> subtraction wraps at 64 bits.\<close>

definition size_sub :: "nat \<Rightarrow> nat \<Rightarrow> nat" where
  "size_sub a b = unat ((of_nat a :: 64 word) - of_nat b)"

definition utf8_Append :: "char list \<Rightarrow> char list \<Rightarrow> nat \<Rightarrow> fault + (int \<times> char list \<times> nat)" where
  "utf8_Append destStr srcStr destSize =
     (if destSize = 0 then Inl Assert_failed
      else if NUL \<notin> set destStr then Inl Out_of_bounds
      else let destStrSize = strlen destStr in
        bindE (utf8_Copy (drop destStrSize destStr) srcStr (size_sub destSize destStrSize))
          (\<lambda>(result, d, n). Inr (result, take destStrSize destStr @ d, n + destStrSize)))"

section \<open>Files and netmasks\<close>

definition checkFileExists :: "env \<Rightarrow> string \<Rightarrow> 'a world_scheme \<Rightarrow> int \<times> 'a world_scheme" where
  "checkFileExists E fileName w =
     (let (opened, w1) = fopen_r E fileName w in (if opened then 1 else 0, w1))"

text \<open>
  One \<open>%d\<close> of \<open>sscanf\<close>: white space, a sign, decimal digits; the C library keeps the low
  32 bits of the number. A conversion that finds no digit stops the scan.
\<close>

definition is_space :: "char \<Rightarrow> bool" where
  "is_space c \<longleftrightarrow> c = CHR '' '' \<or> (9 \<le> (of_char c :: nat) \<and> (of_char c :: nat) \<le> 13)"

definition is_digit :: "char \<Rightarrow> bool" where
  "is_digit c \<longleftrightarrow> 48 \<le> (of_char c :: nat) \<and> (of_char c :: nat) \<le> 57"

definition digit_val :: "char \<Rightarrow> nat" where
  "digit_val c = of_char c - 48"

fun digits_val :: "nat \<Rightarrow> string \<Rightarrow> nat" where
  "digits_val acc [] = acc"
| "digits_val acc (c # s) = digits_val (10 * acc + digit_val c) s"

definition scan_d :: "string \<Rightarrow> (int \<times> string) option" where
  "scan_d s =
     (let s1 = dropWhile is_space s;
          (neg, s2) = (case s1 of
              [] \<Rightarrow> (False, [])
            | c # t \<Rightarrow> if c = CHR ''-'' then (True, t) else if c = CHR ''+'' then (False, t)
                       else (False, c # t));
          ds = takeWhile is_digit s2;
          v = int (digits_val 0 ds)
      in if ds = [] then None
         else Some (signed_take_bit 31 (if neg then - v else v), dropWhile is_digit s2))"

text \<open>The format \<open>"%d.%d.%d.%d"\<close>: the list of the numbers stored before the scan stops.\<close>

fun scan_quad :: "nat \<Rightarrow> string \<Rightarrow> int list" where
  "scan_quad 0 s = []"
| "scan_quad (Suc k) s =
     (case scan_d s of
        None \<Rightarrow> []
      | Some (v, r) \<Rightarrow>
          v # (case r of [] \<Rightarrow> [] | c # r' \<Rightarrow> if c = CHR ''.'' then scan_quad k r' else []))"

text \<open>The \<open>switch\<close> of \<open>toCidr\<close>, and its loop over \<open>ipbytes\<close>.\<close>

definition octet_bits :: "int \<Rightarrow> int option" where
  "octet_bits b =
     (if b = 0x80 then Some 1 else if b = 0xC0 then Some 2 else if b = 0xE0 then Some 3
      else if b = 0xF0 then Some 4 else if b = 0xF8 then Some 5 else if b = 0xFC then Some 6
      else if b = 0xFE then Some 7 else if b = 0xFF then Some 8 else None)"

fun cidr_loop :: "int list \<Rightarrow> int \<Rightarrow> int" where
  "cidr_loop [] netmask_cidr = netmask_cidr"
| "cidr_loop (b # bs) netmask_cidr =
     (case octet_bits b of Some k \<Rightarrow> cidr_loop bs (netmask_cidr + k) | None \<Rightarrow> netmask_cidr)"

text \<open>
  \<open>int ipbytes[4]\<close> is not initialised: \<open>uninit\<close> is what the stack held, and is what the loop
  reads where \<open>sscanf\<close> stored nothing.
\<close>

definition toCidr :: "(nat \<Rightarrow> int) \<Rightarrow> string \<Rightarrow> int" where
  "toCidr uninit ipAddress =
     (let stored = scan_quad 4 (cstr ipAddress);
          ipbytes = map (\<lambda>i. if i < length stored then stored ! i else uninit i) [0..<4]
      in cidr_loop ipbytes 0)"

section \<open>Reference definition of the copy\<close>

text \<open>
  The whole characters at the front of a string, and what is left: nothing, a byte that starts no
  character, or a character cut short by the end of the string.
\<close>

function utf8_split :: "string \<Rightarrow> string list \<times> string" where
  "utf8_split s =
     (if s = [] \<or> utf8_NumBytesInChar (hd s) = 0 \<or> length s < utf8_NumBytesInChar (hd s) then ([], s)
      else let k = utf8_NumBytesInChar (hd s); (cs, r) = utf8_split (drop k s) in (take k s # cs, r))"
  by pat_completeness auto
termination
  by (relation "measure length") auto

declare utf8_split.simps [simp del]

text \<open>The longest run of whole characters that leaves room for a terminator in \<open>n\<close> bytes.\<close>

fun fit :: "nat \<Rightarrow> string list \<Rightarrow> string list" where
  "fit n [] = []"
| "fit n (c # cs) = (if length c < n then c # fit (n - length c) cs else [])"

definition utf8_copy_ref :: "char list \<Rightarrow> string \<Rightarrow> nat \<Rightarrow> fault + (int \<times> char list \<times> nat)" where
  "utf8_copy_ref dest s n =
     (let (cs, rest) = utf8_split s;
          out = concat (fit n cs);
          filled = out @ NUL # drop (Suc (length out)) dest
      in if length (fit n cs) < length cs then Inr (- 1, filled, length out)
         else if rest = [] then Inr (0, filled, length out)
         else if utf8_NumBytesInChar (hd rest) = 0
         then Inr (0, (out @ drop (length out) dest)[0 := NUL], 0)
         else if utf8_NumBytesInChar (hd rest) + length out \<ge> n then Inr (- 1, filled, length out)
         else Inl Out_of_bounds)"

section \<open>The copy agrees with the reference\<close>

lemma NumBytes_le_4: "utf8_NumBytesInChar c \<le> 4"
  by (simp add: utf8_NumBytesInChar_def)

lemma put_byte_eq [simp]: "i < length d \<Longrightarrow> put_byte d i c = Inr (d[i := c])"
  by (simp add: put_byte_def)

lemma update_at_length: "(pre @ xs)[length pre := c] = pre @ xs[0 := c]"
  by (simp add: list_update_append)

lemma update_head_drop: "i < length d \<Longrightarrow> (drop i d)[0 := c] = c # drop (Suc i) d"
  by (metis Cons_nth_drop_Suc list_update_code(2))

lemma copy_bytes_ok:
  "i + k \<le> length src \<Longrightarrow> i + k \<le> length dest \<Longrightarrow>
     copy_bytes dest src k i = Inr (take i dest @ take k (drop i src) @ drop (i + k) dest)"
proof (induction k arbitrary: i dest)
  case 0
  then show ?case by simp
next
  case (Suc k)
  let ?d = "dest[i := src ! i]"
  from Suc.prems have i: "i < length src" "i < length dest" by simp_all
  have "copy_bytes dest src (Suc k) i = copy_bytes ?d src k (Suc i)"
    using i by simp
  also have "\<dots> = Inr (take (Suc i) ?d @ take k (drop (Suc i) src) @ drop (Suc i + k) ?d)"
    using Suc.prems by (intro Suc.IH) simp_all
  also have "take (Suc i) ?d = take i dest @ [src ! i]"
    using i by (simp add: take_Suc_conv_app_nth)
  finally show ?case
    using i by (simp flip: Cons_nth_drop_Suc)
qed

lemma copy_bytes_overread:
  "length src < i + k \<Longrightarrow> i \<le> length src \<Longrightarrow> copy_bytes dest src k i = Inl Out_of_bounds"
  by (induction dest src k i rule: copy_bytes.induct) auto

lemma utf8_split_Nil [simp]: "utf8_split [] = ([], [])"
  by (simp add: utf8_split.simps)

lemma utf8_split_stop:
  "s \<noteq> [] \<Longrightarrow> utf8_NumBytesInChar (hd s) = 0 \<or> length s < utf8_NumBytesInChar (hd s) \<Longrightarrow>
     utf8_split s = ([], s)"
  by (subst utf8_split.simps) auto

lemma utf8_split_step:
  "s \<noteq> [] \<Longrightarrow> k = utf8_NumBytesInChar (hd s) \<Longrightarrow> 0 < k \<Longrightarrow> k \<le> length s \<Longrightarrow>
     utf8_split s = (take k s # fst (utf8_split (drop k s)), snd (utf8_split (drop k s)))"
  by (subst utf8_split.simps) (simp add: Let_def split_beta)

lemma utf8_split_append: "concat (fst (utf8_split s)) @ snd (utf8_split s) = s"
proof (induction s rule: utf8_split.induct)
  case (1 s)
  show ?case
  proof (cases "s = [] \<or> utf8_NumBytesInChar (hd s) = 0 \<or> length s < utf8_NumBytesInChar (hd s)")
    case True
    then show ?thesis by (subst (1 2) utf8_split.simps) simp
  next
    case False
    with 1 [OF False refl] show ?thesis
      by (simp add: utf8_split_step append_eq_conv_conj)
  qed
qed

lemma length_fit: "0 < n \<Longrightarrow> length (concat (fit n cs)) < n"
  by (induction n cs rule: fit.induct) auto

text \<open>
  The loop, entered with the first \<open>i\<close> bytes already copied. \<open>loop_ref\<close> is the reference with a
  prefix \<open>pre\<close> in front.
\<close>

definition loop_ref :: "char list \<Rightarrow> string \<Rightarrow> string \<Rightarrow> nat \<Rightarrow> fault + (int \<times> char list \<times> nat)" where
  "loop_ref dest pre s n =
     (let (cs, rest) = utf8_split s;
          out = pre @ concat (fit (n - length pre) cs);
          filled = out @ NUL # drop (Suc (length out)) dest
      in if length (fit (n - length pre) cs) < length cs then Inr (- 1, filled, length out)
         else if rest = [] then Inr (0, filled, length out)
         else if utf8_NumBytesInChar (hd rest) = 0
         then Inr (0, (out @ drop (length out) dest)[0 := NUL], 0)
         else if utf8_NumBytesInChar (hd rest) + length out \<ge> n then Inr (- 1, filled, length out)
         else Inl Out_of_bounds)"

lemma loop_ref_step:
  assumes "s \<noteq> []" "k = utf8_NumBytesInChar (hd s)" "0 < k" "k \<le> length s" "k + length pre < n"
    and "length dest' = length dest" "drop (length pre + k) dest' = drop (length pre + k) dest"
  shows "loop_ref dest' (pre @ take k s) (drop k s) n = loop_ref dest pre s n"
proof -
  have d: "drop m dest' = drop m dest" if "length pre + k \<le> m" for m
    using assms(7) that by (metis drop_drop le_add_diff_inverse add.commute)
  have f: "fit (n - length pre) (take k s # cs) = take k s # fit (n - length pre - k) cs" for cs
    using assms(4,5) by simp
  show ?thesis
    using assms(4)
    by (simp add: loop_ref_def utf8_split_step [OF assms(1-4)] f Let_def split_beta d del: fit.simps)
qed

lemma utf8_Copy_loop_eq:
  assumes "NUL \<notin> set s" "length pre < n" "n \<le> length dest" "take (length pre) dest = pre"
  shows "utf8_Copy_loop dest (pre @ s @ [NUL]) n (length pre) = loop_ref dest pre s n"
  using assms
proof (induction s arbitrary: pre dest rule: utf8_split.induct)
  case (1 s)
  let ?src = "pre @ s @ [NUL]" and ?k = "utf8_NumBytesInChar (hd s)"
  have dest: "dest = pre @ drop (length pre) dest"
    using "1.prems"(4) by (metis append_take_drop_id)
  have here: "?src ! length pre = hd (s @ [NUL])"
    by (simp add: nth_append hd_conv_nth)
  have put: "dest[length pre := NUL] = pre @ NUL # drop (Suc (length pre)) dest"
    using "1.prems" by (subst (1) dest) (simp add: update_at_length update_head_drop)
  consider (ended) "s = []" | (bad) "s \<noteq> []" "?k = 0" | (full) "s \<noteq> []" "0 < ?k" "n \<le> ?k + length pre"
    | (cut) "s \<noteq> []" "0 < ?k" "?k + length pre < n" "length s < ?k"
    | (step) "s \<noteq> []" "0 < ?k" "?k + length pre < n" "?k \<le> length s"
    by linarith
  then show ?case
  proof cases
    case ended
    with "1.prems" put show ?thesis
      by (subst utf8_Copy_loop.simps) (simp add: loop_ref_def)
  next
    case bad
    then have "?src ! length pre \<noteq> NUL"
      using here "1.prems"(1) by (metis hd_append2 hd_in_set)
    moreover have "0 < length dest"
      using "1.prems" by linarith
    ultimately show ?thesis
      using bad here "1.prems" dest
      by (subst utf8_Copy_loop.simps) (simp add: loop_ref_def utf8_split_stop)
  next
    case full
    then have ne: "?src ! length pre \<noteq> NUL"
      using here "1.prems"(1) by (metis hd_append2 hd_in_set)
    have "length (fit (n - length pre) (fst (utf8_split s))) < length (fst (utf8_split s)) \<or>
          utf8_split s = ([], s)"
    proof (cases "?k \<le> length s")
      case True
      with full show ?thesis by (simp add: utf8_split_step)
    next
      case False
      with full show ?thesis by (simp add: utf8_split_stop)
    qed
    moreover have "fit (n - length pre) (fst (utf8_split s)) = []"
    proof (cases "?k \<le> length s")
      case True
      with full show ?thesis by (simp add: utf8_split_step)
    next
      case False
      with full show ?thesis by (simp add: utf8_split_stop)
    qed
    ultimately show ?thesis
      using full here ne put "1.prems"
      by (subst utf8_Copy_loop.simps) (auto simp: loop_ref_def split_beta Let_def)
  next
    case cut
    then have ne: "?src ! length pre \<noteq> NUL"
      using here "1.prems"(1) by (metis hd_append2 hd_in_set)
    have "utf8_Copy_loop dest ?src n (length pre) = Inl Out_of_bounds"
    proof (cases "?k = Suc (length s)")
      case False
      with cut have "copy_bytes dest ?src ?k (length pre) = Inl Out_of_bounds"
        by (intro copy_bytes_overread) simp_all
      with cut here ne show ?thesis by (subst utf8_Copy_loop.simps) simp
    next
      case True
      with cut "1.prems" obtain d where "copy_bytes dest ?src ?k (length pre) = Inr d"
        using copy_bytes_ok [of "length pre" ?k ?src dest] by auto
      moreover have "utf8_Copy_loop d ?src n (length pre + ?k) = Inl Out_of_bounds"
        using True by (subst utf8_Copy_loop.simps) simp
      ultimately show ?thesis using cut here ne
        by (subst utf8_Copy_loop.simps) simp
    qed
    with cut show ?thesis by (simp add: loop_ref_def utf8_split_stop)
  next
    case step
    then have ne: "?src ! length pre \<noteq> NUL"
      using here "1.prems"(1) by (metis hd_append2 hd_in_set)
    let ?d = "pre @ take ?k s @ drop (length pre + ?k) dest"
    have "copy_bytes dest ?src ?k (length pre) = Inr ?d"
      using step "1.prems" by (subst copy_bytes_ok) auto
    then have "utf8_Copy_loop dest ?src n (length pre) = utf8_Copy_loop ?d ?src n (length pre + ?k)"
      using step here ne by (subst utf8_Copy_loop.simps) (simp add: Let_def)
    also have "\<dots> = utf8_Copy_loop ?d ((pre @ take ?k s) @ drop ?k s @ [NUL]) n (length (pre @ take ?k s))"
    proof -
      have src: "(pre @ take ?k s) @ drop ?k s @ [NUL] = ?src"
        by (metis append.assoc append_take_drop_id)
      have len: "length (pre @ take ?k s) = length pre + ?k"
        using step by simp
      show ?thesis unfolding src len ..
    qed
    also have "\<dots> = loop_ref ?d (pre @ take ?k s) (drop ?k s) n"
      using step "1.prems" by (intro "1.IH") (auto dest: in_set_dropD)
    also have "\<dots> = loop_ref dest pre s n"
      using step "1.prems" by (intro loop_ref_step) auto
    finally show ?thesis .
  qed
qed

lemma utf8_Copy_eq_loop_ref:
  assumes "NUL \<notin> set s" "0 < n" "n \<le> length dest"
  shows "utf8_Copy dest (s @ [NUL]) n = loop_ref dest [] s n"
  using utf8_Copy_loop_eq [of s "[]" n dest] assms by (simp add: utf8_Copy_def)

section \<open>What the copy may touch\<close>

lemma copy_bytes_frame:
  "copy_bytes dest src k i = Inr d \<Longrightarrow> i + k \<le> n \<Longrightarrow>
     length d = length dest \<and> drop n d = drop n dest"
  by (induction dest src k i rule: copy_bytes.induct) (auto split: if_splits)

lemma utf8_Copy_loop_bounds:
  "utf8_Copy_loop dest src n i = Inr (r, d, k) \<Longrightarrow> i < n \<Longrightarrow>
     length d = length dest \<and> k < n \<and> k < length d \<and> d ! k = NUL \<and> drop n d = drop n dest"
proof (induction dest src n i arbitrary: r d k rule: utf8_Copy_loop.induct)
  case (1 dest src n i)
  let ?cl = "utf8_NumBytesInChar (src ! i)"
  from "1.prems"(1) have src: "i < length src"
    by (subst (asm) utf8_Copy_loop.simps) (simp split: if_splits)
  show ?case
  proof (cases "src ! i \<noteq> NUL \<and> ?cl \<noteq> 0 \<and> ?cl + i < n")
    case False
    with "1.prems" src show ?thesis
      by (subst (asm) utf8_Copy_loop.simps)
        (auto simp: put_byte_def Let_def split: if_splits)
  next
    case True
    with "1.prems"(1) src obtain d1 where c: "copy_bytes dest src ?cl i = Inr d1"
      and l: "utf8_Copy_loop d1 src n (i + ?cl) = Inr (r, d, k)"
      by (subst (asm) utf8_Copy_loop.simps) (auto simp: Let_def)
    from True src have "length d = length d1 \<and> k < n \<and> k < length d \<and> d ! k = NUL \<and> drop n d = drop n d1"
      by (intro "1.IH" [OF _ _ refl _ _ l]) simp_all
    with copy_bytes_frame [OF c, of n] True show ?thesis by simp
  qed
qed

lemma utf8_Copy_bounds:
  "utf8_Copy dest src n = Inr (r, d, k) \<Longrightarrow>
     length d = length dest \<and> k < n \<and> k < length d \<and> d ! k = NUL \<and> drop n d = drop n dest"
  using utf8_Copy_loop_bounds by (force simp: utf8_Copy_def split: if_splits)

text \<open>The last byte of a destination that is closed by a NUL is never overwritten with anything else.\<close>

lemma last_update: "Suc i < length xs \<Longrightarrow> last (xs[i := c]) = last xs"
  by (subst last_list_update) auto

lemma copy_bytes_last:
  "copy_bytes dest src k i = Inr d \<Longrightarrow> i + k < length dest \<Longrightarrow> last d = last dest \<and> length d = length dest"
  by (induction dest src k i rule: copy_bytes.induct) (auto simp: last_update split: if_splits)

lemma utf8_Copy_loop_last:
  "utf8_Copy_loop dest src n i = Inr (r, d, k) \<Longrightarrow> n \<le> length dest \<Longrightarrow> dest \<noteq> [] \<Longrightarrow> last dest = NUL \<Longrightarrow> last d = NUL"
proof (induction dest src n i arbitrary: r d k rule: utf8_Copy_loop.induct)
  case (1 dest src n i)
  let ?l = "utf8_NumBytesInChar (src ! i)"
  show ?case
  proof (cases "i < length src \<and> src ! i \<noteq> NUL \<and> ?l \<noteq> 0 \<and> ?l + i < n")
    case False
    with 1(2-5) show ?thesis
      by (subst (asm) utf8_Copy_loop.simps) (auto simp: put_byte_def last_list_update Let_def not_less split: if_splits)
  next
    case True
    with 1(2) obtain e where e: "copy_bytes dest src ?l i = Inr e" "utf8_Copy_loop e src n (i + ?l) = Inr (r, d, k)"
      by (subst (asm) utf8_Copy_loop.simps) (auto simp: Let_def)
    from copy_bytes_last [OF e(1)] True 1(3-5) have "last e = NUL" "length e = length dest" by auto
    with 1(1) [OF _ _ refl _ _ e(2)] True 1(3,4) show ?thesis by (cases e) auto
  qed
qed

lemma utf8_Copy_last:
  "utf8_Copy dest src n = Inr (r, d, k) \<Longrightarrow> n \<le> length dest \<Longrightarrow> dest \<noteq> [] \<Longrightarrow> last dest = NUL \<Longrightarrow> last d = NUL"
  using utf8_Copy_loop_last by (auto simp: utf8_Copy_def split: if_splits)

section \<open>ASCII strings\<close>

text \<open>Strings of single-byte characters: every literal of the source is one.\<close>

definition ascii :: "string \<Rightarrow> bool" where
  "ascii s = list_all (\<lambda>c. c \<noteq> NUL \<and> utf8_NumBytesInChar c = 1) s"

lemma ascii_append [simp]: "ascii (s @ t) \<longleftrightarrow> ascii s \<and> ascii t"
  by (simp add: ascii_def)

lemma ascii_no_NUL: "ascii s \<Longrightarrow> NUL \<notin> set s"
  by (auto simp: ascii_def list_all_iff)

lemma utf8_split_ascii: "ascii s \<Longrightarrow> utf8_split s = (map (\<lambda>c. [c]) s, [])"
  by (induction s) (simp_all add: ascii_def utf8_split_step)

lemma fit_singletons: "length s < n \<Longrightarrow> fit n (map (\<lambda>c. [c]) s) = map (\<lambda>c. [c]) s"
  by (induction s arbitrary: n) auto

lemma concat_singletons: "concat (map (\<lambda>c. [c]) s) = s"
  by (induction s) auto

lemma utf8_Copy_ascii [buffer_simps]:
  "ascii s \<Longrightarrow> length s < n \<Longrightarrow> n \<le> length dest \<Longrightarrow>
     utf8_Copy dest (s @ [NUL]) n = Inr (0, s @ NUL # drop (Suc (length s)) dest, length s)"
  by (subst utf8_Copy_eq_loop_ref)
    (auto simp: ascii_no_NUL loop_ref_def utf8_split_ascii fit_singletons concat_singletons)

section \<open>Appending\<close>

lemma size_sub_eq: "b \<le> a \<Longrightarrow> a < 2 ^ 64 \<Longrightarrow> size_sub a b = a - b"
  by (simp add: size_sub_def unat_sub_if' unsigned_of_nat take_bit_nat_eq_self)

lemma utf8_Append_ascii [buffer_simps]:
  assumes "ascii s" "NUL \<in> set dest" "strlen dest + length s < n" "n \<le> length dest" "n < 2 ^ 64"
  shows "utf8_Append dest (s @ [NUL]) n =
    Inr (0, cstr dest @ s @ NUL # drop (Suc (strlen dest + length s)) dest, strlen dest + length s)"
proof -
  let ?k = "strlen dest"
  have k: "take ?k dest = cstr dest"
    unfolding strlen_def cstr_def by (rule takeWhile_eq_take [symmetric])
  have sz: "size_sub n ?k = n - ?k"
    using assms(3,5) by (intro size_sub_eq) simp_all
  have c: "utf8_Copy (drop ?k dest) (s @ [NUL]) (n - ?k) =
      Inr (0, s @ NUL # drop (Suc (length s)) (drop ?k dest), length s)"
    using assms(1-4) by (intro utf8_Copy_ascii) auto
  have "0 < n" using assms(3) by simp
  then show ?thesis
    using assms(2) by (simp add: utf8_Append_def Let_def sz c k add.commute)
qed

section \<open>Reading back dotted addresses\<close>

lemma digit_char_props [simp]:
  "d < 10 \<Longrightarrow> is_digit (digit_char d)"
  "d < 10 \<Longrightarrow> digit_val (digit_char d) = d"
  by (simp_all add: is_digit_def digit_val_def digit_char_def)

lemma digits_val_snoc: "digits_val acc (s @ [c]) = 10 * digits_val acc s + digit_val c"
  by (induction s arbitrary: acc) simp_all

lemma digits_val_show_nat: "digits_val 0 (show_nat n) = n"
proof (induction n rule: show_nat.induct)
  case (1 n)
  show ?case
  proof (cases "n < 10")
    case True
    then show ?thesis by (subst show_nat.simps) simp
  next
    case False
    with 1 show ?thesis by (subst show_nat.simps) (simp add: digits_val_snoc)
  qed
qed

lemma show_nat_digits: "list_all is_digit (show_nat n)"
proof (induction n rule: show_nat.induct)
  case (1 n)
  then show ?case by (cases "n < 10"; subst show_nat.simps) auto
qed

lemma show_nat_Cons: "\<exists>c s. show_nat n = c # s"
  by (subst show_nat.simps) (cases "show_nat (n div 10)"; simp)

lemma digit_not_sign: "is_digit c \<Longrightarrow> c \<noteq> CHR ''-'' \<and> c \<noteq> CHR ''+'' \<and> \<not> is_space c"
  by (auto simp: is_digit_def is_space_def)

lemma takeWhile_all_append:
  "list_all P xs \<Longrightarrow> takeWhile P (xs @ ys) = xs @ takeWhile P ys"
  "list_all P xs \<Longrightarrow> dropWhile P (xs @ ys) = dropWhile P ys"
  by (simp_all add: list_all_iff)

text \<open>\<open>%d\<close> reads what \<open>%u\<close> printed.\<close>

lemma scan_d_show_nat:
  assumes "n < 2 ^ 31" "rest = [] \<or> \<not> is_digit (hd rest)"
  shows "scan_d (show_nat n @ rest) = Some (int n, rest)"
proof -
  obtain c s where cs: "show_nat n = c # s" using show_nat_Cons by blast
  have "is_digit c" using show_nat_digits [of n] cs by simp
  then have c: "c \<noteq> CHR ''-''" "c \<noteq> CHR ''+''" "\<not> is_space c"
    using digit_not_sign by blast+
  have "takeWhile is_digit rest = []" "dropWhile is_digit rest = rest"
    using assms(2) by (cases rest, simp_all)+
  then have tw: "takeWhile is_digit (show_nat n @ rest) = show_nat n"
    "dropWhile is_digit (show_nat n @ rest) = rest"
    by (simp_all only: takeWhile_all_append [OF show_nat_digits] append_Nil2)
  have "signed_take_bit 31 (int n) = int n"
    using assms(1) by (intro signed_take_bit_int_eq_self) simp_all
  moreover have "dropWhile is_space (show_nat n @ rest) = show_nat n @ rest"
    using c(3) by (simp add: cs)
  moreover have "(case show_nat n @ rest of [] \<Rightarrow> (False, [])
      | x # t \<Rightarrow> if x = CHR ''-'' then (True, t) else if x = CHR ''+'' then (False, t)
                 else (False, x # t)) = (False, show_nat n @ rest)"
    using c(1,2) by (simp add: cs)
  moreover have "show_nat n \<noteq> []" by (simp add: cs)
  ultimately show ?thesis
    unfolding scan_d_def Let_def by (simp only: prod.case tw digits_val_show_nat if_False)
qed

definition octets :: "32 word \<Rightarrow> nat list" where
  "octets a = map (\<lambda>i. unat (drop_bit (8 * i) a AND 0xFF)) [3, 2, 1, 0]"

definition dotted :: "32 word \<Rightarrow> string" where
  "dotted a = (case map show_nat (octets a) of
     [p, q, r, s] \<Rightarrow> p @ ''.'' @ q @ ''.'' @ r @ ''.'' @ s | _ \<Rightarrow> [])"

definition prefix_mask :: "nat \<Rightarrow> 32 word" where
  "prefix_mask n = NOT (mask (32 - n))"

lemma scan_quad_dotted: "scan_quad 4 (dotted a) = map int (octets a)"
proof -
  have b: "unat (w AND 0xFF) < 2 ^ 31" for w :: "32 word"
  proof -
    have "unat (w AND 0xFF) \<le> unat (0xFF :: 32 word)"
      by (rule word_and_le1 [THEN word_le_nat_alt [THEN iffD1]])
    then show ?thesis by simp
  qed
  have dot: "\<not> is_digit CHR ''.''" by (simp add: is_digit_def)
  obtain x y z w where o: "octets a = [x, y, z, w]" and
    r: "x < 2 ^ 31" "y < 2 ^ 31" "z < 2 ^ 31" "w < 2 ^ 31"
    using b [simplified] by (simp add: octets_def)
  have d: "dotted a = show_nat x @ ''.'' @ show_nat y @ ''.'' @ show_nat z @ ''.'' @ show_nat w @ []"
    by (simp add: dotted_def o)
  have four: "(4::nat) = Suc (Suc (Suc (Suc 0)))" by simp
  show ?thesis
    unfolding four d o by (simp add: scan_d_show_nat r [simplified] dot del: append_Nil2)
qed

lemma dotted_no_NUL [simp]: "NUL \<notin> set (dotted a)"
  by (simp add: dotted_def octets_def)

lemma toCidr_dotted: "toCidr uninit (dotted a) = cidr_loop (map int (octets a)) 0"
  by (simp add: toCidr_def Let_def scan_quad_dotted octets_def upt_rec del: cidr_loop.simps)

section \<open>Properties\<close>

text \<open>
  C9. \<open>utf8_Copy\<close> copies whole characters only: for every source string and every destination of at
  least \<open>destSize\<close> bytes it behaves as the reference definition, in its return value, in the
  bytes it leaves in the destination, in the count it reports, and in whether it stays inside the source.
\<close>

theorem utf8_Copy_matches_reference:
  assumes "NUL \<notin> set s" "0 < n" "n \<le> length dest"
  shows "utf8_Copy dest (s @ [NUL]) n = utf8_copy_ref dest s n"
  using utf8_Copy_eq_loop_ref [OF assms] by (simp add: utf8_copy_ref_def loop_ref_def)

theorem utf8_Copy_matches_reference_witness:
  "utf8_Copy ''zzzz'' ([CHR ''a'', CHR 0xC3, CHR 0xA9, CHR ''b''] @ [NUL]) 4 =
     Inr (- 1, [CHR ''a'', CHR 0xC3, CHR 0xA9, NUL], 3)"
proof -
  have "utf8_copy_ref ''zzzz'' [CHR ''a'', CHR 0xC3, CHR 0xA9, CHR ''b''] 4 =
      Inr (- 1, [CHR ''a'', CHR 0xC3, CHR 0xA9, NUL], 3)"
    by code_simp
  then show ?thesis
    using utf8_Copy_matches_reference [of "[CHR ''a'', CHR 0xC3, CHR 0xA9, CHR ''b'']" 4 "''zzzz''"]
    by simp
qed

text \<open>
  \<open>utf8_Copy\<close> reads past the terminator of every source that ends in the middle of a character and
  would otherwise fit: the lead byte makes it copy the terminator as a continuation byte, and it goes on
  reading behind it.
\<close>

lemma utf8_Copy_overreads_cut_character:
  assumes "NUL \<notin> set s" "utf8_split s = (cs, c # t)" "0 < utf8_NumBytesInChar c"
    and "length (concat cs) + utf8_NumBytesInChar c < n" "n \<le> length dest"
  shows "utf8_Copy dest (s @ [NUL]) n = Inl Out_of_bounds"
proof -
  have f: "length (concat cs) < m \<Longrightarrow> fit m cs = cs" for m
    by (induction m cs rule: fit.induct) auto
  have "fit n cs = cs" using assms(4) by (intro f) simp
  with assms show ?thesis
    by (subst utf8_Copy_eq_loop_ref) (simp_all add: loop_ref_def)
qed

lemma utf8_Copy_overreads_cut_character_example:
  "utf8_Copy (replicate 65 NUL) ([CHR ''a'', CHR 0xC3] @ [NUL]) 65 = Inl Out_of_bounds"
proof (rule utf8_Copy_overreads_cut_character [where cs = "[''a'']" and c = "CHR 0xC3" and t = "[]"])
  show "utf8_split [CHR ''a'', CHR 0xC3] = ([''a''], [CHR 0xC3])" by code_simp
  show "0 < utf8_NumBytesInChar CHR 0xC3" by code_simp
  show "length (concat [''a'']) + utf8_NumBytesInChar CHR 0xC3 < 65" by code_simp
qed simp_all

lemma utf8_Append_frame:
  assumes "utf8_Append dest src n = Inr (r, d, k)" "strlen dest < n" "n < 2 ^ 64"
  shows "length d = length dest \<and> drop n d = drop n dest \<and>
    take (strlen dest) d = cstr dest \<and> strlen dest \<le> k \<and> k < n \<and> d ! k = NUL"
proof -
  let ?k = "strlen dest"
  have len: "?k \<le> length dest" by (simp add: strlen_def length_cstr_le)
  have sz: "size_sub n ?k = n - ?k"
    using assms(2,3) by (intro size_sub_eq) simp_all
  from assms(1) obtain d' m where c: "utf8_Copy (drop ?k dest) src (n - ?k) = Inr (r, d', m)"
    and d: "d = take ?k dest @ d'" "k = m + ?k"
    by (auto simp: utf8_Append_def Let_def sz split: if_splits)
  have "take ?k dest = cstr dest"
    unfolding strlen_def cstr_def by (rule takeWhile_eq_take [symmetric])
  moreover have "length (cstr dest) = ?k" by (simp add: strlen_def)
  ultimately show ?thesis
    using utf8_Copy_bounds [OF c] d len assms(2) by (auto simp: nth_append)
qed

text \<open>The whole characters of a source for which there is room, and the cut character that is read past its end.\<close>

definition overreads :: "string \<Rightarrow> nat \<Rightarrow> bool" where
  "overreads s m = (case utf8_split s of (cs, rest) \<Rightarrow> fit m cs = cs \<and> rest \<noteq> [] \<and>
     0 < utf8_NumBytesInChar (hd rest) \<and> length (concat cs) + utf8_NumBytesInChar (hd rest) < m)"

lemma length_fit_less: "length (fit m cs) < length cs \<longleftrightarrow> fit m cs \<noteq> cs"
  by (induction m cs rule: fit.induct) auto

lemma fit_subset: "set (concat (fit m cs)) \<subseteq> set (concat cs)"
  by (induction m cs rule: fit.induct) auto

lemma utf8_Copy_overreads:
  assumes "NUL \<notin> set s" "0 < m" "m \<le> length dest"
  shows "if overreads s m then utf8_Copy dest (s @ [NUL]) m = Inl Out_of_bounds
    else \<exists>r d k. utf8_Copy dest (s @ [NUL]) m = Inr (r, d, k) \<and>
      (let (cs, rest) = utf8_split s in
        if fit m cs = cs \<and> rest \<noteq> [] \<and> utf8_NumBytesInChar (hd rest) = 0 then r = 0 \<and> k = 0 \<and> cstr d = []
        else r = (if fit m cs = cs \<and> rest = [] then 0 else - 1) \<and> k = length (cstr d) \<and> cstr d = concat (fit m cs))"
proof -
  obtain cs rest where s: "utf8_split s = (cs, rest)" by fastforce
  have "NUL \<notin> set (concat (fit m cs))"
    using fit_subset [of m cs] assms(1) utf8_split_append [of s] s by (metis Un_iff fst_conv set_append subsetD)
  then have c: "cstr (concat (fit m cs) @ NUL # xs) = concat (fit m cs)" for xs by (rule cstr_append_NUL)
  have c': "fit m cs = cs \<Longrightarrow> cstr (concat cs @ NUL # xs) = concat cs" for xs using c by metis
  have z: "cstr (xs[0 := NUL]) = []" for xs by (cases xs) (simp_all add: cstr_def)
  have "utf8_Copy dest (s @ [NUL]) m = loop_ref dest [] s m" by (rule utf8_Copy_eq_loop_ref [OF assms])
  then show ?thesis
    by (auto simp: overreads_def s loop_ref_def length_fit_less c c' z Let_def simp del: set_concat not_less add.commute)
qed

text \<open>Texts of whole UTF-8 characters without NUL.\<close>

definition whole :: "string \<Rightarrow> bool" where
  "whole s \<longleftrightarrow> NUL \<notin> set s \<and> snd (utf8_split s) = []"

lemma whole_no_NUL: "whole s \<Longrightarrow> NUL \<notin> set s"
  by (simp add: whole_def)

lemma ascii_whole: "ascii s \<Longrightarrow> whole s"
  by (simp add: whole_def utf8_split_ascii ascii_no_NUL)

lemma ascii_not_overreads: "ascii s \<Longrightarrow> \<not> overreads s m"
  by (simp add: overreads_def utf8_split_ascii)

text \<open>
  C30. \<open>utf8_Append\<close> of a terminated source to a buffer of at least \<open>destSize\<close> bytes (a size that fits 64 bits) whose string is shorter than
  \<open>destSize\<close>: a source that ends inside a character for which there would be room is read past its end. On every other source
  the call returns, has written neither into the string that was in the buffer nor at or behind \<open>destSize\<close>, and leaves a terminator at the length it
  reports; the string is the old one and the whole characters of the source that fit, and the result is 0 exactly if that is all of
  the source. Only a byte that starts no character, when everything before it fits, appends nothing at all, and is a success.
\<close>

theorem utf8_Append_stays_in_buffer:
  assumes "NUL \<notin> set s" "strlen dest < n" "n \<le> length dest" "n < 2 ^ 64"
  shows "if overreads s (n - strlen dest) then utf8_Append dest (s @ [NUL]) n = Inl Out_of_bounds
    else \<exists>r d k. utf8_Append dest (s @ [NUL]) n = Inr (r, d, k) \<and>
      length d = length dest \<and> drop n d = drop n dest \<and> take (strlen dest) d = cstr dest \<and>
      strlen dest \<le> k \<and> k < n \<and> d ! k = NUL \<and> k = strlen d \<and>
      (let (cs, rest) = utf8_split s; out = fit (n - strlen dest) cs in
        if out = cs \<and> rest \<noteq> [] \<and> utf8_NumBytesInChar (hd rest) = 0 then r = 0 \<and> cstr d = cstr dest
        else r = (if out = cs \<and> rest = [] then 0 else - 1) \<and> cstr d = cstr dest @ concat out)"
proof -
  let ?k = "strlen dest"
  have "?k < length dest" using assms(2,3) by simp
  then have nul: "NUL \<in> set dest" by (metis cstr_id less_irrefl strlen_def)
  have sz: "size_sub n ?k = n - ?k" using assms(2,4) by (intro size_sub_eq) simp_all
  have app: "utf8_Append dest (s @ [NUL]) n = bindE (utf8_Copy (drop ?k dest) (s @ [NUL]) (n - ?k))
      (\<lambda>(r, d, m). Inr (r, take ?k dest @ d, m + ?k))"
    using assms(2) nul by (simp add: utf8_Append_def Let_def sz)
  have t: "take ?k dest = cstr dest"
    unfolding strlen_def cstr_def by (rule takeWhile_eq_take [symmetric])
  have c: "cstr (cstr dest @ xs) = cstr dest @ cstr xs" for xs by (rule cstr_append_no_NUL) simp
  note copy = utf8_Copy_overreads [of s "n - ?k" "drop ?k dest"]
  show ?thesis
  proof (cases "overreads s (n - ?k)")
    case True
    with copy assms app show ?thesis by simp
  next
    case False
    have m: "0 < n - ?k" "n - ?k \<le> length (drop ?k dest)" using assms(2,3) by simp_all
    obtain r d m where d: "utf8_Copy (drop ?k dest) (s @ [NUL]) (n - ?k) = Inr (r, d, m)"
      "let (cs, rest) = utf8_split s in
        if fit (n - ?k) cs = cs \<and> rest \<noteq> [] \<and> utf8_NumBytesInChar (hd rest) = 0 then r = 0 \<and> m = 0 \<and> cstr d = []
        else r = (if fit (n - ?k) cs = cs \<and> rest = [] then 0 else - 1) \<and> m = length (cstr d) \<and> cstr d = concat (fit (n - ?k) cs)"
      using copy [OF assms(1) m] False by (simp only: if_False) blast
    with app have a: "utf8_Append dest (s @ [NUL]) n = Inr (r, take ?k dest @ d, m + ?k)" by simp
    let ?d = "take ?k dest @ d"
    have ce: "cstr ?d = cstr dest @ cstr d" by (simp only: t c)
    then have sk: "strlen ?d = length (cstr d) + ?k" by (simp add: strlen_def)
    obtain cs rest where s: "utf8_split s = (cs, rest)" by fastforce
    have l: "m + ?k = strlen ?d \<and>
      (let (cs, rest) = utf8_split s; out = fit (n - ?k) cs in
        if out = cs \<and> rest \<noteq> [] \<and> utf8_NumBytesInChar (hd rest) = 0 then r = 0 \<and> cstr ?d = cstr dest
        else r = (if out = cs \<and> rest = [] then 0 else - 1) \<and> cstr ?d = cstr dest @ concat out)"
    proof (cases "fit (n - ?k) cs = cs \<and> rest \<noteq> [] \<and> utf8_NumBytesInChar (hd rest) = 0")
      case True
      with d(2) show ?thesis unfolding s ce sk Let_def prod.case by simp
    next
      case False
      with d(2) show ?thesis unfolding s ce sk Let_def prod.case if_not_P [OF False] by simp
    qed
    show ?thesis
      unfolding if_not_P [OF False] using a utf8_Append_frame [OF a assms(2,4)] l by blast
  qed
qed

theorem utf8_Append_stays_in_buffer_witness:
  "\<exists>d. utf8_Append (''hw'' @ replicate 8 NUL) (''_mode=ad'' @ [NUL]) 10 = Inr (- 1, d, 9) \<and> cstr d = ''hw_mode=a'' \<and>
     utf8_Append (''hw'' @ replicate 8 NUL) ([CHR ''a'', CHR 0xC3] @ [NUL]) 10 = Inl Out_of_bounds"
proof -
  have s: "utf8_split ''_mode=ad'' = (map (\<lambda>c. [c]) ''_mode=ad'', [])" "strlen (''hw'' @ replicate 8 NUL) = 2"
    "\<not> overreads ''_mode=ad'' 8" "overreads [CHR ''a'', CHR 0xC3] 8" "cstr (''hw'' @ replicate 8 NUL) = ''hw''"
    "concat (fit 8 (map (\<lambda>c. [c]) ''_mode=ad'')) = ''_mode=a''" "fit 8 (map (\<lambda>c. [c]) ''_mode=ad'') \<noteq> map (\<lambda>c. [c]) ''_mode=ad''"
    by code_simp+
  have n: "NUL \<notin> set ''_mode=ad''" "NUL \<notin> set [CHR ''a'', CHR 0xC3]" by simp_all
  have l: "10 \<le> length (''hw'' @ replicate 8 NUL)" by simp
  from utf8_Append_stays_in_buffer [OF n(1) _ l] s obtain d k where
    d: "utf8_Append (''hw'' @ replicate 8 NUL) (''_mode=ad'' @ [NUL]) 10 = Inr (- 1, d, k)" "k = strlen d" "cstr d = ''hw_mode=a''"
    by auto
  then have "k = 9" by (simp add: strlen_def)
  with d utf8_Append_stays_in_buffer [OF n(2) _ l] s show ?thesis by auto
qed

text \<open>
  C31. \<open>toCidr\<close> inverts the prefix masks: on the dotted form of the netmask with \<open>n\<close> leading ones it
  returns \<open>n\<close>, whatever the uninitialised array held.
\<close>

theorem toCidr_prefix_mask:
  assumes "n \<le> 32"
  shows "toCidr uninit (dotted (prefix_mask n)) = int n"
proof -
  have "list_all (\<lambda>n. cidr_loop (map int (octets (prefix_mask n))) 0 = int n) [0..<33]"
    by code_simp
  moreover from assms have "n \<in> set [0..<33]" by simp
  ultimately show ?thesis by (simp only: list_all_iff toCidr_dotted)
qed

theorem toCidr_prefix_mask_witness:
  "(24::nat) \<le> 32 \<and> toCidr (\<lambda>_. 7) (dotted (prefix_mask 24)) = 24"
  using toCidr_prefix_mask [of 24 "\<lambda>_. 7"] by simp

end
