(* ===== verification/Addresses.thy ===== *)
theory Addresses
  imports Utilities
begin

text \<open>
  IPv4 addresses as the binding reads them: \<open>inet_pton(AF_INET, ...)\<close> of the C library, which the
  start sequence uses to validate the four addresses before it compares them in host order, and how its
  verdict relates to \<open>toCidr\<close>, which scans the same netmask with \<open>sscanf\<close>.
\<close>

section \<open>The C library's reader of dotted addresses\<close>

text \<open>
  An octet is one or more decimal digits of value at most 255, without a leading zero; an address is four
  octets separated by dots and nothing else.
\<close>

definition inet_octet :: "string \<Rightarrow> (nat \<times> string) option" where
  "inet_octet s =
     (let ds = takeWhile is_digit s in
      if ds = [] \<or> (hd ds = CHR ''0'' \<and> tl ds \<noteq> []) \<or> 255 < digits_val 0 ds then None
      else Some (digits_val 0 ds, dropWhile is_digit s))"

fun inet_octets :: "nat \<Rightarrow> string \<Rightarrow> nat list option" where
  "inet_octets 0 s = (if s = [] then Some [] else None)"
| "inet_octets (Suc k) s =
     (case inet_octet s of
        None \<Rightarrow> None
      | Some (v, r) \<Rightarrow>
          if k = 0 then (if r = [] then Some [v] else None)
          else (case r of
                  [] \<Rightarrow> None
                | c # r' \<Rightarrow> if c = CHR ''.'' then map_option (Cons v) (inet_octets k r') else None))"

definition octets_word :: "nat list \<Rightarrow> 32 word" where
  "octets_word os = foldl (\<lambda>w b. push_bit 8 w OR of_nat b) 0 os"

text \<open>The address in host byte order, as \<open>ntohl\<close> gives it; \<open>None\<close> for a result that is not 1.\<close>

definition inet_pton :: "string \<Rightarrow> 32 word option" where
  "inet_pton s = map_option octets_word (inet_octets 4 (cstr s))"

section \<open>What is accepted\<close>

lemma inet_octetD:
  assumes "inet_octet s = Some (v, r)"
  shows "v \<le> 255 \<and> scan_d s = Some (int v, r)"
proof -
  let ?ds = "takeWhile is_digit s"
  from assms have ne: "?ds \<noteq> []" and v: "v = digits_val 0 ?ds" "v \<le> 255" and r: "r = dropWhile is_digit s"
    by (auto simp: inet_octet_def Let_def split: if_splits)
  then obtain c t where s: "s = c # t" and "is_digit c"
    by (cases s) (auto split: if_splits)
  then have c: "c \<noteq> CHR ''-''" "c \<noteq> CHR ''+''" "\<not> is_space c"
    using digit_not_sign by blast+
  have "signed_take_bit 31 (int v) = int v"
    using v(2) by (intro signed_take_bit_int_eq_self) simp_all
  with c v ne r show ?thesis
    unfolding scan_d_def Let_def s by simp
qed

lemma inet_octetsD:
  "inet_octets k s = Some os \<Longrightarrow>
     length os = k \<and> list_all (\<lambda>b. b \<le> 255) os \<and> scan_quad k s = map int os"
proof (induction k s arbitrary: os rule: inet_octets.induct)
  case (1 s)
  then show ?case by (simp split: if_splits)
next
  case (2 k s)
  from "2.prems" obtain v r where o: "inet_octet s = Some (v, r)"
    by (auto split: option.splits)
  note oD = inet_octetD [OF o]
  show ?case
  proof (cases "k = 0")
    case True
    with "2.prems" o oD show ?thesis by (auto split: if_splits)
  next
    case False
    with "2.prems" o obtain r' os' where r: "r = CHR ''.'' # r'"
      and os': "inet_octets k r' = Some os'" "os = v # os'"
      by (auto split: list.splits if_splits)
    have "length os' = k \<and> list_all (\<lambda>b. b \<le> 255) os' \<and> scan_quad k r' = map int os'"
      using "2.IH" [OF o refl False r refl os'(1)] .
    with oD r os'(2) show ?thesis by simp
  qed
qed

lemma toCidr_octets:
  assumes "inet_octets 4 (cstr s) = Some os"
  shows "toCidr uninit s = cidr_loop (map int os) 0"
proof -
  from inet_octetsD [OF assms] obtain a b c d where "os = [a, b, c, d]"
    and "scan_quad 4 (cstr s) = map int os"
    by (auto simp: numeral_eq_Suc length_Suc_conv)
  then show ?thesis by (simp add: toCidr_def Let_def upt_rec del: cidr_loop.simps)
qed

lemma octet_bits_range: "octet_bits b = Some k \<Longrightarrow> 1 \<le> k \<and> k \<le> 8"
  by (auto simp: octet_bits_def split: if_splits)

lemma cidr_loop_range: "acc \<le> cidr_loop bs acc \<and> cidr_loop bs acc \<le> acc + 8 * int (length bs)"
proof (induction bs arbitrary: acc)
  case Nil
  then show ?case by simp
next
  case (Cons b bs)
  show ?case
  proof (cases "octet_bits b")
    case None
    then show ?thesis by simp
  next
    case (Some k)
    with octet_bits_range [OF Some] Cons.IH [of "acc + k"] show ?thesis by simp
  qed
qed

section \<open>Printing and reading\<close>

lemma inet_octet_show:
  assumes "n \<le> 255" "rest = [] \<or> \<not> is_digit (hd rest)"
  shows "inet_octet (show_nat n @ rest) = Some (n, rest)"
proof -
  have "takeWhile is_digit rest = []" "dropWhile is_digit rest = rest"
    using assms(2) by (cases rest, simp_all)+
  then have tw: "takeWhile is_digit (show_nat n @ rest) = show_nat n"
    "dropWhile is_digit (show_nat n @ rest) = rest"
    by (simp_all only: takeWhile_all_append [OF show_nat_digits] append_Nil2)
  have lead: "hd (show_nat m) \<noteq> CHR ''0''" if "0 < m" for m
    using that
  proof (induction m rule: show_nat.induct)
    case (1 m)
    have d: "digit_char k \<noteq> CHR ''0''" if "0 < k" "k < 10" for k
    proof
      assume "digit_char k = CHR ''0''"
      then have "digit_val (digit_char k) = digit_val (CHR ''0'')" by simp
      with that show False by (simp add: digit_val_def digit_char_def)
    qed
    show ?case
    proof (cases "m < 10")
      case True
      with "1.prems" d show ?thesis by (subst show_nat.simps) simp
    next
      case False
      obtain c s where "show_nat (m div 10) = c # s" using show_nat_Cons by blast
      with "1.IH" False show ?thesis by (subst show_nat.simps) simp
    qed
  qed
  have "hd (show_nat n) = CHR ''0'' \<Longrightarrow> tl (show_nat n) = []"
    using lead [of n] by (cases "n = 0") (simp_all add: show_nat.simps [of 0])
  moreover have "show_nat n \<noteq> []" using show_nat_Cons [of n] by auto
  ultimately show ?thesis
    using assms(1) by (auto simp: inet_octet_def Let_def tw digits_val_show_nat)
qed

lemma octets_word_octets: "octets_word (octets a) = a"
proof -
  have m: "(0xFF :: 32 word) = mask 8" by (simp add: mask_eq_exp_minus_1)
  have "octets_word (octets a) =
      push_bit 8 (push_bit 8 (push_bit 8 (drop_bit 24 a AND 0xFF) OR (drop_bit 16 a AND 0xFF))
        OR (drop_bit 8 a AND 0xFF)) OR (a AND 0xFF)"
    by (simp add: octets_word_def octets_def)
  also have "\<dots> = a"
    unfolding m
  proof (rule bit_word_eqI)
    fix n assume n: "n < LENGTH(32)"
    consider "n < 8" | "8 \<le> n" "n < 16" | "16 \<le> n" "n < 24" | "24 \<le> n" by linarith
    then show "bit (push_bit 8 (push_bit 8 (push_bit 8 (drop_bit 24 a AND mask 8) OR
        (drop_bit 16 a AND mask 8)) OR (drop_bit 8 a AND mask 8)) OR (a AND mask 8)) n = bit a n"
      by cases (use n in \<open>simp_all add: less_diff_conv2 bit_or_iff bit_and_iff bit_push_bit_iff bit_drop_bit_eq bit_mask_iff
          del: mask_numeral push_bit_numeral\<close>)
  qed
  finally show ?thesis .
qed

lemma inet_pton_dotted: "inet_pton (dotted a) = Some a"
proof -
  have b: "unat (w AND 0xFF) \<le> 255" for w :: "32 word"
  proof -
    have "unat (w AND 0xFF) \<le> unat (0xFF :: 32 word)"
      by (rule word_and_le1 [THEN word_le_nat_alt [THEN iffD1]])
    then show ?thesis by simp
  qed
  have dot: "\<not> is_digit CHR ''.''" by (simp add: is_digit_def)
  obtain x y z w where o: "octets a = [x, y, z, w]" and r: "x \<le> 255" "y \<le> 255" "z \<le> 255" "w \<le> 255"
    using b by (simp add: octets_def)
  have d: "dotted a = show_nat x @ ''.'' @ show_nat y @ ''.'' @ show_nat z @ ''.'' @ show_nat w @ []"
    by (simp add: dotted_def o)
  have four: "(4::nat) = Suc (Suc (Suc (Suc 0)))" by simp
  have "inet_octets 4 (dotted a) = Some (octets a)"
    unfolding four d o by (simp add: inet_octet_show r dot del: append_Nil2)
  then show ?thesis by (simp add: inet_pton_def octets_word_octets)
qed

section \<open>Property\<close>

text \<open>
  On every netmask that \<open>inet_pton\<close> accepts, \<open>toCidr\<close> never reads its uninitialised array
  and returns a prefix length between 0 and 32.
\<close>

lemma toCidr_defined_on_addresses:
  assumes "inet_pton s = Some a"
  shows "toCidr uninit s = toCidr uninit' s \<and> 0 \<le> toCidr uninit s \<and> toCidr uninit s \<le> 32"
proof -
  from assms obtain os where os: "inet_octets 4 (cstr s) = Some os"
    by (auto simp: inet_pton_def)
  have "length os = 4" using inet_octetsD [OF os] by simp
  then show ?thesis
    using toCidr_octets [OF os] cidr_loop_range [of 0 "map int os"] by simp
qed

lemma toCidr_defined_on_addresses_example:
  "inet_pton ''255.255.255.0'' = Some 0xFFFFFF00 \<and>
   toCidr (\<lambda>_. 0) ''255.255.255.0'' = toCidr (\<lambda>_. 255) ''255.255.255.0''"
proof -
  have i: "inet_pton ''255.255.255.0'' = Some 0xFFFFFF00" by code_simp
  with toCidr_defined_on_addresses [OF i] show ?thesis by blast
qed

end
