(* ===== verification/Store.thy ===== *)
theory Store
  imports World
begin

text \<open>
  The heap strings of the program: what \<open>strdup\<close> allocates and \<open>free\<close> releases. Addresses are
  never reused, so a pointer kept after its block was released is seen as such. The laws clients need are
  the locale \<open>allocator\<close>, interpreted on this heap.
\<close>

section \<open>Allocation and release\<close>

record strings = world +
  blocks :: "nat \<rightharpoonup> string"
  brk :: nat

definition strdup :: "env \<Rightarrow> string \<Rightarrow> 'a strings_scheme \<Rightarrow> nat option \<times> 'a strings_scheme" where
  "strdup E str s =
     (let (r, s1) = ask E (Strdup str) s
      in if r = 0
         then (Some (brk s1), s1\<lparr>blocks := (blocks s1)(brk s1 \<mapsto> cstr str), brk := Suc (brk s1)\<rparr>)
         else (None, s1))"

definition free_block :: "nat option \<Rightarrow> 'a strings_scheme \<Rightarrow> fault + 'a strings_scheme" where
  "free_block p s =
     (case p of
        None \<Rightarrow> Inr s
      | Some a \<Rightarrow> if a \<in> dom (blocks s) then Inr (s\<lparr>blocks := (blocks s)(a := None)\<rparr>)
                   else Inl Use_after_free)"

definition deref :: "nat option \<Rightarrow> 'a strings_scheme \<Rightarrow> fault + string" where
  "deref p s =
     (case p of
        None \<Rightarrow> Inl Null_deref
      | Some a \<Rightarrow> (case blocks s a of None \<Rightarrow> Inl Use_after_free | Some str \<Rightarrow> Inr str))"

text \<open>Every live block is below the next address.\<close>

definition heap_ok :: "'a strings_scheme \<Rightarrow> bool" where
  "heap_ok s \<longleftrightarrow> (\<forall>a v. blocks s a = Some v \<longrightarrow> a < brk s)"

section \<open>The interface of an allocator\<close>

locale allocator =
  fixes alloc :: "'s \<Rightarrow> 'v \<Rightarrow> 'p option \<times> 's"
    and release :: "'p option \<Rightarrow> 's \<Rightarrow> fault + 's"
    and contents :: "'s \<Rightarrow> 'p \<Rightarrow> 'v option"
    and stored :: "'v \<Rightarrow> 'v"
    and good :: "'s \<Rightarrow> bool"
  assumes alloc_some: "good s \<Longrightarrow> alloc s v = (Some p, s') \<Longrightarrow>
        contents s p = None \<and> contents s' = (contents s)(p \<mapsto> stored v) \<and> good s'"
    and alloc_none: "good s \<Longrightarrow> alloc s v = (None, s') \<Longrightarrow> contents s' = contents s \<and> good s'"
    and release_some: "good s \<Longrightarrow> contents s p \<noteq> None \<Longrightarrow>
        \<exists>s'. release (Some p) s = Inr s' \<and> contents s' = (contents s)(p := None) \<and> good s'"
    and release_dead: "contents s p = None \<Longrightarrow> release (Some p) s = Inl Use_after_free"
    and release_none: "release None s = Inr s"
begin

text \<open>Replacing an owned block by a fresh copy: allocate first, release the old one afterwards.\<close>

lemma replace:
  assumes "good s" "alloc s v = (Some p, s1)" "old = None \<or> contents s (the old) \<noteq> None"
  obtains s2 where "release old s1 = Inr s2" "good s2" "contents s p = None"
    "contents s2 = (case old of None \<Rightarrow> contents s | Some q \<Rightarrow> (contents s)(q := None))(p \<mapsto> stored v)"
proof -
  note a = alloc_some [OF assms(1,2)]
  show thesis
  proof (cases old)
    case None
    with a that [of s1] show thesis by (simp add: release_none)
  next
    case (Some q)
    with assms(3) a have "q \<noteq> p" and "contents s1 q \<noteq> None" by auto
    then obtain s2 where "release (Some q) s1 = Inr s2" "contents s2 = (contents s1)(q := None)" "good s2"
      using release_some [of s1 q] a by blast
    with that [of s2] Some a \<open>q \<noteq> p\<close> show thesis by (simp add: fun_upd_twist)
  qed
qed

lemma release_twice:
  "good s \<Longrightarrow> contents s p \<noteq> None \<Longrightarrow> release (Some p) s = Inr s' \<Longrightarrow>
     release (Some p) s' = Inl Use_after_free"
  using release_some [of s p] release_dead [of s' p] by auto

end

interpretation heap: allocator "\<lambda>s v. strdup E v s" free_block blocks cstr heap_ok for E
proof unfold_locales
  fix s :: "'a strings_scheme" and v p s'
  assume "heap_ok s" "strdup E v s = (Some p, s')"
  then show "blocks s p = None \<and> blocks s' = (blocks s)(p \<mapsto> cstr v) \<and> heap_ok s'"
    by (fastforce simp: strdup_def ask_def heap_ok_def split: if_splits)
qed (auto simp: strdup_def free_block_def ask_def heap_ok_def split: if_splits)

section \<open>Frame\<close>

lemma strdup_more [frame_simps]:
  "strings.more (snd (strdup E str s)) = strings.more s" "files (snd (strdup E str s)) = files s"
  by (simp_all add: strdup_def ask_def)

lemma free_block_more [frame_simps]:
  "free_block p s = Inr s' \<Longrightarrow> strings.more s' = strings.more s \<and> files s' = files s \<and> calls s' = calls s"
  by (auto simp: free_block_def split: option.splits if_splits)

end
