(* ===== verification/ApData.thy ===== *)
theory ApData
  imports Utilities Store
begin

text \<open>
  \<open>src/lib/wifi-ap-data.h\<close> and \<open>src/lib/wifi-ap-data.c\<close>: the parameters of the access point
  and the setters that validate them. Character buffers keep their declared size and are written byte by
  byte; the three names are pointers to heap strings that the structure owns.
\<close>

section \<open>The structure\<close>

datatype wifiAp_SecurityProtocol_t = WIFI_AP_SECURITY_NONE | WIFI_AP_SECURITY_WPA2

text \<open>
  \<open>status\<close> always points to one of the four constant strings of \<open>wifiAp.c\<close>, and is compared
  with them by address.
\<close>

datatype ap_status = Status_init | Status_started | Status_stopped | Status_fail

record wifiApT =
  interfaceName :: "nat option"
  domainName :: "nat option"
  hostName :: "nat option"
  status :: ap_status
  MIN_CHANNEL_VALUE :: "16 word"
  MAX_CHANNEL_VALUE :: "16 word"
  ssid :: "char list"
  ip_ap :: "char list"
  ip_start :: "char list"
  ip_stop :: "char list"
  ip_netmask :: "char list"
  passphrase :: "char list"
  presharedKey :: "char list"
  countryCode :: "char list"
  discoverable :: bool
  IeeeStdMask :: "32 word"
  channelNumber :: "16 word"
  maxNumberClient :: "32 word"
  securityProtocol :: wifiAp_SecurityProtocol_t

text \<open>The state of the program as far as the setters reach: the heap and the structure.\<close>

record ap = strings +
  wifi :: wifiApT

abbreviation WIFIAP_NO_ERROR :: int where "WIFIAP_NO_ERROR \<equiv> 0"
abbreviation WIFIAP_ERROR_INVALID :: int where "WIFIAP_ERROR_INVALID \<equiv> - 1"
abbreviation WIFIAP_ERROR_OOM :: int where "WIFIAP_ERROR_OOM \<equiv> - 2"
abbreviation WIFIAP_ERROR_TOO_SMALL :: int where "WIFIAP_ERROR_TOO_SMALL \<equiv> - 3"
abbreviation WIFIAP_ERROR_TOO_LARGE :: int where "WIFIAP_ERROR_TOO_LARGE \<equiv> - 4"
abbreviation WIFIAP_ERROR_NO_HARD :: int where "WIFIAP_ERROR_NO_HARD \<equiv> - 5"
abbreviation WIFIAP_ERROR_MANY_HARD :: int where "WIFIAP_ERROR_MANY_HARD \<equiv> - 6"
abbreviation WIFIAP_ERROR_STD_AC :: int where "WIFIAP_ERROR_STD_AC \<equiv> - 7"
abbreviation WIFIAP_ERROR_STD_H :: int where "WIFIAP_ERROR_STD_H \<equiv> - 8"

text \<open>The limits and bit masks of the header.\<close>

abbreviation (input) MAX_SSID_LENGTH :: nat where "MAX_SSID_LENGTH \<equiv> 32"
abbreviation (input) MIN_SSID_LENGTH :: nat where "MIN_SSID_LENGTH \<equiv> 1"
abbreviation (input) MIN_CHANNEL_VALUE_DEF :: "16 word" where "MIN_CHANNEL_VALUE_DEF \<equiv> 1"
abbreviation (input) MAX_CHANNEL_VALUE_DEF :: "16 word" where "MAX_CHANNEL_VALUE_DEF \<equiv> 14"
abbreviation (input) MIN_CHANNEL_STD_A :: "16 word" where "MIN_CHANNEL_STD_A \<equiv> 7"
abbreviation (input) MAX_CHANNEL_STD_A :: "16 word" where "MAX_CHANNEL_STD_A \<equiv> 196"
abbreviation (input) MIN_CHANNEL_STD_AD :: "16 word" where "MIN_CHANNEL_STD_AD \<equiv> 1"
abbreviation (input) MAX_CHANNEL_STD_AD :: "16 word" where "MAX_CHANNEL_STD_AD \<equiv> 6"
abbreviation (input) WIFI_AP_BITMASK_IEEE_STD_A :: "32 word" where "WIFI_AP_BITMASK_IEEE_STD_A \<equiv> 0x1"
abbreviation (input) WIFI_AP_BITMASK_IEEE_STD_B :: "32 word" where "WIFI_AP_BITMASK_IEEE_STD_B \<equiv> 0x2"
abbreviation (input) WIFI_AP_BITMASK_IEEE_STD_G :: "32 word" where "WIFI_AP_BITMASK_IEEE_STD_G \<equiv> 0x4"
abbreviation (input) WIFI_AP_BITMASK_IEEE_STD_AD :: "32 word" where "WIFI_AP_BITMASK_IEEE_STD_AD \<equiv> 0x8"
abbreviation (input) WIFI_AP_BITMASK_IEEE_STD_D :: "32 word" where "WIFI_AP_BITMASK_IEEE_STD_D \<equiv> 0x10"
abbreviation (input) WIFI_AP_BITMASK_IEEE_STD_H :: "32 word" where "WIFI_AP_BITMASK_IEEE_STD_H \<equiv> 0x20"
abbreviation (input) WIFI_AP_BITMASK_IEEE_STD_N :: "32 word" where "WIFI_AP_BITMASK_IEEE_STD_N \<equiv> 0x40"
abbreviation (input) WIFI_AP_BITMASK_IEEE_STD_AC :: "32 word" where "WIFI_AP_BITMASK_IEEE_STD_AC \<equiv> 0x80"
abbreviation (input) WIFI_AP_BITMASK_IEEE_STD_AX :: "32 word" where "WIFI_AP_BITMASK_IEEE_STD_AX \<equiv> 0x100"
abbreviation (input) WIFI_AP_BITMASK_IEEE_STD_W :: "32 word" where "WIFI_AP_BITMASK_IEEE_STD_W \<equiv> 0x200"
abbreviation (input) MIN_PASSPHRASE_LENGTH :: nat where "MIN_PASSPHRASE_LENGTH \<equiv> 8"
abbreviation (input) MAX_PASSPHRASE_LENGTH :: nat where "MAX_PASSPHRASE_LENGTH \<equiv> 63"
abbreviation (input) MAX_PSK_LENGTH :: nat where "MAX_PSK_LENGTH \<equiv> 64"
abbreviation (input) ISO_COUNTRYCODE_LENGTH :: nat where "ISO_COUNTRYCODE_LENGTH \<equiv> 2"
abbreviation (input) WIFI_AP_MAX_USERS :: "32 word" where "WIFI_AP_MAX_USERS \<equiv> 1000"
abbreviation (input) HARDWARE_MODE_MASK :: "32 word" where "HARDWARE_MODE_MASK \<equiv> 0x000F"
abbreviation (input) MIN_IP_ADDRESS_LENGTH :: nat where "MIN_IP_ADDRESS_LENGTH \<equiv> 1"
abbreviation (input) MAX_IP_ADDRESS_LENGTH :: nat where "MAX_IP_ADDRESS_LENGTH \<equiv> 15"

text \<open>\<open>calloc\<close> gives a structure of zero bytes, with the status then set by its creator.\<close>

definition zero_wifi :: wifiApT where
  "zero_wifi = \<lparr>
     interfaceName = None, domainName = None, hostName = None, status = Status_init,
     MIN_CHANNEL_VALUE = 0, MAX_CHANNEL_VALUE = 0,
     ssid = replicate 33 NUL, ip_ap = replicate 16 NUL, ip_start = replicate 16 NUL,
     ip_stop = replicate 16 NUL, ip_netmask = replicate 16 NUL, passphrase = replicate 64 NUL,
     presharedKey = replicate 65 NUL, countryCode = replicate 3 NUL,
     discoverable = False, IeeeStdMask = 0, channelNumber = 0, maxNumberClient = 0,
     securityProtocol = WIFI_AP_SECURITY_NONE\<rparr>"

section \<open>Copying into the structure\<close>

definition set_string_copy ::
    "env \<Rightarrow> nat option \<Rightarrow> string option \<Rightarrow> 'a strings_scheme \<Rightarrow>
       fault + (int \<times> nat option \<times> 'a strings_scheme)" where
  "set_string_copy E dest src s =
     (case src of
        None \<Rightarrow> Inr (WIFIAP_ERROR_INVALID, dest, s)
      | Some str \<Rightarrow>
          if cstr str = [] then Inr (WIFIAP_ERROR_TOO_SMALL, dest, s)
          else
            let (new, s1) = strdup E str s in
            (case new of
               None \<Rightarrow> Inr (WIFIAP_ERROR_OOM, dest, s1)
             | Some p \<Rightarrow> bindE (free_block dest s1) (\<lambda>s2. Inr (WIFIAP_NO_ERROR, Some p, s2))))"

definition set_buffer :: "char list \<Rightarrow> string option \<Rightarrow> nat \<Rightarrow> nat \<Rightarrow> fault + (int \<times> char list)" where
  "set_buffer dest src minlen maxlen =
     (case src of
        None \<Rightarrow> Inr (WIFIAP_ERROR_INVALID, dest)
      | Some str \<Rightarrow>
          let len = strlen str in
          if len < minlen then Inr (WIFIAP_ERROR_TOO_SMALL, dest)
          else if len > maxlen then Inr (WIFIAP_ERROR_TOO_LARGE, dest)
          else if len + 1 \<le> length dest
          then Inr (WIFIAP_NO_ERROR, cstr str @ NUL # drop (len + 1) dest)
          else Inl Out_of_bounds)"

section \<open>The setters\<close>

definition setHostNameParameter ::
    "env \<Rightarrow> string option \<Rightarrow> 'a ap_scheme \<Rightarrow> fault + (int \<times> 'a ap_scheme)" where
  "setHostNameParameter E src s =
     bindE (set_string_copy E (hostName (wifi s)) src s)
       (\<lambda>(r, p, s1). Inr (r, s1\<lparr>wifi := (wifi s1)\<lparr>hostName := p\<rparr>\<rparr>))"

definition setDomainNameParameter ::
    "env \<Rightarrow> string option \<Rightarrow> 'a ap_scheme \<Rightarrow> fault + (int \<times> 'a ap_scheme)" where
  "setDomainNameParameter E src s =
     bindE (set_string_copy E (domainName (wifi s)) src s)
       (\<lambda>(r, p, s1). Inr (r, s1\<lparr>wifi := (wifi s1)\<lparr>domainName := p\<rparr>\<rparr>))"

definition setInterfaceNameParameter ::
    "env \<Rightarrow> string option \<Rightarrow> 'a ap_scheme \<Rightarrow> fault + (int \<times> 'a ap_scheme)" where
  "setInterfaceNameParameter E src s =
     bindE (set_string_copy E (interfaceName (wifi s)) src s)
       (\<lambda>(r, p, s1). Inr (r, s1\<lparr>wifi := (wifi s1)\<lparr>interfaceName := p\<rparr>\<rparr>))"

definition setSsidParameter :: "wifiApT \<Rightarrow> string option \<Rightarrow> fault + (int \<times> wifiApT)" where
  "setSsidParameter w src =
     bindE (set_buffer (ssid w) src MIN_SSID_LENGTH MAX_SSID_LENGTH) (\<lambda>(r, b). Inr (r, w\<lparr>ssid := b\<rparr>))"

text \<open>
  The comparison of \<open>uint32_t\<close> with \<open>(int)\<close> of a \<open>uint16_t\<close> is unsigned at 32 bits.
  An unknown hardware mode keeps the channel bounds of the last known one.
\<close>

definition setChannelParameter :: "wifiApT \<Rightarrow> 32 word \<Rightarrow> fault + (int \<times> wifiApT)" where
  "setChannelParameter w channel =
     (let hwMode = ucast (IeeeStdMask w AND HARDWARE_MODE_MASK) :: 8 word;
          w1 = (if hwMode = ucast WIFI_AP_BITMASK_IEEE_STD_A
                then w\<lparr>MIN_CHANNEL_VALUE := MIN_CHANNEL_STD_A, MAX_CHANNEL_VALUE := MAX_CHANNEL_STD_A\<rparr>
                else if hwMode = ucast WIFI_AP_BITMASK_IEEE_STD_B \<or> hwMode = ucast WIFI_AP_BITMASK_IEEE_STD_G
                then w\<lparr>MIN_CHANNEL_VALUE := MIN_CHANNEL_VALUE_DEF, MAX_CHANNEL_VALUE := MAX_CHANNEL_VALUE_DEF\<rparr>
                else if hwMode = ucast WIFI_AP_BITMASK_IEEE_STD_AD
                then w\<lparr>MIN_CHANNEL_VALUE := MIN_CHANNEL_STD_AD, MAX_CHANNEL_VALUE := MAX_CHANNEL_STD_AD\<rparr>
                else w)
      in if channel < ucast (MIN_CHANNEL_VALUE w1) then Inr (WIFIAP_ERROR_TOO_SMALL, w1)
         else if channel > ucast (MAX_CHANNEL_VALUE w1) then Inr (WIFIAP_ERROR_TOO_LARGE, w1)
         else Inr (WIFIAP_NO_ERROR, w1\<lparr>channelNumber := ucast channel\<rparr>))"

definition setIeeeStandardParameter :: "wifiApT \<Rightarrow> 32 word \<Rightarrow> fault + (int \<times> wifiApT)" where
  "setIeeeStandardParameter w stdMask =
     (let check = stdMask AND (WIFI_AP_BITMASK_IEEE_STD_A OR WIFI_AP_BITMASK_IEEE_STD_B OR
            WIFI_AP_BITMASK_IEEE_STD_G OR WIFI_AP_BITMASK_IEEE_STD_AD) in
      if check = 0 then Inr (WIFIAP_ERROR_NO_HARD, w)
      else if check AND (check - 1) \<noteq> 0 then Inr (WIFIAP_ERROR_MANY_HARD, w)
      else if stdMask AND WIFI_AP_BITMASK_IEEE_STD_AC \<noteq> 0 \<and> stdMask AND WIFI_AP_BITMASK_IEEE_STD_A = 0
      then Inr (WIFIAP_ERROR_STD_AC, w)
      else if stdMask AND WIFI_AP_BITMASK_IEEE_STD_H \<noteq> 0 \<and> stdMask AND WIFI_AP_BITMASK_IEEE_STD_D = 0
      then Inr (WIFIAP_ERROR_STD_H, w)
      else Inr (WIFIAP_NO_ERROR, w\<lparr>IeeeStdMask := stdMask\<rparr>))"

definition setPassPhraseParameter :: "wifiApT \<Rightarrow> string option \<Rightarrow> fault + (int \<times> wifiApT)" where
  "setPassPhraseParameter w src =
     bindE (set_buffer (passphrase w) src MIN_PASSPHRASE_LENGTH MAX_PASSPHRASE_LENGTH) (\<lambda>(r, b). Inr (r, w\<lparr>passphrase := b\<rparr>))"

text \<open>There is no test for NULL before \<open>strlen\<close> here.\<close>

definition setPreSharedKeyParameter :: "wifiApT \<Rightarrow> string option \<Rightarrow> fault + (int \<times> wifiApT)" where
  "setPreSharedKeyParameter w preSharedKey =
     (case preSharedKey of
        None \<Rightarrow> Inl Null_deref
      | Some str \<Rightarrow>
          if strlen str > MAX_PSK_LENGTH then Inr (WIFIAP_ERROR_TOO_LARGE, w)
          else bindE (utf8_Copy (presharedKey w) (cstr str @ [NUL]) 65)
                 (\<lambda>(_, b, _). Inr (WIFIAP_NO_ERROR, w\<lparr>presharedKey := b\<rparr>)))"

definition to_lower :: "char \<Rightarrow> char" where
  "to_lower c = (let n = of_char c :: nat in if 65 \<le> n \<and> n \<le> 90 then char_of (n + 32) else c)"

definition strcasecmp_eq :: "string \<Rightarrow> string \<Rightarrow> bool" where
  "strcasecmp_eq a b \<longleftrightarrow> map to_lower (cstr a) = map to_lower (cstr b)"

definition setSecurityProtocolParameter :: "wifiApT \<Rightarrow> string option \<Rightarrow> fault + (int \<times> wifiApT)" where
  "setSecurityProtocolParameter w protocol =
     (case protocol of
        None \<Rightarrow> Inr (WIFIAP_ERROR_INVALID, w)
      | Some str \<Rightarrow>
          if strcasecmp_eq str ''none''
          then Inr (WIFIAP_NO_ERROR, w\<lparr>securityProtocol := WIFI_AP_SECURITY_NONE\<rparr>)
          else if strcasecmp_eq str ''WPA2''
          then Inr (WIFIAP_NO_ERROR, w\<lparr>securityProtocol := WIFI_AP_SECURITY_WPA2\<rparr>)
          else Inr (WIFIAP_ERROR_INVALID, w))"

definition setCountryCodeParameter :: "wifiApT \<Rightarrow> string option \<Rightarrow> fault + (int \<times> wifiApT)" where
  "setCountryCodeParameter w src =
     bindE (set_buffer (countryCode w) src ISO_COUNTRYCODE_LENGTH ISO_COUNTRYCODE_LENGTH) (\<lambda>(r, b). Inr (r, w\<lparr>countryCode := b\<rparr>))"

definition setMaxNumberClients :: "wifiApT \<Rightarrow> 32 word \<Rightarrow> fault + (int \<times> wifiApT)" where
  "setMaxNumberClients w n =
     (if n < 1 then Inr (WIFIAP_ERROR_TOO_SMALL, w)
      else if n > WIFI_AP_MAX_USERS then Inr (WIFIAP_ERROR_TOO_LARGE, w)
      else Inr (WIFIAP_NO_ERROR, w\<lparr>maxNumberClient := n\<rparr>))"

definition setDiscoverableParameter :: "wifiApT \<Rightarrow> bool \<Rightarrow> fault + (int \<times> wifiApT)" where
  "setDiscoverableParameter w d = Inr (WIFIAP_NO_ERROR, w\<lparr>discoverable := d\<rparr>)"

text \<open>
  \<open>setIpRangeParameters\<close>: the four \<open>strlen\<close> come first, then the two range tests, then four
  copies whose results are ignored.
\<close>

definition copy_ip :: "char list \<Rightarrow> string \<Rightarrow> fault + char list" where
  "copy_ip dest str = bindE (utf8_Copy dest (cstr str @ [NUL]) 16) (\<lambda>(_, b, _). Inr b)"

definition setIpRangeParameters ::
    "wifiApT \<Rightarrow> string \<Rightarrow> string \<Rightarrow> string \<Rightarrow> string \<Rightarrow> fault + (int \<times> wifiApT)" where
  "setIpRangeParameters w ap start stop netmask =
     (let aplen = strlen ap; startlen = strlen start; stoplen = strlen stop; netmasklen = strlen netmask in
      if aplen < MIN_IP_ADDRESS_LENGTH \<or> startlen < MIN_IP_ADDRESS_LENGTH \<or>
         stoplen < MIN_IP_ADDRESS_LENGTH \<or> netmasklen < MIN_IP_ADDRESS_LENGTH then Inr (WIFIAP_ERROR_TOO_SMALL, w)
      else if aplen > MAX_IP_ADDRESS_LENGTH \<or> startlen > MAX_IP_ADDRESS_LENGTH \<or>
              stoplen > MAX_IP_ADDRESS_LENGTH \<or> netmasklen > MAX_IP_ADDRESS_LENGTH
      then Inr (WIFIAP_ERROR_TOO_LARGE, w)
      else
        bindE (copy_ip (ip_ap w) ap) (\<lambda>b1.
        bindE (copy_ip (ip_start w) start) (\<lambda>b2.
        bindE (copy_ip (ip_stop w) stop) (\<lambda>b3.
        bindE (copy_ip (ip_netmask w) netmask) (\<lambda>b4.
          Inr (WIFIAP_NO_ERROR,
               w\<lparr>ip_ap := b1, ip_start := b2, ip_stop := b3, ip_netmask := b4\<rparr>))))))"

definition setIpApParameter :: "wifiApT \<Rightarrow> string option \<Rightarrow> fault + (int \<times> wifiApT)" where
  "setIpApParameter w src = bindE (set_buffer (ip_ap w) src MIN_IP_ADDRESS_LENGTH MAX_IP_ADDRESS_LENGTH) (\<lambda>(r, b). Inr (r, w\<lparr>ip_ap := b\<rparr>))"

definition setIpStartParameter :: "wifiApT \<Rightarrow> string option \<Rightarrow> fault + (int \<times> wifiApT)" where
  "setIpStartParameter w src =
     bindE (set_buffer (ip_start w) src MIN_IP_ADDRESS_LENGTH MAX_IP_ADDRESS_LENGTH) (\<lambda>(r, b). Inr (r, w\<lparr>ip_start := b\<rparr>))"

definition setIpStopParameter :: "wifiApT \<Rightarrow> string option \<Rightarrow> fault + (int \<times> wifiApT)" where
  "setIpStopParameter w src =
     bindE (set_buffer (ip_stop w) src MIN_IP_ADDRESS_LENGTH MAX_IP_ADDRESS_LENGTH) (\<lambda>(r, b). Inr (r, w\<lparr>ip_stop := b\<rparr>))"

definition setIpNetMaskParameter :: "wifiApT \<Rightarrow> string option \<Rightarrow> fault + (int \<times> wifiApT)" where
  "setIpNetMaskParameter w src =
     bindE (set_buffer (ip_netmask w) src MIN_IP_ADDRESS_LENGTH MAX_IP_ADDRESS_LENGTH) (\<lambda>(r, b). Inr (r, w\<lparr>ip_netmask := b\<rparr>))"

section \<open>Buffers stay well-formed\<close>

definition buffers_ok :: "wifiApT \<Rightarrow> bool" where
  "buffers_ok w \<longleftrightarrow>
     buffer_ok 33 (ssid w) \<and> buffer_ok 16 (ip_ap w) \<and> buffer_ok 16 (ip_start w) \<and>
     buffer_ok 16 (ip_stop w) \<and> buffer_ok 16 (ip_netmask w) \<and> buffer_ok 64 (passphrase w) \<and>
     buffer_ok 65 (presharedKey w) \<and> buffer_ok 3 (countryCode w)"

lemma buffers_ok_zero [inv_intros]: "buffers_ok zero_wifi"
  by (simp add: buffers_ok_def zero_wifi_def buffer_ok_def)

definition length_check :: "nat \<Rightarrow> nat \<Rightarrow> string option \<Rightarrow> int" where
  "length_check lo hi src =
     (case src of
        None \<Rightarrow> WIFIAP_ERROR_INVALID
      | Some str \<Rightarrow> if strlen str < lo then WIFIAP_ERROR_TOO_SMALL
                     else if strlen str > hi then WIFIAP_ERROR_TOO_LARGE else WIFIAP_NO_ERROR)"

lemma length_check_0: "length_check lo hi src = 0 \<longleftrightarrow> (\<exists>str. src = Some str \<and> lo \<le> strlen str \<and> strlen str \<le> hi)"
  by (auto simp: length_check_def split: option.splits)

lemma set_buffer_accept:
  assumes "length_check lo hi src = 0" "buffer_ok (Suc hi) b"
  shows "\<exists>b'. set_buffer b src lo hi = Inr (0, b') \<and> cstr b' = cstr (the src) \<and> buffer_ok (Suc hi) b'"
  using assms by (auto simp: length_check_0 set_buffer_def Let_def buffer_ok_def strlen_def)

lemma set_buffer_reject:
  "length_check lo hi src \<noteq> 0 \<Longrightarrow> set_buffer b src lo hi = Inr (length_check lo hi src, b)"
  by (auto simp: length_check_def set_buffer_def Let_def split: option.splits if_splits)

section \<open>The contract of a checked setter\<close>

text \<open>Calling a setter once for each value of a list, ignoring the codes it returns.\<close>

fun run_set :: "('w \<Rightarrow> 'v \<Rightarrow> fault + (int \<times> 'w)) \<Rightarrow> 'w \<Rightarrow> 'v list \<Rightarrow> fault + 'w" where
  "run_set f w [] = Inr w"
| "run_set f w (v # vs) = bindE (f w v) (\<lambda>(_, w'). run_set f w' vs)"

locale checked_setter =
  fixes set_it :: "'w \<Rightarrow> 'v \<Rightarrow> fault + (int \<times> 'w)"
    and field :: "'w \<Rightarrow> 'f"
    and image :: "'v \<Rightarrow> 'f"
    and check :: "'v \<Rightarrow> int"
    and ok :: "'w \<Rightarrow> bool"
  assumes accepts: "ok w \<Longrightarrow> check v = 0 \<Longrightarrow> \<exists>w'. set_it w v = Inr (0, w') \<and> field w' = image v \<and> ok w'"
    and rejects: "ok w \<Longrightarrow> check v \<noteq> 0 \<Longrightarrow> set_it w v = Inr (check v, w)"
begin

lemma result: "ok w \<Longrightarrow> \<exists>w'. set_it w v = Inr (check v, w') \<and> ok w' \<and>
    field w' = (if check v = 0 then image v else field w)"
  using accepts [of w v] rejects [of w v] by (cases "check v = 0") auto

text \<open>A history of calls leaves the last accepted value in the field.\<close>

lemma history:
  "ok w \<Longrightarrow> \<exists>w'. run_set set_it w vs = Inr w' \<and> ok w' \<and>
     field w' = (case filter (\<lambda>v. check v = 0) vs of [] \<Rightarrow> field w | acc \<Rightarrow> image (last acc))"
proof (induction vs arbitrary: w)
  case Nil
  then show ?case by simp
next
  case (Cons v vs)
  from result [OF Cons.prems, of v] obtain w1 where
    w1: "set_it w v = Inr (check v, w1)" "ok w1" "field w1 = (if check v = 0 then image v else field w)"
    by blast
  from Cons.IH [OF w1(2)] obtain w' where "run_set set_it w1 vs = Inr w'" "ok w'"
    "field w' = (case filter (\<lambda>v. check v = 0) vs of [] \<Rightarrow> field w1 | acc \<Rightarrow> image (last acc))"
    by blast
  with w1 show ?case by (auto split: list.splits)
qed

end

lemmas buffer_setter_defs =
  setSsidParameter_def setPassPhraseParameter_def setCountryCodeParameter_def setIpApParameter_def
  setIpStartParameter_def setIpStopParameter_def setIpNetMaskParameter_def

lemma checked_setterI:
  assumes "\<And>w v. buffers_ok w \<Longrightarrow> buffer_ok (Suc hi) (buf w)"
    and "\<And>w v. set_it w v = bindE (set_buffer (buf w) v lo hi) (\<lambda>(r, b). Inr (r, upd b w))"
    and "\<And>w. upd (buf w) w = w" "\<And>b w. buf (upd b w) = b"
    and "\<And>b w. buffers_ok w \<Longrightarrow> buffer_ok (Suc hi) b \<Longrightarrow> buffers_ok (upd b w)"
  shows "checked_setter set_it (\<lambda>w. cstr (buf w)) (\<lambda>v. cstr (the v)) (length_check lo hi) buffers_ok"
proof
  fix w v
  assume "buffers_ok w" "length_check lo hi v = 0"
  then obtain b' where "set_buffer (buf w) v lo hi = Inr (0, b')" "cstr b' = cstr (the v)" "buffer_ok (Suc hi) b'"
    using set_buffer_accept assms(1) by blast
  then show "\<exists>w'. set_it w v = Inr (0, w') \<and> cstr (buf w') = cstr (the v) \<and> buffers_ok w'"
    using assms(2,4,5) \<open>buffers_ok w\<close> by simp
next
  fix w v
  assume "length_check lo hi v \<noteq> 0"
  then show "set_it w v = Inr (length_check lo hi v, w)"
    by (simp add: assms(2,3) set_buffer_reject)
qed

interpretation ssid: checked_setter setSsidParameter "\<lambda>w. cstr (ssid w)" "\<lambda>v. cstr (the v)"
  "length_check 1 32" buffers_ok
  by (rule checked_setterI [where upd = "\<lambda>b w. w\<lparr>ssid := b\<rparr>"])
    (simp_all add: setSsidParameter_def buffers_ok_def)

interpretation pass: checked_setter setPassPhraseParameter "\<lambda>w. cstr (passphrase w)" "\<lambda>v. cstr (the v)"
  "length_check 8 63" buffers_ok
  by (rule checked_setterI [where upd = "\<lambda>b w. w\<lparr>passphrase := b\<rparr>"])
    (simp_all add: setPassPhraseParameter_def buffers_ok_def)

interpretation country: checked_setter setCountryCodeParameter "\<lambda>w. cstr (countryCode w)" "\<lambda>v. cstr (the v)"
  "length_check 2 2" buffers_ok
  by (rule checked_setterI [where upd = "\<lambda>b w. w\<lparr>countryCode := b\<rparr>"])
    (simp_all add: setCountryCodeParameter_def buffers_ok_def)

interpretation ipap: checked_setter setIpApParameter "\<lambda>w. cstr (ip_ap w)" "\<lambda>v. cstr (the v)"
  "length_check 1 15" buffers_ok
  by (rule checked_setterI [where upd = "\<lambda>b w. w\<lparr>ip_ap := b\<rparr>"])
    (simp_all add: setIpApParameter_def buffers_ok_def)

interpretation ipstart: checked_setter setIpStartParameter "\<lambda>w. cstr (ip_start w)" "\<lambda>v. cstr (the v)"
  "length_check 1 15" buffers_ok
  by (rule checked_setterI [where upd = "\<lambda>b w. w\<lparr>ip_start := b\<rparr>"])
    (simp_all add: setIpStartParameter_def buffers_ok_def)

interpretation ipstop: checked_setter setIpStopParameter "\<lambda>w. cstr (ip_stop w)" "\<lambda>v. cstr (the v)"
  "length_check 1 15" buffers_ok
  by (rule checked_setterI [where upd = "\<lambda>b w. w\<lparr>ip_stop := b\<rparr>"])
    (simp_all add: setIpStopParameter_def buffers_ok_def)

interpretation ipmask: checked_setter setIpNetMaskParameter "\<lambda>w. cstr (ip_netmask w)" "\<lambda>v. cstr (the v)"
  "length_check 1 15" buffers_ok
  by (rule checked_setterI [where upd = "\<lambda>b w. w\<lparr>ip_netmask := b\<rparr>"])
    (simp_all add: setIpNetMaskParameter_def buffers_ok_def)

definition clients_check :: "32 word \<Rightarrow> int" where
  "clients_check n =
     (if n < 1 then WIFIAP_ERROR_TOO_SMALL else if n > 1000 then WIFIAP_ERROR_TOO_LARGE
      else WIFIAP_NO_ERROR)"

lemma setMaxNumberClients_eq:
  "setMaxNumberClients w n =
     Inr (clients_check n, if clients_check n = 0 then w\<lparr>maxNumberClient := n\<rparr> else w)"
  unfolding setMaxNumberClients_def clients_check_def by simp

interpretation maxclients: checked_setter setMaxNumberClients maxNumberClient "\<lambda>v. v"
  clients_check buffers_ok
  by unfold_locales (simp_all add: setMaxNumberClients_eq buffers_ok_def)

section \<open>IEEE standard masks\<close>

text \<open>
  The bits of the mask: 0 to 3 are the hardware modes a, b, g and ad; 4 is 802.11d, 5 is 802.11h, 7 is
  802.11ac. A mask is valid when exactly one hardware mode is chosen, ac comes with a, and h with d.
\<close>

definition hw_modes :: "32 word \<Rightarrow> nat list" where
  "hw_modes m = filter (bit m) [0..<4]"

definition mask_ok :: "32 word \<Rightarrow> bool" where
  "mask_ok m \<longleftrightarrow> length (hw_modes m) = 1 \<and> (bit m 7 \<longrightarrow> bit m 0) \<and> (bit m 5 \<longrightarrow> bit m 4)"

definition mask_check :: "32 word \<Rightarrow> int" where
  "mask_check m =
     (if hw_modes m = [] then WIFIAP_ERROR_NO_HARD
      else if 1 < length (hw_modes m) then WIFIAP_ERROR_MANY_HARD
      else if bit m 7 \<and> \<not> bit m 0 then WIFIAP_ERROR_STD_AC
      else if bit m 5 \<and> \<not> bit m 4 then WIFIAP_ERROR_STD_H
      else WIFIAP_NO_ERROR)"

lemma mask_check_0: "mask_check m = 0 \<longleftrightarrow> mask_ok m"
proof -
  have "length (hw_modes m) = 1 \<longleftrightarrow> hw_modes m \<noteq> [] \<and> \<not> 1 < length (hw_modes m)"
    by (cases "hw_modes m") auto
  then show ?thesis unfolding mask_check_def mask_ok_def by simp
qed

lemma nibble_cases:
  fixes m :: "32 word"
  shows "m AND 0x0F \<in> set (map word_of_nat [0..<16])"
proof -
  have "m AND 0x0F \<le> 0x0F" by (rule word_and_le1)
  then have "unat (m AND 0x0F) \<in> set [0..<16]" by (simp add: word_le_nat_alt)
  then have "word_of_nat (unat (m AND 0x0F)) \<in> set (map word_of_nat [0..<16] :: 32 word list)"
    unfolding set_map by (rule imageI)
  then show ?thesis by simp
qed

lemma bit_nibble: "i < 4 \<Longrightarrow> bit (m AND 0x0F) i = bit m i" for m :: "32 word"
proof -
  have m: "(0x0F :: 32 word) = mask 4" by (simp add: mask_eq_exp_minus_1)
  assume "i < 4"
  then show ?thesis unfolding m by (simp add: bit_and_iff bit_mask_iff del: mask_numeral)
qed

lemma hw_modes_nibble: "hw_modes m = hw_modes (m AND 0x0F)"
  unfolding hw_modes_def by (intro filter_cong) (simp_all add: bit_nibble)

lemma nibble_table:
  "list_all (\<lambda>v :: 32 word. (v = 0 \<longleftrightarrow> hw_modes v = []) \<and>
      (v AND (v - 1) \<noteq> 0 \<longleftrightarrow> 1 < length (hw_modes v)) \<and>
      (length (hw_modes v) = 1 \<longleftrightarrow> v = 1 \<or> v = 2 \<or> v = 4 \<or> v = 8))
     (map word_of_nat [0..<16])"
  by code_simp

lemma hw_modes_bit_trick:
  fixes m :: "32 word"
  shows "m AND 0x0F = 0 \<longleftrightarrow> hw_modes m = []"
    and "(m AND 0x0F) AND ((m AND 0x0F) - 1) \<noteq> 0 \<longleftrightarrow> 1 < length (hw_modes m)"
    and "length (hw_modes m) = 1 \<longleftrightarrow>
           m AND 0x0F = 1 \<or> m AND 0x0F = 2 \<or> m AND 0x0F = 4 \<or> m AND 0x0F = 8"
  using nibble_table nibble_cases [of m] hw_modes_nibble [of m]
  unfolding list_all_iff by auto

lemma and_bit:
  fixes m :: "32 word"
  shows "m AND 0x80 = 0 \<longleftrightarrow> \<not> bit m 7" "m AND 0x01 = 0 \<longleftrightarrow> \<not> bit m 0"
    "m AND 0x20 = 0 \<longleftrightarrow> \<not> bit m 5" "m AND 0x10 = 0 \<longleftrightarrow> \<not> bit m 4"
  using and_exp_eq_0_iff_not_bit [of m 7] and_exp_eq_0_iff_not_bit [of m 0]
    and_exp_eq_0_iff_not_bit [of m 5] and_exp_eq_0_iff_not_bit [of m 4]
  by simp_all

lemma setIeeeStandardParameter_eq:
  "setIeeeStandardParameter w m =
     Inr (mask_check m, if mask_check m = 0 then w\<lparr>IeeeStdMask := m\<rparr> else w)"
proof -
  have e: "(0x1 OR 0x2 OR 0x4 OR 0x8 :: 32 word) = 0x0F" by simp
  have "setIeeeStandardParameter w m =
     (if hw_modes m = [] then Inr (WIFIAP_ERROR_NO_HARD, w)
      else if 1 < length (hw_modes m) then Inr (WIFIAP_ERROR_MANY_HARD, w)
      else if bit m 7 \<and> \<not> bit m 0 then Inr (WIFIAP_ERROR_STD_AC, w)
      else if bit m 5 \<and> \<not> bit m 4 then Inr (WIFIAP_ERROR_STD_H, w)
      else Inr (WIFIAP_NO_ERROR, w\<lparr>IeeeStdMask := m\<rparr>))"
    unfolding setIeeeStandardParameter_def Let_def e hw_modes_bit_trick(1,2) and_bit not_not ..
  then show ?thesis
    unfolding mask_check_def
    by (cases "hw_modes m = []"; cases "1 < length (hw_modes m)"; cases "bit m 7 \<and> \<not> bit m 0";
        cases "bit m 5 \<and> \<not> bit m 4") (simp_all only: if_True if_False simp_thms neg_equal_0_iff_equal zero_neq_numeral numeral_neq_zero)
qed

interpretation ieee: checked_setter setIeeeStandardParameter IeeeStdMask "\<lambda>m. m" mask_check buffers_ok
  by unfold_locales (simp_all add: setIeeeStandardParameter_eq buffers_ok_def)

section \<open>Channels\<close>

text \<open>The channel range the documentation gives for the hardware mode of a valid mask.\<close>

definition doc_range :: "32 word \<Rightarrow> nat \<times> nat" where
  "doc_range m = (if bit m 0 then (7, 196) else if bit m 3 then (1, 6) else (1, 14))"

definition stored_range :: "wifiApT \<Rightarrow> nat \<times> nat" where
  "stored_range w = (unat (MIN_CHANNEL_VALUE w), unat (MAX_CHANNEL_VALUE w))"

text \<open>
  Once a channel has been accepted, the stored range is one of the three documented ones and the channel
  lies in the union of them. It need not lie in the stored range: a rejected call loads a new range and
  keeps the old channel.
\<close>

definition channel_ok :: "wifiApT \<Rightarrow> bool" where
  "channel_ok w \<longleftrightarrow> stored_range w \<in> {(7, 196), (1, 14), (1, 6)} \<and>
     1 \<le> unat (channelNumber w) \<and> unat (channelNumber w) \<le> 196"

definition in_range :: "nat \<times> nat \<Rightarrow> nat \<Rightarrow> bool" where
  "in_range r n \<longleftrightarrow> fst r \<le> n \<and> n \<le> snd r"

definition range_check :: "nat \<times> nat \<Rightarrow> nat \<Rightarrow> int" where
  "range_check r n = (if n < fst r then WIFIAP_ERROR_TOO_SMALL
     else if snd r < n then WIFIAP_ERROR_TOO_LARGE else WIFIAP_NO_ERROR)"

lemma range_check_0: "range_check r n = 0 \<longleftrightarrow> in_range r n"
  by (auto simp: range_check_def in_range_def)

text \<open>With a valid mask the setter loads the range of the mode and tests the number against it.\<close>

lemma nibble_range:
  assumes "length (hw_modes m) = 1"
  shows "doc_range m = (if m AND 0x0F = 1 then (7, 196) else if m AND 0x0F = 8 then (1, 6) else (1, 14))"
proof -
  have "bit m 0 = bit (m AND 0x0F) 0" "bit m 3 = bit (m AND 0x0F) 3"
    by (simp_all add: bit_nibble)
  with assms show ?thesis
    unfolding hw_modes_bit_trick(3) doc_range_def by auto
qed

definition load_range :: "wifiApT \<Rightarrow> wifiApT" where
  "load_range w = w\<lparr>MIN_CHANNEL_VALUE := word_of_nat (fst (doc_range (IeeeStdMask w))),
                     MAX_CHANNEL_VALUE := word_of_nat (snd (doc_range (IeeeStdMask w)))\<rparr>"

lemma stored_range_load: "stored_range (load_range w) = doc_range (IeeeStdMask w)"
  by (simp add: stored_range_def load_range_def doc_range_def)

lemma setChannelParameter_eq:
  assumes "length (hw_modes (IeeeStdMask w)) = 1"
  shows "setChannelParameter w c =
    (let r = range_check (doc_range (IeeeStdMask w)) (unat c)
     in Inr (r, if r = 0 then (load_range w)\<lparr>channelNumber := ucast c\<rparr> else load_range w))"
proof -
  let ?v = "IeeeStdMask w AND 0x0F"
  from assms consider "?v = 1" | "?v = 2" | "?v = 4" | "?v = 8"
    unfolding hw_modes_bit_trick(3) by blast
  then show ?thesis
    by cases (simp_all add: setChannelParameter_def Let_def word_less_nat_alt range_check_def load_range_def
        nibble_range [OF assms])
qed

section \<open>Ownership of the names\<close>

definition somes :: "'a option list \<Rightarrow> 'a list" where
  "somes ps = concat (map (\<lambda>p. case p of None \<Rightarrow> [] | Some a \<Rightarrow> [a]) ps)"

lemma somes_simps [simp]:
  "somes [] = []" "somes (None # ps) = somes ps" "somes (Some a # ps) = a # somes ps"
  "somes (ps @ qs) = somes ps @ somes qs"
  by (simp_all add: somes_def)

definition name_ptrs :: "wifiApT \<Rightarrow> nat option list" where
  "name_ptrs w = [interfaceName w, domainName w, hostName w]"

text \<open>
  The live blocks are exactly those the given pointers own, each owned once: nothing leaks and no pointer
  dangles.
\<close>

definition owned_by :: "'a strings_scheme \<Rightarrow> nat option list \<Rightarrow> bool" where
  "owned_by s ps \<longleftrightarrow> heap_ok s \<and> distinct (somes ps) \<and> dom (blocks s) = set (somes ps)"

definition names_ok :: "'a ap_scheme \<Rightarrow> bool" where
  "names_ok s \<longleftrightarrow> owned_by s (name_ptrs (wifi s))"

lemma set_string_copy_cases:
  assumes "heap_ok s" "dest = None \<or> blocks s (the dest) \<noteq> None"
  obtains (accept) str a s' where "src = Some str" "cstr str \<noteq> []"
      "set_string_copy E dest src s = Inr (0, Some a, s')" "heap_ok s'" "blocks s a = None"
      "blocks s' = (case dest of None \<Rightarrow> blocks s | Some q \<Rightarrow> (blocks s)(q := None))(a \<mapsto> cstr str)"
      "strings.more s' = strings.more s" "files s' = files s"
    | (reject) r s' where "set_string_copy E dest src s = Inr (r, dest, s')" "r \<in> {- 1, - 2, - 3}"
      "heap_ok s'" "blocks s' = blocks s" "strings.more s' = strings.more s" "files s' = files s"
proof (cases "\<exists>str. src = Some str \<and> cstr str \<noteq> []")
  case False
  then obtain r where "set_string_copy E dest src s = Inr (r, dest, s)" "r \<in> {- 1, - 2, - 3}"
    by (cases src) (simp_all add: set_string_copy_def)
  with reject assms(1) show thesis by simp
next
  case True
  then obtain str where str: "src = Some str" "cstr str \<noteq> []" by blast
  obtain new s1 where new: "strdup E str s = (new, s1)" by fastforce
  then have more: "strings.more s1 = strings.more s" "files s1 = files s"
    using strdup_more [of E str s] by simp_all
  show thesis
  proof (cases new)
    case None
    with new str have "set_string_copy E dest src s = Inr (- 2, dest, s1)"
      by (simp add: set_string_copy_def)
    with reject heap.alloc_none [OF assms(1), of E str s1] new None more show thesis by simp
  next
    case (Some a)
    from heap.replace [OF assms(1) new [unfolded Some] assms(2)] obtain s2 where
      s2: "free_block dest s1 = Inr s2" "heap_ok s2" "blocks s a = None"
      "blocks s2 = (case dest of None \<Rightarrow> blocks s | Some q \<Rightarrow> (blocks s)(q := None))(a \<mapsto> cstr str)"
      by blast
    with new str Some have "set_string_copy E dest src s = Inr (0, Some a, s2)"
      by (simp add: set_string_copy_def)
    with accept str s2 more free_block_more [OF s2(1)] show thesis by simp
  qed
qed

lemma owned_by_replace:
  assumes "owned_by s (ps @ dest # qs)" "blocks s a = None" "heap_ok s'"
    and "blocks s' = (case dest of None \<Rightarrow> blocks s | Some q \<Rightarrow> (blocks s)(q := None))(a \<mapsto> v)"
  shows "owned_by s' (ps @ Some a # qs)"
proof (cases dest)
  case None
  with assms show ?thesis by (auto simp: owned_by_def)
next
  case (Some q)
  with assms(1) have "q \<notin> set (somes ps)" "q \<notin> set (somes qs)"
    and dom: "dom (blocks s) = insert q (set (somes ps) \<union> set (somes qs))"
    by (auto simp: owned_by_def)
  with assms Some show ?thesis by (auto simp: owned_by_def)
qed

lemma owned_by_cong: "blocks s' = blocks s \<Longrightarrow> heap_ok s' \<Longrightarrow> owned_by s ps \<Longrightarrow> owned_by s' ps"
  by (simp add: owned_by_def)

lemma owned_by_live: "owned_by s (ps @ dest # qs) \<Longrightarrow> dest = None \<or> blocks s (the dest) \<noteq> None"
  by (cases dest) (auto simp: owned_by_def dom_def)

lemma ap_more: "strings.more s' = strings.more s \<Longrightarrow> wifi s' = wifi s \<and> ap.more s' = ap.more s"
  for s s' :: "'a ap_scheme"
  by (cases s; cases s') simp

lemma owned_by_wifi_update [simp]: "owned_by (s\<lparr>wifi := w\<rparr>) ps = owned_by s ps"
  by (simp add: owned_by_def heap_ok_def)

lemma set_string_copy_owned:
  assumes "owned_by s (ps @ dest # qs)"
  shows "\<exists>r p s'. set_string_copy E dest src s = Inr (r, p, s') \<and> owned_by s' (ps @ p # qs) \<and>
    strings.more s' = strings.more s \<and> files s' = files s \<and>
    (if r = 0 then deref p s' = Inr (cstr (the src)) \<and> (\<forall>q. dest = Some q \<longrightarrow> blocks s' q = None)
     else p = dest \<and> blocks s' = blocks s)"
proof (rule set_string_copy_cases [OF _ owned_by_live [OF assms], of src E])
  show "heap_ok s" using assms by (simp add: owned_by_def)
next
  fix str a s'
  assume a: "src = Some str" "set_string_copy E dest src s = Inr (0, Some a, s')" "heap_ok s'"
    "blocks s a = None" "strings.more s' = strings.more s" "files s' = files s"
    "blocks s' = (case dest of None \<Rightarrow> blocks s | Some q \<Rightarrow> (blocks s)(q := None))(a \<mapsto> cstr str)"
  from owned_by_live [OF assms] a(4) have "dest \<noteq> Some a" by auto
  with a owned_by_replace [OF assms a(4,3,7)] show ?thesis
    by (auto simp: deref_def split: option.splits)
next
  fix r s'
  assume "set_string_copy E dest src s = Inr (r, dest, s')" "r \<in> {- 1, - 2, - 3}"
    "heap_ok s'" "blocks s' = blocks s" "strings.more s' = strings.more s" "files s' = files s"
  with assms show ?thesis by (auto intro: owned_by_cong)
qed

text \<open>What a name setter does, for each of the three names.\<close>

lemma deref_wifi_update [simp]: "deref p (s\<lparr>wifi := w\<rparr>) = deref p s"
  by (simp add: deref_def split: option.split)

lemma setInterfaceName_result:
  assumes "names_ok s"
  shows "\<exists>r s'. setInterfaceNameParameter E src s = Inr (r, s') \<and> names_ok s' \<and>
    wifi s' = (wifi s)\<lparr>interfaceName := interfaceName (wifi s')\<rparr> \<and> ap.more s' = ap.more s \<and> files s' = files s \<and>
    (if r = 0 then deref (interfaceName (wifi s')) s' = Inr (cstr (the src)) \<and>
                   (\<forall>q. interfaceName (wifi s) = Some q \<longrightarrow> blocks s' q = None)
     else wifi s' = wifi s \<and> blocks s' = blocks s)"
proof -
  from assms have "owned_by s ([] @ interfaceName (wifi s) # [domainName (wifi s), hostName (wifi s)])"
    by (simp add: names_ok_def name_ptrs_def)
  from set_string_copy_owned [OF this, of E src] obtain r p s' where
    s': "set_string_copy E (interfaceName (wifi s)) src s = Inr (r, p, s')"
    "owned_by s' ([] @ p # [domainName (wifi s), hostName (wifi s)])"
    "strings.more s' = strings.more s" "files s' = files s"
    "if r = 0 then deref p s' = Inr (cstr (the src)) \<and> (\<forall>q. interfaceName (wifi s) = Some q \<longrightarrow> blocks s' q = None)
     else p = interfaceName (wifi s) \<and> blocks s' = blocks s"
    by blast
  from ap_more [OF s'(3)] s' show ?thesis
    by (auto simp: setInterfaceNameParameter_def names_ok_def name_ptrs_def split: if_splits)
qed

lemma setDomainName_result:
  assumes "names_ok s"
  shows "\<exists>r s'. setDomainNameParameter E src s = Inr (r, s') \<and> names_ok s' \<and>
    wifi s' = (wifi s)\<lparr>domainName := domainName (wifi s')\<rparr> \<and> ap.more s' = ap.more s \<and> files s' = files s \<and>
    (if r = 0 then deref (domainName (wifi s')) s' = Inr (cstr (the src))
     else wifi s' = wifi s \<and> blocks s' = blocks s)"
proof -
  from assms have "owned_by s ([interfaceName (wifi s)] @ domainName (wifi s) # [hostName (wifi s)])"
    by (simp add: names_ok_def name_ptrs_def)
  from set_string_copy_owned [OF this, of E src] obtain r p s' where
    s': "set_string_copy E (domainName (wifi s)) src s = Inr (r, p, s')"
    "owned_by s' ([interfaceName (wifi s)] @ p # [hostName (wifi s)])"
    "strings.more s' = strings.more s" "files s' = files s"
    "if r = 0 then deref p s' = Inr (cstr (the src)) \<and> (\<forall>q. domainName (wifi s) = Some q \<longrightarrow> blocks s' q = None)
     else p = domainName (wifi s) \<and> blocks s' = blocks s"
    by blast
  from ap_more [OF s'(3)] s' show ?thesis
    by (auto simp: setDomainNameParameter_def names_ok_def name_ptrs_def split: if_splits)
qed

lemma setHostName_result:
  assumes "names_ok s"
  shows "\<exists>r s'. setHostNameParameter E src s = Inr (r, s') \<and> names_ok s' \<and>
    wifi s' = (wifi s)\<lparr>hostName := hostName (wifi s')\<rparr> \<and> ap.more s' = ap.more s \<and> files s' = files s \<and>
    (if r = 0 then deref (hostName (wifi s')) s' = Inr (cstr (the src))
     else wifi s' = wifi s \<and> blocks s' = blocks s)"
proof -
  from assms have "owned_by s ([interfaceName (wifi s), domainName (wifi s)] @ hostName (wifi s) # [])"
    by (simp add: names_ok_def name_ptrs_def)
  from set_string_copy_owned [OF this, of E src] obtain r p s' where
    s': "set_string_copy E (hostName (wifi s)) src s = Inr (r, p, s')"
    "owned_by s' ([interfaceName (wifi s), domainName (wifi s)] @ p # [])"
    "strings.more s' = strings.more s" "files s' = files s"
    "if r = 0 then deref p s' = Inr (cstr (the src)) \<and> (\<forall>q. hostName (wifi s) = Some q \<longrightarrow> blocks s' q = None)
     else p = hostName (wifi s) \<and> blocks s' = blocks s"
    by blast
  from ap_more [OF s'(3)] s' show ?thesis
    by (auto simp: setHostNameParameter_def names_ok_def name_ptrs_def split: if_splits)
qed

section \<open>The pre-shared key and the address range\<close>

lemma fit_all: "length (concat cs) < n \<Longrightarrow> fit n cs = cs"
  by (induction n cs rule: fit.induct) auto

lemma utf8_Copy_short:
  assumes "NUL \<notin> set s" "length s < n" "n \<le> length dest"
  shows "utf8_Copy dest (s @ [NUL]) n =
    (let cs = concat (fst (utf8_split s)); rest = snd (utf8_split s) in
     if rest = [] then Inr (0, s @ NUL # drop (Suc (length s)) dest, length s)
     else if utf8_NumBytesInChar (hd rest) = 0 then Inr (0, (cs @ drop (length cs) dest)[0 := NUL], 0)
     else if utf8_NumBytesInChar (hd rest) + length cs \<ge> n
     then Inr (- 1, cs @ NUL # drop (Suc (length cs)) dest, length cs)
     else Inl Out_of_bounds)"
proof -
  have app: "concat (fst (utf8_split s)) @ snd (utf8_split s) = s" by (rule utf8_split_append)
  then have "length (concat (fst (utf8_split s))) + length (snd (utf8_split s)) = length s"
    by (metis length_append)
  then have "fit n (fst (utf8_split s)) = fst (utf8_split s)"
    using assms(2) by (intro fit_all) simp
  moreover have "snd (utf8_split s) = [] \<Longrightarrow> concat (fst (utf8_split s)) = s"
    using app by simp
  ultimately show ?thesis
    using assms by (simp add: utf8_Copy_eq_loop_ref loop_ref_def Let_def split_beta)
qed

lemma utf8_Copy_buffer_ok:
  assumes "utf8_Copy b src n = Inr (r, b', k)" "buffer_ok m b" "n \<le> m"
  shows "buffer_ok m b'"
proof -
  have "length b' = length b" "k < length b'" using utf8_Copy_bounds [OF assms(1)] by blast+
  with utf8_Copy_last [OF assms(1)] assms(2,3) show ?thesis by (auto simp: buffer_ok_def)
qed

lemma setPreSharedKeyParameter_result:
  "setPreSharedKeyParameter w v = Inr (r, w') \<Longrightarrow> buffers_ok w \<Longrightarrow>
     w' = w\<lparr>presharedKey := presharedKey w'\<rparr> \<and> buffers_ok w'"
  unfolding setPreSharedKeyParameter_def
  by (auto simp: buffers_ok_def dest: utf8_Copy_buffer_ok split: option.splits if_splits)

lemma copy_ip_buffer_ok: "copy_ip b str = Inr b' \<Longrightarrow> buffer_ok 16 b \<Longrightarrow> buffer_ok 16 b'"
  by (auto simp: copy_ip_def dest: utf8_Copy_buffer_ok)

lemma copy_ip_whole:
  assumes "whole str" "length str \<le> 15" "buffer_ok 16 b"
  shows "\<exists>b'. copy_ip b str = Inr b' \<and> cstr b' = str \<and> buffer_ok 16 b'"
proof -
  have n: "NUL \<notin> set str" by (rule whole_no_NUL [OF assms(1)])
  have "utf8_Copy b (str @ [NUL]) 16 = Inr (0, str @ NUL # drop (Suc (length str)) b, length str)"
    using assms n utf8_Copy_short [of str 16 b] by (simp add: buffer_ok_def whole_def Let_def)
  with n assms(2,3) show ?thesis by (simp add: copy_ip_def buffer_ok_def)
qed

lemma setIpRangeParameters_result:
  "setIpRangeParameters w a b c d = Inr (r, w') \<Longrightarrow> buffers_ok w \<Longrightarrow>
     w' = w\<lparr>ip_ap := ip_ap w', ip_start := ip_start w', ip_stop := ip_stop w', ip_netmask := ip_netmask w'\<rparr> \<and>
     buffers_ok w' \<and> (r \<noteq> 0 \<longrightarrow> w' = w)"
  unfolding setIpRangeParameters_def
  by (auto simp: buffers_ok_def Let_def dest: copy_ip_buffer_ok split: if_splits)

section \<open>Validated parameters\<close>

text \<open>
  What holds of the structure once it has been filled from a configuration, and what every setter keeps.
\<close>

definition params_ok :: "wifiApT \<Rightarrow> bool" where
  "params_ok w \<longleftrightarrow> buffers_ok w \<and> 1 \<le> strlen (ssid w) \<and> 8 \<le> strlen (passphrase w) \<and>
     strlen (countryCode w) = 2 \<and> mask_ok (IeeeStdMask w) \<and> clients_check (maxNumberClient w) = 0 \<and>
     channel_ok w"

definition keeps_params :: "(wifiApT \<Rightarrow> 'v \<Rightarrow> fault + (int \<times> wifiApT)) \<Rightarrow> bool" where
  "keeps_params f \<longleftrightarrow> (\<forall>w v r w'. params_ok w \<longrightarrow> f w v = Inr (r, w') \<longrightarrow> params_ok w')"

lemma keeps_paramsI:
  "(\<And>w v r w'. params_ok w \<Longrightarrow> f w v = Inr (r, w') \<Longrightarrow> params_ok w') \<Longrightarrow> keeps_params f"
  by (simp add: keeps_params_def)

lemma keeps_paramsD: "keeps_params f \<Longrightarrow> params_ok w \<Longrightarrow> f w v = Inr (r, w') \<Longrightarrow> params_ok w'"
  by (simp add: keeps_params_def)

text \<open>One field at a time.\<close>

lemmas params_unfold = params_ok_def buffers_ok_def channel_ok_def stored_range_def

lemma params_ok_update [inv_intros]:
  assumes "params_ok w"
  shows "buffer_ok 33 b \<Longrightarrow> 1 \<le> strlen b \<Longrightarrow> params_ok (w\<lparr>ssid := b\<rparr>)"
    and "buffer_ok 64 b \<Longrightarrow> 8 \<le> strlen b \<Longrightarrow> params_ok (w\<lparr>passphrase := b\<rparr>)"
    and "buffer_ok 3 b \<Longrightarrow> strlen b = 2 \<Longrightarrow> params_ok (w\<lparr>countryCode := b\<rparr>)"
    and "buffer_ok 65 b \<Longrightarrow> params_ok (w\<lparr>presharedKey := b\<rparr>)"
    and "buffer_ok 16 b \<Longrightarrow> params_ok (w\<lparr>ip_ap := b\<rparr>)"
    and "buffer_ok 16 b \<Longrightarrow> params_ok (w\<lparr>ip_start := b\<rparr>)"
    and "buffer_ok 16 b \<Longrightarrow> params_ok (w\<lparr>ip_stop := b\<rparr>)"
    and "buffer_ok 16 b \<Longrightarrow> params_ok (w\<lparr>ip_netmask := b\<rparr>)"
    and "mask_ok m \<Longrightarrow> params_ok (w\<lparr>IeeeStdMask := m\<rparr>)"
    and "clients_check n = 0 \<Longrightarrow> params_ok (w\<lparr>maxNumberClient := n\<rparr>)"
    and "params_ok (w\<lparr>securityProtocol := p\<rparr>)" "params_ok (w\<lparr>discoverable := d\<rparr>)"
    and "params_ok (w\<lparr>interfaceName := q\<rparr>)" "params_ok (w\<lparr>domainName := q\<rparr>)"
    and "params_ok (w\<lparr>hostName := q\<rparr>)" "params_ok (w\<lparr>status := st\<rparr>)"
  using assms by (simp_all add: params_unfold)

lemma params_ok_buffers:
  "params_ok w \<Longrightarrow> buffer_ok 33 (ssid w) \<and> 1 \<le> strlen (ssid w) \<and> strlen (ssid w) \<le> 32 \<and>
     buffer_ok 64 (passphrase w) \<and> 8 \<le> strlen (passphrase w) \<and> strlen (passphrase w) \<le> 63 \<and>
     buffer_ok 3 (countryCode w) \<and> strlen (countryCode w) = 2 \<and>
     buffer_ok 65 (presharedKey w) \<and> buffer_ok 16 (ip_ap w) \<and> buffer_ok 16 (ip_start w) \<and>
     buffer_ok 16 (ip_stop w) \<and> buffer_ok 16 (ip_netmask w)"
  using buffer_ok_cstr_length [of 33 "ssid w"] buffer_ok_cstr_length [of 64 "passphrase w"]
  by (simp add: params_ok_def buffers_ok_def strlen_def)

lemma set_buffer_keeps:
  assumes "set_buffer b src lo hi = Inr (r, b')" "buffer_ok n b" "lo \<le> strlen b \<and> strlen b \<le> hi'" "hi \<le> hi'"
  shows "buffer_ok n b' \<and> lo \<le> strlen b' \<and> strlen b' \<le> hi'"
  using assms
  by (auto simp: set_buffer_def strlen_def buffer_ok_def Let_def split: option.splits if_splits)

lemma set_buffer_buffer_ok:
  "set_buffer b src lo hi = Inr (r, b') \<Longrightarrow> buffer_ok n b \<Longrightarrow> buffer_ok n b'"
  by (auto simp: set_buffer_def strlen_def buffer_ok_def Let_def split: option.splits if_splits)

lemma buffer_setters_keep [inv_intros]:
  shows "keeps_params setSsidParameter" "keeps_params setPassPhraseParameter"
    and "keeps_params setCountryCodeParameter"
proof -
  show "keeps_params setSsidParameter"
    by (rule keeps_paramsI, frule params_ok_buffers)
      (auto simp: setSsidParameter_def intro!: params_ok_update
        dest!: set_buffer_keeps [where n = 33 and hi' = 32])
  show "keeps_params setPassPhraseParameter"
    by (rule keeps_paramsI, frule params_ok_buffers)
      (auto simp: setPassPhraseParameter_def intro!: params_ok_update
        dest!: set_buffer_keeps [where n = 64 and hi' = 63])
  show "keeps_params setCountryCodeParameter"
    by (rule keeps_paramsI, frule params_ok_buffers)
      (auto simp: setCountryCodeParameter_def intro!: params_ok_update
        dest!: set_buffer_keeps [where n = 3 and hi' = 2])
qed

lemma ip_setters_keep [inv_intros]:
  "keeps_params setIpApParameter" "keeps_params setIpStartParameter"
  "keeps_params setIpStopParameter" "keeps_params setIpNetMaskParameter"
  by (rule keeps_paramsI, frule params_ok_buffers,
      auto simp: setIpApParameter_def setIpStartParameter_def setIpStopParameter_def
        setIpNetMaskParameter_def intro!: params_ok_update intro: set_buffer_buffer_ok)+

lemma setSecurityProtocol_keeps [inv_intros]: "keeps_params setSecurityProtocolParameter"
  by (rule keeps_paramsI)
    (auto simp: setSecurityProtocolParameter_def intro: params_ok_update split: option.splits if_splits)

lemma setDiscoverable_keeps [inv_intros]: "keeps_params setDiscoverableParameter"
  by (rule keeps_paramsI) (auto simp: setDiscoverableParameter_def intro: params_ok_update)

lemma setMaxNumberClients_keeps [inv_intros]: "keeps_params setMaxNumberClients"
  by (rule keeps_paramsI) (auto simp: setMaxNumberClients_eq intro: params_ok_update split: if_splits)

lemma setIeeeStandard_keeps [inv_intros]: "keeps_params setIeeeStandardParameter"
  by (rule keeps_paramsI)
    (auto simp: setIeeeStandardParameter_eq mask_check_0 intro: params_ok_update split: if_splits)

lemma setPreSharedKey_keeps [inv_intros]: "keeps_params setPreSharedKeyParameter"
  by (rule keeps_paramsI, frule params_ok_buffers)
    (auto simp: setPreSharedKeyParameter_def intro!: params_ok_update dest: utf8_Copy_buffer_ok
      split: option.splits if_splits)

lemma doc_range_cases: "doc_range m \<in> {(7, 196), (1, 14), (1, 6)}"
  by (simp add: doc_range_def)

lemma channel_ok_load:
  "channel_ok w \<Longrightarrow> channel_ok (load_range w)"
  using doc_range_cases [of "IeeeStdMask w"]
  by (simp add: channel_ok_def stored_range_load) (simp add: load_range_def)

lemma unat_channel:
  assumes "unat (c :: 32 word) \<le> 196"
  shows "unat (ucast c :: 16 word) = unat c"
  using assms by (simp add: unsigned_ucast_eq take_bit_nat_eq_self)

lemma channel_ok_accept:
  fixes c :: "32 word"
  assumes "in_range (doc_range (IeeeStdMask w)) (unat c)"
  shows "channel_ok ((load_range w)\<lparr>channelNumber := ucast c\<rparr>) \<and> unat (ucast c :: 16 word) = unat c"
proof -
  have c: "1 \<le> unat c" "unat c \<le> 196"
    using assms doc_range_cases [of "IeeeStdMask w"] by (auto simp: in_range_def)
  have "stored_range ((load_range w)\<lparr>channelNumber := ucast c\<rparr>) = doc_range (IeeeStdMask w)"
    using stored_range_load [of w] by (simp add: stored_range_def)
  with c doc_range_cases [of "IeeeStdMask w"] unat_channel [OF c(2)] show ?thesis
    by (simp add: channel_ok_def)
qed

lemma params_ok_load: "params_ok w \<Longrightarrow> params_ok (load_range w)"
  using channel_ok_load [of w]
  by (simp add: params_ok_def buffers_ok_def) (simp add: load_range_def)

lemma params_ok_channel:
  "params_ok w \<Longrightarrow> channel_ok (w\<lparr>channelNumber := n\<rparr>) \<Longrightarrow> params_ok (w\<lparr>channelNumber := n\<rparr>)"
  by (simp add: params_ok_def buffers_ok_def)

lemma setChannel_keeps [inv_intros]: "keeps_params setChannelParameter"
proof (rule keeps_paramsI)
  fix w v r w'
  assume p: "params_ok w" and r: "setChannelParameter w v = Inr (r, w')"
  from p have one: "length (hw_modes (IeeeStdMask w)) = 1" by (simp add: params_ok_def mask_ok_def)
  show "params_ok w'"
  proof (cases "in_range (doc_range (IeeeStdMask w)) (unat v)")
    case True
    with r have "w' = (load_range w)\<lparr>channelNumber := ucast v\<rparr>"
      by (simp add: setChannelParameter_eq [OF one] Let_def range_check_0)
    with params_ok_channel [OF params_ok_load [OF p]] channel_ok_accept [OF True] show ?thesis by simp
  next
    case False
    with r have "w' = load_range w"
      by (simp add: setChannelParameter_eq [OF one] Let_def range_check_0)
    with params_ok_load [OF p] show ?thesis by simp
  qed
qed

lemma setIpRange_keeps [inv_intros]:
  assumes "params_ok w" "setIpRangeParameters w a b c d = Inr (r, w')"
  shows "params_ok w'"
  using assms params_ok_buffers [OF assms(1)] unfolding setIpRangeParameters_def Let_def
  by (auto split: if_splits dest: copy_ip_buffer_ok intro!: params_ok_update)

section \<open>Properties\<close>

text \<open>
  The SSID, passphrase and country code after any history of calls of their setters, accepted and
  rejected ones mixed, hold the last accepted value, and no call leaves defined behaviour.
\<close>

lemma text_setters_keep_last_accepted:
  assumes "buffers_ok w"
  shows "(\<exists>w'. run_set setSsidParameter w vs = Inr w' \<and> buffers_ok w' \<and> cstr (ssid w') =
      (case filter (\<lambda>v. length_check 1 32 v = 0) vs of [] \<Rightarrow> cstr (ssid w) | acc \<Rightarrow> cstr (the (last acc)))) \<and>
    (\<exists>w'. run_set setPassPhraseParameter w vs = Inr w' \<and> buffers_ok w' \<and> cstr (passphrase w') =
      (case filter (\<lambda>v. length_check 8 63 v = 0) vs of [] \<Rightarrow> cstr (passphrase w) | acc \<Rightarrow> cstr (the (last acc)))) \<and>
    (\<exists>w'. run_set setCountryCodeParameter w vs = Inr w' \<and> buffers_ok w' \<and> cstr (countryCode w') =
      (case filter (\<lambda>v. length_check 2 2 v = 0) vs of [] \<Rightarrow> cstr (countryCode w) | acc \<Rightarrow> cstr (the (last acc))))"
  by (intro conjI ssid.history [OF assms] pass.history [OF assms] country.history [OF assms])

lemma text_setters_keep_last_accepted_example:
  "\<exists>w'. run_set setSsidParameter zero_wifi [Some ''home'', None, Some [], Some ''office'', None] = Inr w' \<and>
     cstr (ssid w') = ''office''"
  using text_setters_keep_last_accepted
    [OF buffers_ok_zero, of "[Some ''home'', None, Some [], Some ''office'', None]"]
  by (auto simp: length_check_def strlen_def)

text \<open>
  C19. \<open>setIeeeStandardParameter\<close> accepts exactly the valid masks, and stores them; an invalid mask
  leaves the structure as it was and is answered with the first of the four errors that applies. The test
  \<open>check & (check - 1)\<close> is the test for more than one hardware mode.
\<close>

theorem setIeeeStandard_accepts_valid_masks:
  "setIeeeStandardParameter w m =
     (if mask_ok m then Inr (WIFIAP_NO_ERROR, w\<lparr>IeeeStdMask := m\<rparr>)
      else Inr (if hw_modes m = [] then WIFIAP_ERROR_NO_HARD
                else if 1 < length (hw_modes m) then WIFIAP_ERROR_MANY_HARD
                else if bit m 7 \<and> \<not> bit m 0 then WIFIAP_ERROR_STD_AC
                else WIFIAP_ERROR_STD_H, w))"
proof (cases "mask_ok m")
  case True
  then have "mask_check m = 0" by (simp only: mask_check_0)
  with True show ?thesis by (simp only: setIeeeStandardParameter_eq if_True simp_thms)
next
  case False
  then have "mask_check m \<noteq> 0" using mask_check_0 by blast
  moreover from this have "mask_check m = (if hw_modes m = [] then WIFIAP_ERROR_NO_HARD
      else if 1 < length (hw_modes m) then WIFIAP_ERROR_MANY_HARD
      else if bit m 7 \<and> \<not> bit m 0 then WIFIAP_ERROR_STD_AC else WIFIAP_ERROR_STD_H)"
    by (auto simp only: mask_check_def split: if_split_asm if_split)
  ultimately show ?thesis using False by (simp only: setIeeeStandardParameter_eq if_False)
qed

text \<open>
  C20. With a valid mask, \<open>setChannelParameter\<close> accepts exactly the channels of the range documented for
  the hardware mode, stores them unchanged at 16 bits, and loads that range; a rejected channel keeps the old
  number but still loads the range.
\<close>

theorem setChannel_accepts_documented_range:
  assumes "mask_ok (IeeeStdMask w)"
  shows "\<exists>r w'. setChannelParameter w c = Inr (r, w') \<and>
    (r = WIFIAP_NO_ERROR \<longleftrightarrow> in_range (doc_range (IeeeStdMask w)) (unat c)) \<and>
    stored_range w' = doc_range (IeeeStdMask w) \<and>
    unat (channelNumber w') = (if r = WIFIAP_NO_ERROR then unat c else unat (channelNumber w))"
proof -
  from assms have one: "length (hw_modes (IeeeStdMask w)) = 1" by (simp add: mask_ok_def)
  show ?thesis
  proof (cases "in_range (doc_range (IeeeStdMask w)) (unat c)")
    case True
    with channel_ok_accept [OF True] stored_range_load [of w] show ?thesis
      by (simp add: setChannelParameter_eq [OF one] Let_def range_check_0 stored_range_def)
  next
    case False
    with stored_range_load [of w] show ?thesis
      by (simp add: setChannelParameter_eq [OF one] Let_def range_check_0) (simp add: load_range_def)
  qed
qed

theorem setChannel_accepts_documented_range_witness:
  "\<exists>r w'. setChannelParameter (zero_wifi\<lparr>IeeeStdMask := 0x8\<rparr>) 7 = Inr (r, w') \<and> r \<noteq> WIFIAP_NO_ERROR \<and>
     stored_range w' = (1, 6)"
proof -
  have m: "mask_ok (IeeeStdMask (zero_wifi\<lparr>IeeeStdMask := 0x8\<rparr>))" by code_simp
  have d: "doc_range (IeeeStdMask (zero_wifi\<lparr>IeeeStdMask := 0x8\<rparr>)) = (1, 6)" by code_simp
  show ?thesis
    using setChannel_accepts_documented_range [OF m, of 7] unfolding d by (auto simp: in_range_def)
qed

text \<open>
  C11. The three name setters own their strings: from a heap without leaks and without dangling pointers, each
  call returns, keeps the heap so, stores the name when it returns 0 and changes nothing otherwise, also when
  memory runs out. An alias of the old name, however, dangles after a successful call.
\<close>

theorem name_setters_own_their_strings:
  assumes "names_ok s"
  shows "(\<exists>r s'. setHostNameParameter E src s = Inr (r, s') \<and> names_ok s' \<and>
      (if r = 0 then deref (hostName (wifi s')) s' = Inr (cstr (the src)) else wifi s' = wifi s \<and> blocks s' = blocks s)) \<and>
    (\<exists>r s'. setDomainNameParameter E src s = Inr (r, s') \<and> names_ok s' \<and>
      (if r = 0 then deref (domainName (wifi s')) s' = Inr (cstr (the src)) else wifi s' = wifi s \<and> blocks s' = blocks s)) \<and>
    (\<exists>r s'. setInterfaceNameParameter E src s = Inr (r, s') \<and> names_ok s' \<and>
      (if r = 0 then deref (interfaceName (wifi s')) s' = Inr (cstr (the src)) \<and>
         (interfaceName (wifi s) \<noteq> None \<longrightarrow> deref (interfaceName (wifi s)) s' = Inl Use_after_free)
       else wifi s' = wifi s \<and> blocks s' = blocks s))"
proof (intro conjI)
  show "\<exists>r s'. setHostNameParameter E src s = Inr (r, s') \<and> names_ok s' \<and>
      (if r = 0 then deref (hostName (wifi s')) s' = Inr (cstr (the src)) else wifi s' = wifi s \<and> blocks s' = blocks s)"
    using setHostName_result [OF assms, of E src] by blast
  show "\<exists>r s'. setDomainNameParameter E src s = Inr (r, s') \<and> names_ok s' \<and>
      (if r = 0 then deref (domainName (wifi s')) s' = Inr (cstr (the src)) else wifi s' = wifi s \<and> blocks s' = blocks s)"
    using setDomainName_result [OF assms, of E src] by blast
  obtain r s' where "setInterfaceNameParameter E src s = Inr (r, s')" "names_ok s'"
    "if r = 0 then deref (interfaceName (wifi s')) s' = Inr (cstr (the src)) \<and>
         (\<forall>q. interfaceName (wifi s) = Some q \<longrightarrow> blocks s' q = None)
       else wifi s' = wifi s \<and> blocks s' = blocks s"
    using setInterfaceName_result [OF assms, of E src] by blast
  moreover have "\<forall>q. p = Some q \<longrightarrow> blocks t q = None \<Longrightarrow> p \<noteq> None \<Longrightarrow> deref p t = Inl Use_after_free"
    for p and t :: "'a ap_scheme"
    by (auto simp: deref_def)
  ultimately show "\<exists>r s'. setInterfaceNameParameter E src s = Inr (r, s') \<and> names_ok s' \<and>
      (if r = 0 then deref (interfaceName (wifi s')) s' = Inr (cstr (the src)) \<and>
         (interfaceName (wifi s) \<noteq> None \<longrightarrow> deref (interfaceName (wifi s)) s' = Inl Use_after_free)
       else wifi s' = wifi s \<and> blocks s' = blocks s)"
    by auto
qed

text \<open>An environment where every call succeeds, and a state with one name set.\<close>

definition calm_env :: env where
  "calm_env = \<lparr>answer = \<lambda>_ _. 0, effect = \<lambda>_ _ f. f, stdout_of = \<lambda>_ _. [], app_dir = ''/usr/wifiap'', stack_junk = \<lambda>_. 0,
     json_print = \<lambda>_. [], info_json = [], unpack_ip = \<lambda>_. None\<rparr>"

definition named_state :: ap where
  "named_state = \<lparr>files = Map.empty, calls = [], blocks = [0 \<mapsto> ''wlan0''], brk = 1,
     wifi = zero_wifi\<lparr>interfaceName := Some 0\<rparr>\<rparr>"

lemma names_ok_named_state: "names_ok named_state"
  by (auto simp: names_ok_def owned_by_def heap_ok_def name_ptrs_def named_state_def zero_wifi_def)

theorem name_setters_own_their_strings_witness:
  "\<exists>s'. setInterfaceNameParameter calm_env (Some ''wlp2s0'') named_state = Inr (0, s') \<and>
     deref (interfaceName (wifi s')) s' = Inr ''wlp2s0'' \<and> deref (Some 0) s' = Inl Use_after_free"
proof -
  have "\<exists>s'. setInterfaceNameParameter calm_env (Some ''wlp2s0'') named_state = Inr (0, s')"
    by (simp add: setInterfaceNameParameter_def set_string_copy_def strdup_def ask_def calm_env_def
        named_state_def free_block_def dom_def)
  with name_setters_own_their_strings [OF names_ok_named_state, of calm_env "Some ''wlp2s0''"]
  show ?thesis by (auto simp: named_state_def)
qed

text \<open>
  C29. \<open>setPreSharedKeyParameter\<close> on a key without NUL of at most 64 bytes, decided by what is left of it after its whole UTF-8
  characters. If nothing is left, the key is stored unchanged. If a byte is left that starts no character, the call is a success that
  leaves the empty key. If a character is left that is cut by the end of the key, the call reads past the end of the key whenever the character and
  what precedes it need less than 65 bytes; otherwise it is a success that stores the key without it. In no case is an error returned.
\<close>

theorem setPreSharedKey_behaviour:
  assumes "buffers_ok w" "NUL \<notin> set str" "length str \<le> 64"
  shows "let whole = concat (fst (utf8_split str)); rest = snd (utf8_split str);
      stores = (\<lambda>key. \<exists>w'. setPreSharedKeyParameter w (Some str) = Inr (WIFIAP_NO_ERROR, w') \<and> buffers_ok w' \<and> cstr (presharedKey w') = key \<and>
        w' = w\<lparr>presharedKey := presharedKey w'\<rparr>)
    in if rest = [] then stores str
       else if utf8_NumBytesInChar (hd rest) = 0 then stores ''''
       else if length whole + utf8_NumBytesInChar (hd rest) < 65 then setPreSharedKeyParameter w (Some str) = Inl Out_of_bounds
       else stores whole"
proof -
  let ?cs = "concat (fst (utf8_split str))" and ?rest = "snd (utf8_split str)"
  have len: "length (presharedKey w) = 65"
    using assms(1) by (simp add: buffers_ok_def buffer_ok_def)
  have "set ?cs \<subseteq> set str"
    using utf8_split_append [of str] by (metis Un_upper1 set_append)
  then have cs: "NUL \<notin> set ?cs" using assms(2) by blast
  have copy: "utf8_Copy (presharedKey w) (str @ [NUL]) 65 =
    (let cs = ?cs; rest = ?rest in
     if rest = [] then Inr (0, str @ NUL # drop (Suc (length str)) (presharedKey w), length str)
     else if utf8_NumBytesInChar (hd rest) = 0
     then Inr (0, (cs @ drop (length cs) (presharedKey w))[0 := NUL], 0)
     else if utf8_NumBytesInChar (hd rest) + length cs \<ge> 65
     then Inr (- 1, cs @ NUL # drop (Suc (length cs)) (presharedKey w), length cs)
     else Inl Out_of_bounds)"
    using assms(2,3) len by (intro utf8_Copy_short) simp_all
  have zero: "cstr (xs[0 := NUL]) = []" for xs by (cases xs) simp_all
  have eff: "setPreSharedKeyParameter w (Some str) =
      bindE (utf8_Copy (presharedKey w) (str @ [NUL]) 65) (\<lambda>(_, d, _). Inr (WIFIAP_NO_ERROR, w\<lparr>presharedKey := d\<rparr>))"
    using assms(2,3) by (simp add: setPreSharedKeyParameter_def strlen_def)
  have st: "\<exists>w'. setPreSharedKeyParameter w (Some str) = Inr (WIFIAP_NO_ERROR, w') \<and> buffers_ok w' \<and> cstr (presharedKey w') = cstr d \<and>
      w' = w\<lparr>presharedKey := presharedKey w'\<rparr>" if "utf8_Copy (presharedKey w) (str @ [NUL]) 65 = Inr (k, d, n)" for k d n
    using that setPreSharedKeyParameter_result [of w "Some str" WIFIAP_NO_ERROR "w\<lparr>presharedKey := d\<rparr>"] assms(1) by (simp add: eff)
  consider (whole) "?rest = []" | (bad) "?rest \<noteq> []" "utf8_NumBytesInChar (hd ?rest) = 0"
    | (cut) "?rest \<noteq> []" "utf8_NumBytesInChar (hd ?rest) \<noteq> 0" by blast
  then show ?thesis
  proof cases
    case whole
    with copy st show ?thesis using assms(2) by (fastforce simp: Let_def)
  next
    case bad
    with copy st show ?thesis by (fastforce simp: Let_def zero)
  next
    case cut
    show ?thesis
    proof (cases "length ?cs + utf8_NumBytesInChar (hd ?rest) < 65")
      case True
      with cut have "utf8_Copy (presharedKey w) (str @ [NUL]) 65 = Inl Out_of_bounds" by (simp add: copy Let_def)
      with cut True show ?thesis by (simp add: Let_def eff)
    next
      case False
      with cut have "utf8_Copy (presharedKey w) (str @ [NUL]) 65 = Inr (- 1, ?cs @ NUL # drop (Suc (length ?cs)) (presharedKey w), length ?cs)"
        by (simp add: copy Let_def)
      from st [OF this] cut False show ?thesis unfolding Let_def cstr_append_NUL [OF cs] by simp
    qed
  qed
qed

theorem setPreSharedKey_behaviour_witness:
  "(\<exists>w'. setPreSharedKeyParameter zero_wifi (Some (''secret'' @ [CHR 0xFF])) = Inr (WIFIAP_NO_ERROR, w') \<and>
     cstr (presharedKey w') = '''') \<and>
   setPreSharedKeyParameter zero_wifi (Some (''secret'' @ [CHR 0xC3])) = Inl Out_of_bounds"
proof -
  have s: "utf8_split (''secret'' @ [CHR 0xFF]) = ([''s'', ''e'', ''c'', ''r'', ''e'', ''t''], [CHR 0xFF])"
    "utf8_split (''secret'' @ [CHR 0xC3]) = ([''s'', ''e'', ''c'', ''r'', ''e'', ''t''], [CHR 0xC3])"
    and b: "utf8_NumBytesInChar (CHR 0xFF) = 0" "utf8_NumBytesInChar (CHR 0xC3) = 2"
    by code_simp+
  show ?thesis
    using setPreSharedKey_behaviour [OF buffers_ok_zero, of "''secret'' @ [CHR 0xFF]"]
      setPreSharedKey_behaviour [OF buffers_ok_zero, of "''secret'' @ [CHR 0xC3]"]
    unfolding s by (auto simp: b)
qed

text \<open>
  \<open>setIpRangeParameters\<close> is all or nothing on addresses of whole characters: it stores the four strings when each has
  between 1 and 15 characters, and otherwise stores none of them.
\<close>

lemma setIpRange_all_or_nothing:
  assumes "buffers_ok w" "list_all whole [a, b, c, d]"
  shows "if list_all (\<lambda>x. 1 \<le> length x \<and> length x \<le> 15) [a, b, c, d]
    then \<exists>w'. setIpRangeParameters w a b c d = Inr (WIFIAP_NO_ERROR, w') \<and> buffers_ok w' \<and>
      cstr (ip_ap w') = a \<and> cstr (ip_start w') = b \<and> cstr (ip_stop w') = c \<and> cstr (ip_netmask w') = d
    else setIpRangeParameters w a b c d =
      Inr (if [] \<in> set [a, b, c, d] then WIFIAP_ERROR_TOO_SMALL else WIFIAP_ERROR_TOO_LARGE, w)"
proof -
  have asc: "whole a" "whole b" "whole c" "whole d" using assms(2) by simp_all
  have l: "strlen x = length x" if "whole x" for x
    using that by (simp add: strlen_def whole_no_NUL)
  have bufs: "buffer_ok 16 (ip_ap w)" "buffer_ok 16 (ip_start w)" "buffer_ok 16 (ip_stop w)"
    "buffer_ok 16 (ip_netmask w)" using assms(1) by (simp_all add: buffers_ok_def)
  show ?thesis
  proof (cases "list_all (\<lambda>x. 1 \<le> length x \<and> length x \<le> 15) [a, b, c, d]")
    case True
    then have le: "length a \<le> 15" "length b \<le> 15" "length c \<le> 15" "length d \<le> 15" by simp_all
    obtain a' b' c' d' where
      "copy_ip (ip_ap w) a = Inr a'" "cstr a' = a" "buffer_ok 16 a'"
      "copy_ip (ip_start w) b = Inr b'" "cstr b' = b" "buffer_ok 16 b'"
      "copy_ip (ip_stop w) c = Inr c'" "cstr c' = c" "buffer_ok 16 c'"
      "copy_ip (ip_netmask w) d = Inr d'" "cstr d' = d" "buffer_ok 16 d'"
      using copy_ip_whole [OF asc(1) le(1) bufs(1)] copy_ip_whole [OF asc(2) le(2) bufs(2)]
        copy_ip_whole [OF asc(3) le(3) bufs(3)] copy_ip_whole [OF asc(4) le(4) bufs(4)] by blast
    with True assms(1) show ?thesis
      by (auto simp: setIpRangeParameters_def l asc Let_def buffers_ok_def)
  next
    case False
    then have n: "\<not> ((1 \<le> length a \<and> length a \<le> 15) \<and> (1 \<le> length b \<and> length b \<le> 15) \<and>
        (1 \<le> length c \<and> length c \<le> 15) \<and> (1 \<le> length d \<and> length d \<le> 15))" by simp
    have e: "[] \<in> set [a, b, c, d] \<longleftrightarrow> length a < 1 \<or> length b < 1 \<or> length c < 1 \<or> length d < 1" by auto
    show ?thesis
      unfolding e setIpRangeParameters_def Let_def l [OF asc(1)] l [OF asc(2)] l [OF asc(3)] l [OF asc(4)]
      using False n by (simp only: if_False) (simp only: not_le not_less de_Morgan_conj, fastforce)
  qed
qed

lemma setIpRange_all_or_nothing_example:
  "setIpRangeParameters zero_wifi ''192.168.5.1'' ''192.168.5.10'' ''192.168.5.1000000'' ''255.255.255.0'' =
     Inr (WIFIAP_ERROR_TOO_LARGE, zero_wifi)"
proof -
  have "list_all whole [''192.168.5.1'', ''192.168.5.10'', ''192.168.5.1000000'', ''255.255.255.0'']"
    by code_simp
  from setIpRange_all_or_nothing [OF buffers_ok_zero this] show ?thesis by simp
qed

end
