(* ===== verification/ApConfig.thy ===== *)
theory ApConfig
  imports ApData
begin

text \<open>
  \<open>src/lib/wifi-ap-config.c\<close> and \<open>src/lib/wifi-ap-config.h\<close>: the files written for hostapd
  and dnsmasq. The generator of \<open>hostapd.conf\<close> works through a buffer of 1024 bytes, which is kept as
  it is in the code, and is shown to write the text \<open>hostapd_conf\<close> of the parameters. What it relies on
  of the file system is the locale \<open>file_store\<close>.
\<close>

section \<open>Texts\<close>

definition lines_of :: "string list \<Rightarrow> string" where
  "lines_of ls = concat (map (\<lambda>l. l @ [NL]) ls)"

lemma lines_of_simps [simp]:
  "lines_of [] = []" "lines_of (l # ls) = l @ NL # lines_of ls"
  "lines_of (ls @ ms) = lines_of ls @ lines_of ms"
  by (simp_all add: lines_of_def)

definition WIFI_HOSTAPD_FILE :: string where
  "WIFI_HOSTAPD_FILE = ''/tmp/hostapd.conf''"

definition TEMP_STRING_MAX_BYTES :: nat where
  "TEMP_STRING_MAX_BYTES = 1024"

definition HOSTAPD_CONFIG_COMMON :: string where
  "HOSTAPD_CONFIG_COMMON = lines_of
     [''driver=nl80211'', ''wmm_enabled=1'', ''beacon_int=100'', ''dtim_period=2'', ''rts_threshold=2347'',
      ''fragm_threshold=2346'', ''ctrl_interface=/var/run/hostapd'', ''ctrl_interface_group=0'']"

definition HOSTAPD_CONFIG_SECURITY_NONE :: string where
  "HOSTAPD_CONFIG_SECURITY_NONE = lines_of
     [''auth_algs=1'', ''eap_server=0'', ''eapol_key_index_workaround=0'', ''macaddr_acl=0'']"

definition HOSTAPD_CONFIG_SECURITY_WPA2 :: string where
  "HOSTAPD_CONFIG_SECURITY_WPA2 = lines_of [''wpa=2'', ''wpa_key_mgmt=WPA-PSK'', ''rsn_pairwise=CCMP'']"

section \<open>Hosts and dnsmasq\<close>

text \<open>
  When \<open>fopen\<close> fails, both functions hand the NULL stream to \<open>fclose\<close> before the error return.
  The names may be NULL, which \<open>%s\<close> dereferences. Both ignore what \<open>fprintf\<close> returns.
\<close>

definition HOSTS_FILE :: string where "HOSTS_FILE = ''/tmp/add_hosts''"

definition DNSMASQ_FILE :: string where "DNSMASQ_FILE = ''/tmp/dnsmasq.wlan.conf''"

definition createHostsConfigFile ::
    "env \<Rightarrow> string \<Rightarrow> string option \<Rightarrow> 'a world_scheme \<Rightarrow> fault + (int \<times> 'a world_scheme)" where
  "createHostsConfigFile E ap name w =
     (let (opened, w1) = fopen_w E HOSTS_FILE w in
      if \<not> opened then Inl Null_deref
      else (case name of
              None \<Rightarrow> Inl Null_deref
            | Some host \<Rightarrow> Inr (0, fprintf E HOSTS_FILE (ap @ '' '' @ host @ [NL]) w1)))"

definition createDnsmasqConfigFile ::
    "env \<Rightarrow> string \<Rightarrow> string \<Rightarrow> string \<Rightarrow> string option \<Rightarrow> 'a world_scheme \<Rightarrow>
       fault + (int \<times> 'a world_scheme)" where
  "createDnsmasqConfigFile E ap start stop name w =
     (let (opened, w1) = fopen_w E DNSMASQ_FILE w in
      if \<not> opened then Inl Null_deref
      else
        let w2 = fprintf E DNSMASQ_FILE (lines_of [''bind-interfaces'', ''listen-address='' @ ap]) w1 in
        (case name of
           None \<Rightarrow> Inl Null_deref
         | Some domain \<Rightarrow>
             let w3 = fprintf E DNSMASQ_FILE
                   (lines_of [''expand-hosts'', ''addn-hosts=/tmp/add_hosts'', ''domain='' @ domain,
                              ''local=/'' @ domain @ ''/'']) w2;
                 w4 = fprintf E DNSMASQ_FILE
                   (lines_of [''dhcp-range='' @ start @ '','' @ stop @ '','' @ show_int 24 @ ''h'']) w3;
                 w5 = fprintf E DNSMASQ_FILE
                   (lines_of [''dhcp-option='' @ show_int 3 @ '','' @ ap]) w4;
                 w6 = fprintf E DNSMASQ_FILE
                   (lines_of [''dhcp-option='' @ show_int 6 @ '','' @ ap]) w5
             in Inr (0, w6)))"

section \<open>hostapd\<close>

definition writeApConfigFile ::
    "env \<Rightarrow> string option \<Rightarrow> string option \<Rightarrow> 'a world_scheme \<Rightarrow> int \<times> 'a world_scheme" where
  "writeApConfigFile E data file w =
     (case (file, data) of
        (Some path, Some str) \<Rightarrow>
          let len = strlen str in
          if len > 0
          then (let (n, w1) = fwrite E path (cstr str) w in if n \<noteq> len then (- 1, w1) else (0, w1))
          else (0, w)
      | _ \<Rightarrow> (- 1, w))"

text \<open>\<open>snprintf(buf, n, ...)\<close> writes at most \<open>n - 1\<close> bytes of the text and a terminator.\<close>

definition snprintf :: "nat \<Rightarrow> string \<Rightarrow> char list \<Rightarrow> char list" where
  "snprintf n str buf = take (n - 1) str @ NUL # drop (Suc (min (n - 1) (length str))) buf"

text \<open>\<open>%s\<close> on a character array reads to its terminator.\<close>

definition read_str :: "char list \<Rightarrow> fault + string" where
  "read_str b = (if NUL \<in> set b then Inr (cstr b) else Inl Out_of_bounds)"

definition tmpConfig :: "char list" where
  "tmpConfig = replicate TEMP_STRING_MAX_BYTES NUL"

definition close_tmp :: "char list \<Rightarrow> char list" where
  "close_tmp b = b[TEMP_STRING_MAX_BYTES - 1 := NUL]"

definition common_config :: "wifiApT \<Rightarrow> fault + char list" where
  "common_config d =
     bindE (read_str (ssid d)) (\<lambda>name.
     bindE (read_str (countryCode d)) (\<lambda>country.
       Inr (close_tmp (snprintf TEMP_STRING_MAX_BYTES
         (HOSTAPD_CONFIG_COMMON @ lines_of
            [''ssid='' @ name,
             ''channel='' @ show_int (uint (channelNumber d)),
             ''max_num_sta='' @ show_int (sint (maxNumberClient d)),
             ''country_code='' @ country,
             ''ignore_broadcast_ssid='' @ show_int (if discoverable d then 0 else 1)]) tmpConfig))))"

text \<open>The security block; \<open>None\<close> when neither a passphrase nor a key is there.\<close>

definition security_config :: "wifiApT \<Rightarrow> fault + char list option" where
  "security_config d =
     (case securityProtocol d of
        WIFI_AP_SECURITY_NONE \<Rightarrow> Inr (Some HOSTAPD_CONFIG_SECURITY_NONE)
      | WIFI_AP_SECURITY_WPA2 \<Rightarrow>
          if hd (passphrase d) \<noteq> NUL
          then bindE (read_str (passphrase d)) (\<lambda>str. Inr (Some (close_tmp
                 (snprintf TEMP_STRING_MAX_BYTES
                    (HOSTAPD_CONFIG_SECURITY_WPA2 @ lines_of [''wpa_passphrase='' @ str]) tmpConfig))))
          else if hd (presharedKey d) \<noteq> NUL
          then bindE (read_str (presharedKey d)) (\<lambda>str. Inr (Some (close_tmp
                 (snprintf TEMP_STRING_MAX_BYTES
                    (HOSTAPD_CONFIG_SECURITY_WPA2 @ lines_of [''wpa_psk='' @ str]) tmpConfig))))
          else Inr None)"

definition append_if :: "bool \<Rightarrow> string \<Rightarrow> char list \<Rightarrow> fault + char list" where
  "append_if b str buf =
     (if b then bindE (utf8_Append buf (str @ [NUL]) TEMP_STRING_MAX_BYTES) (\<lambda>(_, buf', _). Inr buf')
      else Inr buf)"

definition ieee_config :: "wifiApT \<Rightarrow> fault + char list" where
  "ieee_config d =
     (let m = IeeeStdMask d; hw = m AND HARDWARE_MODE_MASK;
          mode = (if hw = WIFI_AP_BITMASK_IEEE_STD_A then ''hw_mode=a''
                  else if hw = WIFI_AP_BITMASK_IEEE_STD_B then ''hw_mode=b''
                  else if hw = WIFI_AP_BITMASK_IEEE_STD_G then ''hw_mode=g''
                  else if hw = WIFI_AP_BITMASK_IEEE_STD_AD then ''hw_mode=ad''
                  else ''hw_mode=g'')
      in bindE (utf8_Copy tmpConfig (lines_of [mode] @ [NUL]) TEMP_STRING_MAX_BYTES) (\<lambda>(_, b0, _).
         bindE (append_if (m AND WIFI_AP_BITMASK_IEEE_STD_D \<noteq> 0) (lines_of [''ieee80211d=1'']) b0) (\<lambda>b1.
         bindE (append_if (m AND WIFI_AP_BITMASK_IEEE_STD_H \<noteq> 0) (lines_of [''ieee80211h=1'']) b1) (\<lambda>b2.
         bindE (append_if (m AND WIFI_AP_BITMASK_IEEE_STD_N \<noteq> 0) (lines_of [''ieee80211n=1'']) b2) (\<lambda>b3.
         bindE (append_if (m AND WIFI_AP_BITMASK_IEEE_STD_AC \<noteq> 0) (lines_of [''ieee80211ac=1'']) b3) (\<lambda>b4.
         bindE (append_if (m AND WIFI_AP_BITMASK_IEEE_STD_AX \<noteq> 0) (lines_of [''ieee80211ax=1'']) b4) (\<lambda>b5.
         bindE (append_if (m AND WIFI_AP_BITMASK_IEEE_STD_W \<noteq> 0) (lines_of [''ieee80211w=1'']) b5) (\<lambda>b6.
           Inr (close_tmp b6)))))))))"

text \<open>The \<open>error:\<close> exit: close, remove the file, return -1.\<close>

definition give_up :: "env \<Rightarrow> 'a world_scheme \<Rightarrow> int \<times> 'a world_scheme" where
  "give_up E w = (- 1, remove_file E WIFI_HOSTAPD_FILE w)"

definition GenerateHostApConfFile ::
    "env \<Rightarrow> wifiApT \<Rightarrow> 'a world_scheme \<Rightarrow> fault + (int \<times> 'a world_scheme)" where
  "GenerateHostApConfFile E d w =
     (let (opened, w1) = fopen_w E WIFI_HOSTAPD_FILE w in
      if \<not> opened then Inr (- 1, w1)
      else bindE (common_config d) (\<lambda>tmp.
        let (r1, w2) = writeApConfigFile E (Some tmp) (Some WIFI_HOSTAPD_FILE) w1 in
        if r1 \<noteq> 0 then Inr (give_up E w2)
        else bindE (security_config d) (\<lambda>sec.
          let (r2, w3) = (case sec of
                None \<Rightarrow> (- 1, w2)
              | Some txt \<Rightarrow> writeApConfigFile E (Some txt) (Some WIFI_HOSTAPD_FILE) w2) in
          if r2 \<noteq> 0 then Inr (give_up E w3)
          else bindE (ieee_config d) (\<lambda>tmp'.
            let (r3, w4) = writeApConfigFile E (Some tmp') (Some WIFI_HOSTAPD_FILE) w3 in
            if r3 \<noteq> 0 then Inr (give_up E w4) else Inr (0, w4)))))"

section \<open>The text of hostapd.conf\<close>

text \<open>What the file says of the parameters, without buffers.\<close>

definition common_text :: "wifiApT \<Rightarrow> string" where
  "common_text d = HOSTAPD_CONFIG_COMMON @ lines_of
     [''ssid='' @ cstr (ssid d),
      ''channel='' @ show_nat (unat (channelNumber d)),
      ''max_num_sta='' @ show_nat (unat (maxNumberClient d)),
      ''country_code='' @ cstr (countryCode d),
      ''ignore_broadcast_ssid='' @ (if discoverable d then ''0'' else ''1'')]"

definition security_text :: "wifiApT \<Rightarrow> string" where
  "security_text d =
     (case securityProtocol d of
        WIFI_AP_SECURITY_NONE \<Rightarrow> HOSTAPD_CONFIG_SECURITY_NONE
      | WIFI_AP_SECURITY_WPA2 \<Rightarrow>
          HOSTAPD_CONFIG_SECURITY_WPA2 @ lines_of [''wpa_passphrase='' @ cstr (passphrase d)])"

definition mode_line :: "32 word \<Rightarrow> string" where
  "mode_line m = (if bit m 0 then ''hw_mode=a'' else if bit m 3 then ''hw_mode=ad''
                  else if bit m 1 then ''hw_mode=b'' else ''hw_mode=g'')"

definition option_lines :: "(nat \<times> string) list" where
  "option_lines = [(4, ''ieee80211d=1''), (5, ''ieee80211h=1''), (6, ''ieee80211n=1''),
     (7, ''ieee80211ac=1''), (8, ''ieee80211ax=1''), (9, ''ieee80211w=1'')]"

definition ieee_text :: "32 word \<Rightarrow> string" where
  "ieee_text m = lines_of (mode_line m # map snd (filter (\<lambda>(i, _). bit m i) option_lines))"

definition hostapd_chunks :: "wifiApT \<Rightarrow> string list" where
  "hostapd_chunks d = [common_text d, security_text d, ieee_text (IeeeStdMask d)]"

definition hostapd_conf :: "wifiApT \<Rightarrow> string" where
  "hostapd_conf d = concat (hostapd_chunks d)"

section \<open>The buffer holds the text\<close>

definition filled :: "string \<Rightarrow> char list" where
  "filled str = str @ replicate (TEMP_STRING_MAX_BYTES - length str) NUL"

lemma tmpConfig_filled: "tmpConfig = filled []"
  by (simp add: tmpConfig_def filled_def)

lemma close_tmp_filled [buffer_simps]: "length str < TEMP_STRING_MAX_BYTES \<Longrightarrow> close_tmp (filled str) = filled str"
  by (auto simp: close_tmp_def filled_def list_update_append list_update_same_conv)

lemma drop_filled: "length s \<le> n \<Longrightarrow> drop n (filled s) = replicate (TEMP_STRING_MAX_BYTES - n) NUL"
  by (simp add: filled_def)

lemma Cons_replicate: "n < m \<Longrightarrow> NUL # replicate (m - Suc n) NUL = replicate (m - n) NUL"
  by (metis Suc_diff_Suc replicate_Suc)

lemma snprintf_filled [buffer_simps]:
  assumes "length str < TEMP_STRING_MAX_BYTES"
  shows "snprintf TEMP_STRING_MAX_BYTES str tmpConfig = filled str"
proof -
  have "min (TEMP_STRING_MAX_BYTES - 1) (length str) = length str" using assms by simp
  then show ?thesis
    using assms Cons_replicate [OF assms]
    by (simp add: snprintf_def tmpConfig_filled drop_filled) (simp add: filled_def)
qed

lemma filled_props [simp]:
  "NUL \<notin> set str \<Longrightarrow> length str < TEMP_STRING_MAX_BYTES \<Longrightarrow> cstr (filled str) = str"
  "length str < TEMP_STRING_MAX_BYTES \<Longrightarrow> NUL \<in> set (filled str)"
  "length str < TEMP_STRING_MAX_BYTES \<Longrightarrow> length (filled str) = TEMP_STRING_MAX_BYTES"
  by (simp_all add: filled_def cstr_append_no_NUL)

lemma copy_filled:
  "ascii s \<Longrightarrow> length s < TEMP_STRING_MAX_BYTES \<Longrightarrow>
     utf8_Copy tmpConfig (s @ [NUL]) TEMP_STRING_MAX_BYTES = Inr (0, filled s, length s)"
  by (simp add: utf8_Copy_ascii tmpConfig_filled drop_filled Cons_replicate) (simp add: filled_def)

lemma append_if_filled:
  assumes "ascii s" "NUL \<notin> set t" "length t + length s < TEMP_STRING_MAX_BYTES"
  shows "append_if b s (filled t) = Inr (filled (if b then t @ s else t))"
proof -
  have "utf8_Append (filled t) (s @ [NUL]) TEMP_STRING_MAX_BYTES =
      Inr (0, t @ s @ NUL # drop (Suc (length t + length s)) (filled t), length t + length s)"
    using assms utf8_Append_ascii [OF assms(1), of "filled t" TEMP_STRING_MAX_BYTES]
    by (simp add: strlen_def TEMP_STRING_MAX_BYTES_def)
  then show ?thesis
    using assms by (simp add: append_if_def drop_filled Cons_replicate) (simp add: filled_def)
qed

lemma read_str_ok: "buffer_ok n b \<Longrightarrow> read_str b = Inr (cstr b)"
  using buffer_ok_NUL [of n b] by (simp add: read_str_def)

section \<open>The three blocks\<close>

lemma show_int_of_nat [simp]: "show_int (int n) = show_nat n"
  by (simp add: show_int_def)

lemma sint_small: "unat n < 2 ^ 31 \<Longrightarrow> sint n = int (unat n)" for n :: "32 word"
  proof -
  assume a: "unat n < 2 ^ 31"
  then have "int (unat n) < int (2 ^ 31)" by (simp only: of_nat_less_iff)
  then have "uint n < 2 ^ 31" by (simp only: uint_nat of_nat_power of_nat_numeral)
  then have "signed_take_bit 31 (uint n) = uint n"
    by (intro signed_take_bit_int_eq_self order_trans [OF _ uint_ge_0]) simp_all
  then show ?thesis by (simp add: sint_uint)
qed

lemma clients_range: "clients_check n = 0 \<Longrightarrow> 1 \<le> unat n \<and> unat n \<le> 1000"
  by (auto simp: clients_check_def word_less_nat_alt split: if_splits)

lemma show_int_flag: "show_int 0 = ''0''" "show_int 1 = ''1''"
  by code_simp+

lemma config_consts:
  "length HOSTAPD_CONFIG_COMMON = 153" "NUL \<notin> set HOSTAPD_CONFIG_COMMON"
  "length HOSTAPD_CONFIG_SECURITY_NONE = 68" "NUL \<notin> set HOSTAPD_CONFIG_SECURITY_NONE"
  "length HOSTAPD_CONFIG_SECURITY_WPA2 = 45" "NUL \<notin> set HOSTAPD_CONFIG_SECURITY_WPA2"
  "HOSTAPD_CONFIG_SECURITY_NONE \<noteq> []"
  by code_simp+

lemma common_length:
  assumes "params_ok d"
  shows "length (common_text d) < TEMP_STRING_MAX_BYTES" "NUL \<notin> set (common_text d)" "common_text d \<noteq> []"
proof -
  have "unat (maxNumberClient d) < 10 ^ 4" "unat (channelNumber d) < 10 ^ 3"
    using clients_range [of "maxNumberClient d"] assms by (simp_all add: params_ok_def channel_ok_def)
  then have "length (show_nat (unat (maxNumberClient d))) \<le> 4" "length (show_nat (unat (channelNumber d))) \<le> 3"
    by (simp_all only: length_show_nat zero_less_numeral)
  with params_ok_buffers [OF assms] show "length (common_text d) < TEMP_STRING_MAX_BYTES"
    by (simp add: common_text_def config_consts TEMP_STRING_MAX_BYTES_def strlen_def)
qed (simp_all add: common_text_def config_consts)

lemma common_config_eq:
  assumes "params_ok d"
  shows "common_config d = Inr (filled (common_text d))"
proof -
  have "unat (maxNumberClient d) < 2 ^ 31"
    using clients_range [of "maxNumberClient d"] assms by (simp add: params_ok_def)
  then have "show_int (sint (maxNumberClient d)) = show_nat (unat (maxNumberClient d))"
    by (simp only: sint_small show_int_of_nat)
  moreover have "show_int (uint (channelNumber d)) = show_nat (unat (channelNumber d))"
    by (metis show_int_of_nat uint_nat)
  moreover have "show_int (if discoverable d then 0 else 1) = (if discoverable d then ''0'' else ''1'')"
    by (simp add: show_int_flag)
  moreover have "read_str (ssid d) = Inr (cstr (ssid d))" "read_str (countryCode d) = Inr (cstr (countryCode d))"
    using params_ok_buffers [OF assms] by (blast intro: read_str_ok)+
  ultimately have "common_config d = Inr (close_tmp (snprintf TEMP_STRING_MAX_BYTES (common_text d) tmpConfig))"
    by (simp only: common_config_def common_text_def bindE_simps)
  with common_length [OF assms] show ?thesis by (simp add: buffer_simps)
qed

lemma security_length:
  assumes "params_ok d"
  shows "length (security_text d) < TEMP_STRING_MAX_BYTES" "NUL \<notin> set (security_text d)" "security_text d \<noteq> []"
  using params_ok_buffers [OF assms]
  by (auto simp: security_text_def config_consts TEMP_STRING_MAX_BYTES_def strlen_def split: wifiAp_SecurityProtocol_t.split)

lemma security_config_eq:
  assumes "params_ok d"
  shows "\<exists>b. security_config d = Inr (Some b) \<and> cstr b = security_text d"
proof (cases "securityProtocol d")
  case WIFI_AP_SECURITY_NONE
  then show ?thesis
    using security_length(2) [OF assms] by (simp add: security_config_def security_text_def)
next
  case WIFI_AP_SECURITY_WPA2
  from params_ok_buffers [OF assms] have "cstr (passphrase d) \<noteq> []" by (auto simp: strlen_def)
  then have "hd (passphrase d) \<noteq> NUL" by (auto simp: cstr_eq_Nil)
  moreover have "read_str (passphrase d) = Inr (cstr (passphrase d))"
    using params_ok_buffers [OF assms] by (blast intro: read_str_ok)
  ultimately have "security_config d =
      Inr (Some (close_tmp (snprintf TEMP_STRING_MAX_BYTES (security_text d) tmpConfig)))"
    using WIFI_AP_SECURITY_WPA2 by (simp add: security_config_def security_text_def)
  with security_length [OF assms] show ?thesis by (simp add: buffer_simps)
qed

lemma test_bit_eq:
  fixes m :: "32 word"
  shows "m AND 0x10 \<noteq> 0 \<longleftrightarrow> bit m 4" "m AND 0x20 \<noteq> 0 \<longleftrightarrow> bit m 5" "m AND 0x40 \<noteq> 0 \<longleftrightarrow> bit m 6"
    "m AND 0x80 \<noteq> 0 \<longleftrightarrow> bit m 7" "m AND 0x100 \<noteq> 0 \<longleftrightarrow> bit m 8" "m AND 0x200 \<noteq> 0 \<longleftrightarrow> bit m 9"
  using and_exp_eq_0_iff_not_bit [of m 4] and_exp_eq_0_iff_not_bit [of m 5] and_exp_eq_0_iff_not_bit [of m 6]
    and_exp_eq_0_iff_not_bit [of m 7] and_exp_eq_0_iff_not_bit [of m 8] and_exp_eq_0_iff_not_bit [of m 9]
  by simp_all

text \<open>Appending the lines of a list of options one after the other.\<close>

fun append_lines :: "32 word \<Rightarrow> (nat \<times> string) list \<Rightarrow> char list \<Rightarrow> fault + char list" where
  "append_lines m [] b = Inr b"
| "append_lines m ((i, l) # opts) b = bindE (append_if (bit m i) (lines_of [l]) b) (append_lines m opts)"

lemma append_lines_filled:
  "list_all (\<lambda>(_, l). ascii (lines_of [l])) opts \<Longrightarrow> NUL \<notin> set t \<Longrightarrow>
     length t + length (lines_of (map snd opts)) < TEMP_STRING_MAX_BYTES \<Longrightarrow>
     append_lines m opts (filled t) = Inr (filled (t @ lines_of (map snd (filter (\<lambda>(i, _). bit m i) opts))))"
proof (induction opts arbitrary: t)
  case Nil
  then show ?case by simp
next
  case (Cons o1 opts)
  obtain i l where o1: "o1 = (i, l)" by (cases o1)
  with Cons.prems have a: "ascii (lines_of [l])" and n: "NUL \<notin> set (lines_of [l])" by (auto dest: ascii_no_NUL)
  then have "append_if (bit m i) (lines_of [l]) (filled t) =
      Inr (filled (if bit m i then t @ lines_of [l] else t))"
    using Cons.prems o1 by (intro append_if_filled) auto
  with Cons.prems o1 a n Cons.IH [of "if bit m i then t @ lines_of [l] else t"] show ?case by auto
qed

lemma ieee_config_lines:
  "ieee_config d =
     bindE (utf8_Copy tmpConfig (lines_of [if IeeeStdMask d AND 0x0F = 1 then ''hw_mode=a''
        else if IeeeStdMask d AND 0x0F = 2 then ''hw_mode=b'' else if IeeeStdMask d AND 0x0F = 4 then ''hw_mode=g''
        else if IeeeStdMask d AND 0x0F = 8 then ''hw_mode=ad'' else ''hw_mode=g''] @ [NUL]) TEMP_STRING_MAX_BYTES)
     (\<lambda>(_, b, _). bindE (append_lines (IeeeStdMask d) option_lines b) (\<lambda>b. Inr (close_tmp b)))"
  by (simp only: ieee_config_def Let_def test_bit_eq option_lines_def append_lines.simps bindE_assoc bindE_simps split_def)

lemma mode_line_eq:
  assumes "mask_ok m"
  shows "(if m AND 0x0F = 1 then ''hw_mode=a'' else if m AND 0x0F = 2 then ''hw_mode=b''
    else if m AND 0x0F = 4 then ''hw_mode=g'' else if m AND 0x0F = 8 then ''hw_mode=ad'' else ''hw_mode=g'')
    = mode_line m"
proof -
  have b: "bit m 0 = bit (m AND 0x0F) 0" "bit m 3 = bit (m AND 0x0F) 3" "bit m (Suc 0) = bit (m AND 0x0F) (Suc 0)"
    by (simp_all add: bit_nibble)
  from assms consider "m AND 0x0F = 1" | "m AND 0x0F = 2" | "m AND 0x0F = 4" | "m AND 0x0F = 8"
    unfolding mask_ok_def hw_modes_bit_trick(3) by blast
  then show ?thesis by cases (simp_all add: mode_line_def b del: bit_and_iff)
qed

lemma mode_line_ascii: "ascii (lines_of [mode_line m]) \<and> length (lines_of [mode_line m]) \<le> 11"
proof -
  have "list_all (\<lambda>l. ascii (lines_of [l]) \<and> length (lines_of [l]) \<le> 11)
    [''hw_mode=a'', ''hw_mode=ad'', ''hw_mode=b'', ''hw_mode=g'']" by code_simp
  moreover have "mode_line m \<in> set [''hw_mode=a'', ''hw_mode=ad'', ''hw_mode=b'', ''hw_mode=g'']"
    by (simp add: mode_line_def)
  ultimately show ?thesis unfolding list_all_iff by blast
qed

lemma ieee_config_eq:
  assumes "mask_ok (IeeeStdMask d)"
  shows "ieee_config d = Inr (filled (ieee_text (IeeeStdMask d)))"
    and "length (ieee_text (IeeeStdMask d)) < TEMP_STRING_MAX_BYTES" "NUL \<notin> set (ieee_text (IeeeStdMask d))"
proof -
  let ?m = "IeeeStdMask d" and ?opts = "filter (\<lambda>(i, _). bit (IeeeStdMask d) i) option_lines"
  have mode: "ascii (lines_of [mode_line ?m])" "length (lines_of [mode_line ?m]) \<le> 11"
    using mode_line_ascii by blast+
  have opts: "list_all (\<lambda>(_, l). ascii (lines_of [l])) option_lines"
    "length (lines_of (map snd option_lines)) = 80" by code_simp+
  have shorter: "length (lines_of (map snd (filter P os))) \<le> length (lines_of (map snd os))" for P os
    by (induction os) auto
  have no_nul: "list_all (\<lambda>(_, l). ascii (lines_of [l])) os \<Longrightarrow> NUL \<notin> set (lines_of (map snd (filter P os)))" for P os
    by (induction os) (auto dest: ascii_no_NUL)
  show len: "length (ieee_text ?m) < TEMP_STRING_MAX_BYTES"
    using mode(2) shorter [of "\<lambda>(i, _). bit ?m i" option_lines] opts(2) by (simp add: ieee_text_def TEMP_STRING_MAX_BYTES_def)
  show "NUL \<notin> set (ieee_text ?m)"
    using ascii_no_NUL [OF mode(1)] no_nul [OF opts(1)] by (simp add: ieee_text_def)
  have "append_lines ?m option_lines (filled (lines_of [mode_line ?m])) = Inr (filled (ieee_text ?m))"
    using append_lines_filled [OF opts(1) ascii_no_NUL [OF mode(1)], of ?m] mode(2) opts(2)
    by (simp add: ieee_text_def TEMP_STRING_MAX_BYTES_def)
  moreover have "utf8_Copy tmpConfig (lines_of [mode_line ?m] @ [NUL]) TEMP_STRING_MAX_BYTES =
      Inr (0, filled (lines_of [mode_line ?m]), length (lines_of [mode_line ?m]))"
    using mode by (intro copy_filled) (simp_all add: TEMP_STRING_MAX_BYTES_def)
  ultimately show "ieee_config d = Inr (filled (ieee_text ?m))"
    unfolding ieee_config_lines mode_line_eq [OF assms] by (simp add: close_tmp_filled [OF len])
qed

section \<open>Writing a file in pieces\<close>

text \<open>
  What a client of the file system does: create a file, append pieces until one is refused in part, and
  discard the file then.
\<close>

fun append_all :: "('p \<Rightarrow> string \<Rightarrow> 's \<Rightarrow> nat \<times> 's) \<Rightarrow> 'p \<Rightarrow> string list \<Rightarrow> 's \<Rightarrow> bool \<times> 's" where
  "append_all app p [] s = (True, s)"
| "append_all app p (d # ds) s =
     (let (n, s1) = app p d s in if n = length d then append_all app p ds s1 else (False, s1))"

definition write_file ::
    "('p \<Rightarrow> 's \<Rightarrow> bool \<times> 's) \<Rightarrow> ('p \<Rightarrow> string \<Rightarrow> 's \<Rightarrow> nat \<times> 's) \<Rightarrow> ('p \<Rightarrow> 's \<Rightarrow> 's) \<Rightarrow>
       'p \<Rightarrow> string list \<Rightarrow> 's \<Rightarrow> int \<times> 's" where
  "write_file create app discard p ds s =
     (let (opened, s1) = create p s in
      if \<not> opened then (- 1, s1)
      else let (complete, s2) = append_all app p ds s1 in
        if complete then (0, s2) else (- 1, discard p s2))"

locale file_store =
  fixes create :: "'p \<Rightarrow> 's \<Rightarrow> bool \<times> 's"
    and app :: "'p \<Rightarrow> string \<Rightarrow> 's \<Rightarrow> nat \<times> 's"
    and discard :: "'p \<Rightarrow> 's \<Rightarrow> 's"
    and contents :: "'s \<Rightarrow> 'p \<Rightarrow> string option"
  assumes create_ok: "create p s = (True, s') \<Longrightarrow> contents s' = (contents s)(p \<mapsto> [])"
    and create_refused: "create p s = (False, s') \<Longrightarrow> contents s' = contents s"
    and app_full: "app p d s = (length d, s') \<Longrightarrow> contents s p = Some c \<Longrightarrow> contents s' = (contents s)(p \<mapsto> c @ d)"
    and app_other: "app p d s = (n, s') \<Longrightarrow> q \<noteq> p \<Longrightarrow> contents s' q = contents s q"
    and discard_other: "q \<noteq> p \<Longrightarrow> contents (discard p s) q = contents s q"
begin

lemma append_all_complete:
  "append_all app p ds s = (True, s') \<Longrightarrow> contents s p = Some c \<Longrightarrow>
     contents s' = (contents s)(p \<mapsto> c @ concat ds)"
proof (induction ds arbitrary: s c)
  case Nil
  then show ?case by (auto simp: fun_upd_idem)
next
  case (Cons d ds)
  obtain n s1 where s1: "app p d s = (n, s1)" by fastforce
  with Cons.prems(1) have n: "n = length d" and rest: "append_all app p ds s1 = (True, s')"
    by (simp_all split: if_splits)
  from app_full [OF s1 [unfolded n] Cons.prems(2)]
  have "contents s1 = (contents s)(p \<mapsto> c @ d)" .
  with Cons.IH [OF rest, of "c @ d"] show ?case by (simp add: fun_eq_iff)
qed

lemma append_all_other:
  "append_all app p ds s = (b, s') \<Longrightarrow> q \<noteq> p \<Longrightarrow> contents s' q = contents s q"
proof (induction ds arbitrary: s)
  case Nil
  then show ?case by simp
next
  case (Cons d ds)
  obtain n s1 where s1: "app p d s = (n, s1)" by fastforce
  with Cons app_other [OF s1] show ?case by (auto split: if_splits)
qed

lemma write_file_result:
  assumes "write_file create app discard p ds s = (r, s')"
  shows "(r = 0 \<and> contents s' = (contents s)(p \<mapsto> concat ds) \<or> r = - 1) \<and>
    (\<forall>q. q \<noteq> p \<longrightarrow> contents s' q = contents s q)"
proof -
  obtain opened s1 where s1: "create p s = (opened, s1)" by fastforce
  obtain complete s2 where s2: "append_all app p ds s1 = (complete, s2)" by fastforce
  show ?thesis
  proof (cases opened)
    case False
    with assms s1 create_refused [of p s s1] show ?thesis by (auto simp: write_file_def)
  next
    case True
    from s1 True have c1: "contents s1 = (contents s)(p \<mapsto> [])" by (simp add: create_ok)
    show ?thesis
    proof (cases complete)
      case True
      with s2 c1 have "contents s2 = (contents s)(p \<mapsto> concat ds)"
        using append_all_complete [of p ds s1 s2 "[]"] by simp
      with assms s1 s2 \<open>opened\<close> True show ?thesis by (simp add: write_file_def)
    next
      case False
      with assms s1 s2 \<open>opened\<close> c1 append_all_other [OF s2] discard_other [of _ p s2] show ?thesis
        by (auto simp: write_file_def)
    qed
  qed
qed

end

interpretation disk: file_store "fopen_w E" "fwrite E" "remove_file E" files for E
proof unfold_locales
  fix p d n q and s s' :: "'a world_scheme" and c
  show "fwrite E p d s = (length d, s') \<Longrightarrow> files s p = Some c \<Longrightarrow> files s' = (files s)(p \<mapsto> c @ d)"
    using fwrite_full [of E p d s c] by simp
  show "fwrite E p d s = (n, s') \<Longrightarrow> q \<noteq> p \<Longrightarrow> files s' q = files s q"
    using files_fwrite_other [of q p E d s] by simp
qed (auto simp: fopen_w_def remove_file_def ask_def split: if_splits)

text \<open>The generator writes the three blocks in this way.\<close>

lemma writeApConfigFile_eq:
  "cstr str \<noteq> [] \<Longrightarrow> writeApConfigFile E (Some str) (Some p) w =
     (let (n, w1) = fwrite E p (cstr str) w in if n \<noteq> length (cstr str) then (- 1, w1) else (0, w1))"
  by (simp add: writeApConfigFile_def strlen_def)

lemma GenerateHostApConfFile_writes:
  assumes "params_ok d"
  shows "GenerateHostApConfFile E d w = Inr (write_file (fopen_w E) (fwrite E) (remove_file E)
    WIFI_HOSTAPD_FILE (hostapd_chunks d) w)"
proof -
  from assms have m: "mask_ok (IeeeStdMask d)" by (simp add: params_ok_def)
  obtain sec where sec: "security_config d = Inr (Some sec)" "cstr sec = security_text d"
    using security_config_eq [OF assms] by blast
  have e: "cstr (filled (common_text d)) = common_text d"
    "cstr (filled (ieee_text (IeeeStdMask d))) = ieee_text (IeeeStdMask d)" "ieee_text (IeeeStdMask d) \<noteq> []"
    using common_length [OF assms] ieee_config_eq [OF m] by (simp_all add: ieee_text_def)
  show ?thesis
    using common_length(3) [OF assms] security_length(3) [OF assms]
    by (simp add: GenerateHostApConfFile_def common_config_eq [OF assms] sec ieee_config_eq(1) [OF m]
        writeApConfigFile_eq e write_file_def hostapd_chunks_def give_up_def split_beta Let_def)
qed

section \<open>Reading the file back\<close>

text \<open>
  The reader of such a file: it splits it into lines and each line at its first equals sign; the last line
  of a key counts.
\<close>

fun conf_lines :: "string \<Rightarrow> string list" where
  "conf_lines [] = []"
| "conf_lines (c # s) =
     (if c = NL then [] # conf_lines s
      else case conf_lines s of [] \<Rightarrow> [[c]] | l # ls \<Rightarrow> (c # l) # ls)"

definition conf_field :: "string \<Rightarrow> string \<times> string" where
  "conf_field l = (takeWhile (\<lambda>c. c \<noteq> CHR ''='') l, tl (dropWhile (\<lambda>c. c \<noteq> CHR ''='') l))"

definition setting :: "string \<Rightarrow> string \<Rightarrow> string option" where
  "setting conf k = map_of (rev (map conf_field (conf_lines conf))) k"

lemma conf_lines_NL: "NL \<notin> set l \<Longrightarrow> conf_lines (l @ NL # s) = l # conf_lines s"
  by (induction l) auto

lemma conf_lines_lines_of: "list_all (\<lambda>l. NL \<notin> set l) ls \<Longrightarrow> conf_lines (lines_of ls @ s) = ls @ conf_lines s"
  by (induction ls) (auto simp: conf_lines_NL)

lemma conf_lines_append: "conf_lines (s @ NL # t) = conf_lines (s @ [NL]) @ conf_lines t"
proof (induction s)
  case Nil
  then show ?case by simp
next
  case (Cons c s)
  have "conf_lines (s @ [NL]) \<noteq> []" by (induction s) (auto split: list.split)
  with Cons show ?case by (auto split: list.split)
qed

lemma conf_field_eq: "CHR ''='' \<notin> set k \<Longrightarrow> conf_field (k @ CHR ''='' # v) = (k, v)"
proof -
  assume "CHR ''='' \<notin> set k"
  then have "takeWhile (\<lambda>c. c \<noteq> CHR ''='') (k @ CHR ''='' # v) = k"
    "dropWhile (\<lambda>c. c \<noteq> CHR ''='') (k @ CHR ''='' # v) = CHR ''='' # v"
    by (auto simp: takeWhile_append dropWhile_append)
  then show ?thesis by (simp add: conf_field_def)
qed

definition conf_settings :: "wifiApT \<Rightarrow> (string \<times> string) list" where
  "conf_settings d =
     [(''driver'', ''nl80211''), (''wmm_enabled'', ''1''), (''beacon_int'', ''100''), (''dtim_period'', ''2''),
      (''rts_threshold'', ''2347''), (''fragm_threshold'', ''2346''),
      (''ctrl_interface'', ''/var/run/hostapd''), (''ctrl_interface_group'', ''0''),
      (''ssid'', cstr (ssid d)), (''channel'', show_nat (unat (channelNumber d))),
      (''max_num_sta'', show_nat (unat (maxNumberClient d))), (''country_code'', cstr (countryCode d)),
      (''ignore_broadcast_ssid'', if discoverable d then ''0'' else ''1'')] @
     (case securityProtocol d of
        WIFI_AP_SECURITY_NONE \<Rightarrow>
          [(''auth_algs'', ''1''), (''eap_server'', ''0''), (''eapol_key_index_workaround'', ''0''), (''macaddr_acl'', ''0'')]
      | WIFI_AP_SECURITY_WPA2 \<Rightarrow>
          [(''wpa'', ''2''), (''wpa_key_mgmt'', ''WPA-PSK''), (''rsn_pairwise'', ''CCMP''),
           (''wpa_passphrase'', cstr (passphrase d))]) @
     (''hw_mode'', if bit (IeeeStdMask d) 0 then ''a'' else if bit (IeeeStdMask d) 3 then ''ad''
         else if bit (IeeeStdMask d) 1 then ''b'' else ''g'') #
     map snd (filter (\<lambda>(i, _). bit (IeeeStdMask d) i)
       [(4, (''ieee80211d'', ''1'')), (5, (''ieee80211h'', ''1'')), (6, (''ieee80211n'', ''1'')),
        (7, (''ieee80211ac'', ''1'')), (8, (''ieee80211ax'', ''1'')), (9, (''ieee80211w'', ''1''))])"

definition conf_line :: "string \<times> string \<Rightarrow> string" where
  "conf_line kv = fst kv @ CHR ''='' # snd kv"

lemma hostapd_conf_settings: "hostapd_conf d = lines_of (map conf_line (conf_settings d))"
proof -
  have opts: "map snd (filter (\<lambda>(i, _). bit m i) option_lines) = map conf_line (map snd (filter (\<lambda>(i, _). bit m i)
       [(4, (''ieee80211d'', ''1'')), (5, (''ieee80211h'', ''1'')), (6, (''ieee80211n'', ''1'')),
        (7, (''ieee80211ac'', ''1'')), (8, (''ieee80211ax'', ''1'')), (9, (''ieee80211w'', ''1''))]))"
    for m :: "32 word"
    by (simp add: option_lines_def conf_line_def)
  have common: "common_text d = lines_of (map conf_line (take 13 (conf_settings d)))"
    by (simp add: common_text_def HOSTAPD_CONFIG_COMMON_def conf_settings_def conf_line_def)
  have "conf_settings d = take 13 (conf_settings d) @ drop 13 (conf_settings d)" by simp
  moreover have "lines_of (map conf_line (drop 13 (conf_settings d))) = security_text d @ ieee_text (IeeeStdMask d)"
    unfolding ieee_text_def opts
    by (simp add: conf_settings_def security_text_def mode_line_def conf_line_def
        HOSTAPD_CONFIG_SECURITY_NONE_def HOSTAPD_CONFIG_SECURITY_WPA2_def split: wifiAp_SecurityProtocol_t.split)
  ultimately show ?thesis
    by (metis (no_types) append_Nil2 common concat.simps hostapd_chunks_def hostapd_conf_def lines_of_simps(3) map_append)
qed

lemma digit_char_neq: "d < 10 \<Longrightarrow> digit_char d \<in> set ''0123456789''"
proof -
  have "list_all (\<lambda>d. digit_char d \<in> set ''0123456789'') [0..<10]" by code_simp
  moreover assume "d < 10"
  ultimately show ?thesis unfolding list_all_iff by simp
qed

lemma show_nat_chars: "set (show_nat n) \<subseteq> set ''0123456789''"
proof (induction n rule: show_nat.induct)
  case (1 n)
  show ?case
  proof (cases "n < 10")
    case True
    then show ?thesis using digit_char_neq [of n] by (subst show_nat.simps) simp
  next
    case False
    then show ?thesis
      using digit_char_neq [of "n mod 10"] "1.IH" [OF False] by (subst show_nat.simps) simp
  qed
qed

lemma show_nat_no_NL: "NL \<notin> set (show_nat n)"
  using show_nat_chars [of n] by auto

definition one_line :: "wifiApT \<Rightarrow> bool" where
  "one_line d \<longleftrightarrow> NL \<notin> set (cstr (ssid d)) \<and> NL \<notin> set (cstr (passphrase d)) \<and> NL \<notin> set (cstr (countryCode d))"

lemma conf_settings_ok:
  assumes "one_line d"
  shows "list_all (\<lambda>(k, v). CHR ''='' \<notin> set k \<and> NL \<notin> set k \<and> NL \<notin> set v) (conf_settings d)"
  using assms show_nat_no_NL
  by (simp add: conf_settings_def one_line_def list_all_append split: wifiAp_SecurityProtocol_t.split)

lemma read_back: "one_line d \<Longrightarrow> map conf_field (conf_lines (hostapd_conf d)) = conf_settings d"
proof -
  assume "one_line d"
  note ok = conf_settings_ok [OF this]
  have "list_all (\<lambda>l. NL \<notin> set l) (map conf_line (conf_settings d))"
    using ok by (auto simp: list_all_iff conf_line_def)
  then have "conf_lines (hostapd_conf d) = map conf_line (conf_settings d)"
    using conf_lines_lines_of [of "map conf_line (conf_settings d)" "[]"] by (simp add: hostapd_conf_settings)
  moreover have "conf_field (conf_line kv) = kv" if "kv \<in> set (conf_settings d)" for kv
    using that ok by (cases kv) (auto simp: list_all_iff conf_line_def conf_field_eq)
  ultimately show ?thesis by (simp add: map_idI)
qed

text \<open>Every key occurs once, so the reader finds the value of each.\<close>

lemma conf_keys_distinct: "distinct (map fst (conf_settings d))"
proof -
  define opts :: "(nat \<times> string \<times> string) list" where "opts = [(4, (''ieee80211d'', ''1'')), (5, (''ieee80211h'', ''1'')), (6, (''ieee80211n'', ''1'')),
        (7, (''ieee80211ac'', ''1'')), (8, (''ieee80211ax'', ''1'')), (9, (''ieee80211w'', ''1''))]"
  define keys where "keys = map (fst \<circ> snd) opts"
  let ?P = "\<lambda>(i, _). bit (IeeeStdMask d) i"
  have "distinct keys" by (simp add: keys_def opts_def)
  then have d: "distinct (map fst (map snd (filter ?P opts)))"
    unfolding keys_def map_map by (rule distinct_map_filter)
  have s: "set (map fst (map snd (filter ?P opts))) \<subseteq> set keys" by (auto simp: keys_def)
  define front where "front = take 13 (conf_settings d) @ drop 13 (conf_settings (d\<lparr>IeeeStdMask := 0\<rparr>))"
  have c: "map fst (conf_settings d) = map fst front @ map fst (map snd (filter ?P opts))"
    by (cases "securityProtocol d") (simp_all add: front_def conf_settings_def opts_def [symmetric])
  have "distinct (map fst front)" "set (map fst front) \<inter> set keys = {}"
    by (cases "securityProtocol d"; simp add: front_def conf_settings_def keys_def opts_def)+
  with c d s show ?thesis by (auto simp del: set_map)
qed

lemma setting_conf:
  assumes "one_line d"
  shows "setting (hostapd_conf d) = map_of (conf_settings d)"
proof -
  have "map_of (rev (conf_settings d)) = map_of (conf_settings d)"
    using conf_keys_distinct [of d] by (subst map_of_inject_set) (simp_all add: rev_map [symmetric])
  then show ?thesis by (simp add: setting_def [abs_def] read_back [OF assms] fun_eq_iff)
qed

lemma setting_ssid: "one_line d \<Longrightarrow> setting (hostapd_conf d) ''ssid'' = Some (cstr (ssid d))"
  by (simp add: setting_conf conf_settings_def)

section \<open>Properties\<close>


text \<open>A configuration, as the default configuration file of the binding gives it.\<close>

definition sample_ap :: wifiApT where
  "sample_ap = zero_wifi\<lparr>
     ssid := ''testssid'' @ replicate 25 NUL, passphrase := ''12345678'' @ replicate 56 NUL,
     countryCode := ''FR'' @ [NUL], IeeeStdMask := 0x4, channelNumber := 1, maxNumberClient := 10,
     MIN_CHANNEL_VALUE := 1, MAX_CHANNEL_VALUE := 14, discoverable := True,
     securityProtocol := WIFI_AP_SECURITY_WPA2\<rparr>"

lemma params_ok_sample: "params_ok sample_ap"
proof -
  have "buffers_ok sample_ap" "1 \<le> strlen (ssid sample_ap)" "8 \<le> strlen (passphrase sample_ap)"
    "strlen (countryCode sample_ap) = 2" "mask_ok (IeeeStdMask sample_ap)"
    "clients_check (maxNumberClient sample_ap) = 0"
    by code_simp+
  moreover have "channel_ok sample_ap"
    by (simp add: channel_ok_def stored_range_def sample_ap_def)
  ultimately show ?thesis by (simp add: params_ok_def)
qed


lemma ssid_accepted:
  assumes "params_ok d" "1 \<le> strlen str" "strlen str \<le> 32"
  shows "\<exists>d'. setSsidParameter d (Some str) = Inr (WIFIAP_NO_ERROR, d') \<and> params_ok d' \<and> cstr (ssid d') = cstr str"
proof -
  have "buffer_ok 33 (ssid d)" using assms(1) by (simp add: params_ok_def buffers_ok_def)
  with set_buffer_accept [of 1 32 "Some str" "ssid d"] assms(2,3) obtain b where
    b: "set_buffer (ssid d) (Some str) 1 32 = Inr (0, b)" "cstr b = cstr str" "buffer_ok 33 b"
    by (auto simp: length_check_0)
  moreover have "strlen b = strlen str" using b(2) by (simp add: strlen_def)
  ultimately have "params_ok (d\<lparr>ssid := b\<rparr>)" using assms(2) by (intro params_ok_update(1) [OF assms(1)]) simp_all
  with b show ?thesis by (simp add: setSsidParameter_def)
qed

lemma injected_line:
  assumes "cstr (ssid d) = a @ NL # b" "NL \<notin> set b"
  shows "b \<in> set (conf_lines (hostapd_conf d))"
proof -
  define rest where "rest = lines_of (map conf_line (drop 9 (conf_settings d)))"
  have "conf_settings d = take 8 (conf_settings d) @ (''ssid'', cstr (ssid d)) # drop 9 (conf_settings d)"
    using id_take_nth_drop [of 8 "conf_settings d"] by (simp add: conf_settings_def)
  then have "map conf_line (conf_settings d) = map conf_line (take 8 (conf_settings d)) @
      conf_line (''ssid'', cstr (ssid d)) # map conf_line (drop 9 (conf_settings d))"
    by (metis list.map(2) map_append)
  then have "hostapd_conf d = lines_of (map conf_line (take 8 (conf_settings d))) @
      conf_line (''ssid'', cstr (ssid d)) @ NL # rest"
    unfolding rest_def hostapd_conf_settings by (simp only: lines_of_simps)
  then have "hostapd_conf d = (lines_of (map conf_line (take 8 (conf_settings d))) @ ''ssid='' @ a) @ NL # b @ NL # rest"
    using assms(1) by (simp add: conf_line_def)
  moreover have "b \<in> set (conf_lines (x @ NL # b @ NL # rest))" for x
    using assms(2) by (subst conf_lines_append) (simp add: conf_lines_NL)
  ultimately show ?thesis by metis
qed

lemma calm_generate_file:
  assumes "params_ok d" "\<forall>h c. answer E h c = 0"
  shows "\<exists>w'. GenerateHostApConfFile E d w = Inr (0, w') \<and> files w' = (files w)(WIFI_HOSTAPD_FILE \<mapsto> hostapd_conf d)"
proof -
  let ?wf = "write_file (fopen_w E) (fwrite E) (remove_file E) WIFI_HOSTAPD_FILE (hostapd_chunks d) w"
  obtain r w' where w': "?wf = (r, w')" by fastforce
  moreover from this have "r = 0"
    using assms(2) by (auto simp: write_file_def hostapd_chunks_def split_beta Let_def fopen_w_def fwrite_def ask_def)
  ultimately show ?thesis
    using disk.write_file_result [OF w'] GenerateHostApConfFile_writes [OF assms(1), of E w] by (auto simp: hostapd_conf_def)
qed

text \<open>
  C23. What \<open>GenerateHostApConfFile\<close> writes can be read back. On validated parameters, when no call fails, it returns 0, and when
  the SSID, the passphrase and the country code hold no line feed, splitting the file into lines and each line at its first equals
  sign gives every key with its parameter, each once and nothing else. But \<open>setSsidParameter\<close> does not refuse a line feed: it accepts every
  text of 1 to 32 bytes, and what stands behind a line feed is then a line of its own of the generated file.
\<close>

theorem hostapd_conf_reads_back:
  assumes "params_ok d" "\<forall>h c. answer E h c = 0"
  shows "(\<exists>w' conf. GenerateHostApConfFile E d w = Inr (0, w') \<and> files w' WIFI_HOSTAPD_FILE = Some conf \<and>
      (one_line d \<longrightarrow> map conf_field (conf_lines conf) = conf_settings d \<and> distinct (map fst (conf_settings d)))) \<and>
    (1 \<le> strlen str \<and> strlen str \<le> 32 \<and> cstr str = a @ NL # b \<and> NL \<notin> set b \<longrightarrow>
      (\<exists>d' w' conf. setSsidParameter d (Some str) = Inr (WIFIAP_NO_ERROR, d') \<and>
        GenerateHostApConfFile E d' w = Inr (0, w') \<and> files w' WIFI_HOSTAPD_FILE = Some conf \<and> b \<in> set (conf_lines conf)))"
proof (intro conjI impI)
  show "\<exists>w' conf. GenerateHostApConfFile E d w = Inr (0, w') \<and> files w' WIFI_HOSTAPD_FILE = Some conf \<and>
      (one_line d \<longrightarrow> map conf_field (conf_lines conf) = conf_settings d \<and> distinct (map fst (conf_settings d)))"
    using calm_generate_file [OF assms, of w] read_back [of d] conf_keys_distinct [of d] by fastforce
next
  assume ab: "1 \<le> strlen str \<and> strlen str \<le> 32 \<and> cstr str = a @ NL # b \<and> NL \<notin> set b"
  from ssid_accepted [OF assms(1)] ab obtain d' where
    d': "setSsidParameter d (Some str) = Inr (WIFIAP_NO_ERROR, d')" "params_ok d'" "cstr (ssid d') = cstr str" by blast
  with calm_generate_file [OF d'(2) assms(2), of w] injected_line [of d' a b] ab
  show "\<exists>d' w' conf. setSsidParameter d (Some str) = Inr (WIFIAP_NO_ERROR, d') \<and>
        GenerateHostApConfFile E d' w = Inr (0, w') \<and> files w' WIFI_HOSTAPD_FILE = Some conf \<and> b \<in> set (conf_lines conf)"
    by fastforce
qed

theorem hostapd_conf_reads_back_witness:
  "(\<exists>w' conf. GenerateHostApConfFile calm_env sample_ap \<lparr>files = Map.empty, calls = []\<rparr> = Inr (0, w') \<and>
     files w' WIFI_HOSTAPD_FILE = Some conf \<and> (''ssid'', ''testssid'') \<in> set (map conf_field (conf_lines conf))) \<and>
   (\<exists>d' w' conf. setSsidParameter sample_ap (Some (''x'' @ [NL] @ ''channel=7'')) = Inr (WIFIAP_NO_ERROR, d') \<and>
     GenerateHostApConfFile calm_env d' \<lparr>files = Map.empty, calls = []\<rparr> = Inr (0, w') \<and>
     files w' WIFI_HOSTAPD_FILE = Some conf \<and> ''channel=7'' \<in> set (conf_lines conf))"
proof -
  have e: "\<forall>h c. answer calm_env h c = 0" by (simp add: calm_env_def)
  have o: "one_line sample_ap" "(''ssid'', ''testssid'') \<in> set (conf_settings sample_ap)"
    "strlen (''x'' @ [NL] @ ''channel=7'') = 11" "cstr (''x'' @ [NL] @ ''channel=7'') = ''x'' @ NL # ''channel=7''"
    "NL \<notin> set ''channel=7''"
    by code_simp+
  have p: "1 \<le> strlen (''x'' @ [NL] @ ''channel=7'') \<and> strlen (''x'' @ [NL] @ ''channel=7'') \<le> 32 \<and>
      cstr (''x'' @ [NL] @ ''channel=7'') = ''x'' @ NL # ''channel=7'' \<and> NL \<notin> set ''channel=7''"
    unfolding o(3) using o(4,5) by simp
  note h = hostapd_conf_reads_back [OF params_ok_sample e, of "\<lparr>files = Map.empty, calls = []\<rparr>"]
  from h [THEN conjunct1] o(1,2) h [THEN conjunct2, THEN mp, OF p] show ?thesis by metis
qed

text \<open>
  The pre-shared key is never used: a validated structure always has a passphrase, so two structures that
  differ only in the key give the same run of the generator.
\<close>

lemma preshared_key_never_written:
  assumes "params_ok d" "buffer_ok 65 k"
  shows "GenerateHostApConfFile E (d\<lparr>presharedKey := k\<rparr>) w = GenerateHostApConfFile E d w"
  using GenerateHostApConfFile_writes [OF assms(1), of E w]
    GenerateHostApConfFile_writes [OF params_ok_update(4) [OF assms], of E w]
  by (simp add: hostapd_chunks_def common_text_def security_text_def cong: wifiAp_SecurityProtocol_t.case_cong)

lemma preshared_key_never_written_example:
  "GenerateHostApConfFile calm_env (sample_ap\<lparr>presharedKey := ''00112233'' @ replicate 57 NUL\<rparr>)
     \<lparr>files = Map.empty, calls = []\<rparr> = GenerateHostApConfFile calm_env sample_ap \<lparr>files = Map.empty, calls = []\<rparr>"
  by (rule preshared_key_never_written [OF params_ok_sample]) (simp add: buffer_ok_def)

text \<open>The texts of the two files of dnsmasq.\<close>

definition hosts_text :: "string \<Rightarrow> string \<Rightarrow> string" where
  "hosts_text ap host = ap @ '' '' @ host @ [NL]"

definition dnsmasq_text :: "string \<Rightarrow> string \<Rightarrow> string \<Rightarrow> string \<Rightarrow> string" where
  "dnsmasq_text ap start stop domain = lines_of
     [''bind-interfaces'', ''listen-address='' @ ap, ''expand-hosts'', ''addn-hosts=/tmp/add_hosts'',
      ''domain='' @ domain, ''local=/'' @ domain @ ''/'', ''dhcp-range='' @ start @ '','' @ stop @ '',24h'',
      ''dhcp-option=3,'' @ ap, ''dhcp-option=6,'' @ ap]"

text \<open>
  \<open>createHostsConfigFile\<close> and \<open>createDnsmasqConfigFile\<close> write exactly their texts when the file
  opens and takes every byte; when it does not open they do not return their error code but close a NULL stream.
\<close>

lemma dnsmasq_files:
  "((\<forall>h c. answer E h c = 0) \<longrightarrow>
     (\<exists>w'. createHostsConfigFile E ap (Some host) w = Inr (0, w') \<and>
        files w' = (files w)(HOSTS_FILE \<mapsto> hosts_text ap host)) \<and>
     (\<exists>w'. createDnsmasqConfigFile E ap start stop (Some domain) w = Inr (0, w') \<and>
        files w' = (files w)(DNSMASQ_FILE \<mapsto> dnsmasq_text ap start stop domain))) \<and>
   (answer E (calls w) (Fopen_w HOSTS_FILE) \<noteq> 0 \<longrightarrow> createHostsConfigFile E ap (Some host) w = Inl Null_deref) \<and>
   (answer E (calls w) (Fopen_w DNSMASQ_FILE) \<noteq> 0 \<longrightarrow>
      createDnsmasqConfigFile E ap start stop (Some domain) w = Inl Null_deref)"
proof -
  have n: "show_int 24 = ''24''" "show_int 3 = ''3''" "show_int 6 = ''6''" by code_simp+
  show ?thesis
    by (auto simp: createHostsConfigFile_def createDnsmasqConfigFile_def fopen_w_def fprintf_def fwrite_def ask_def
        Let_def hosts_text_def dnsmasq_text_def n fun_eq_iff)
qed

lemma dnsmasq_files_example:
  "\<exists>w'. createHostsConfigFile calm_env ''10.0.0.1'' (Some ''box'') \<lparr>files = Map.empty, calls = []\<rparr> = Inr (0, w') \<and>
     files w' HOSTS_FILE = Some (''10.0.0.1 box'' @ [NL])"
proof -
  have "\<forall>h c. answer calm_env h c = 0" by (simp add: calm_env_def)
  with dnsmasq_files [of calm_env "''10.0.0.1''" "''box''" "\<lparr>files = Map.empty, calls = []\<rparr>" "[]" "[]" "[]"]
  show ?thesis by (auto simp: hosts_text_def)
qed

end
