(* ===== verification/Threads.thy ===== *)
theory Threads
  imports ApData
begin

text \<open>
  \<open>src/lib/wifi-ap-thread.h\<close> and \<open>src/lib/wifi-ap-thread.c\<close>: the thread objects, the list
  they are registered in, the mutex around it and the life of a thread. Objects live in a heap of their own;
  the list of \<open>urcu/list.h\<close> is used by its documentation: a sequence that elements are appended to and
  unlinked from, where unlinking an element that is not in it is outside the contract.
\<close>

section \<open>Data\<close>

datatype thread_state = THREAD_STATE_NEW | THREAD_STATE_RUNNING | THREAD_STATE_DYING

text \<open>The enumeration is ordered by its values.\<close>

fun state_rank :: "thread_state \<Rightarrow> nat" where
  "state_rank THREAD_STATE_NEW = 0"
| "state_rank THREAD_STATE_RUNNING = 1"
| "state_rank THREAD_STATE_DYING = 2"

instantiation thread_state :: linorder
begin

definition less_eq_thread_state :: "thread_state \<Rightarrow> thread_state \<Rightarrow> bool" where
  "less_eq_thread_state a b \<longleftrightarrow> state_rank a \<le> state_rank b"

definition less_thread_state :: "thread_state \<Rightarrow> thread_state \<Rightarrow> bool" where
  "less_thread_state a b \<longleftrightarrow> state_rank a < state_rank b"

instance
proof
  fix a b c :: thread_state
  show "a \<le> b \<Longrightarrow> b \<le> a \<Longrightarrow> a = b"
    by (cases a; cases b) (simp_all add: less_eq_thread_state_def)
qed (auto simp: less_eq_thread_state_def less_thread_state_def)

end

text \<open>
  Pointers to the functions of the program that are handed to this module. A thread's context points to a
  heap string, a destructor's to a string constant.
\<close>

datatype main_ptr = Ptr_WifiApThreadMainFunc

datatype destructor_ptr = Ptr_threadDestructorFunc

record Destructor =
  destructor :: "destructor_ptr option"
  d_context :: string

record thread_Obj =
  threadId :: int
  threadName :: "char list"
  attr_joinable :: bool
  priority :: int
  isJoinable :: bool
  threadState :: thread_state
  mainFunc :: main_ptr
  threadContext :: "nat option"
  destructorList :: "Destructor list"
  threadHandle :: nat
  ThreadObjListChangeCount :: nat
  setPidOnStart :: bool
  procId :: nat

text \<open>
  \<open>Mutex\<close> is true while the mutex is held. Object addresses are not reused; a thread handle is the address
  of its object plus one, and 0 while there is no thread.
\<close>

record threads = ap +
  objects :: "nat \<rightharpoonup> thread_Obj"
  next_obj :: nat
  threadList :: "nat list"
  Mutex :: bool

definition get_obj :: "nat \<Rightarrow> 'a threads_scheme \<Rightarrow> fault + thread_Obj" where
  "get_obj a s = (case objects s a of None \<Rightarrow> Inl Use_after_free | Some t \<Rightarrow> Inr t)"

definition put_obj :: "nat \<Rightarrow> thread_Obj \<Rightarrow> 'a threads_scheme \<Rightarrow> 'a threads_scheme" where
  "put_obj a t s = s\<lparr>objects := (objects s)(a \<mapsto> t)\<rparr>"

section \<open>The mutex and the list\<close>

text \<open>
  A default mutex: locking it while it is held by nobody who will release it blocks for ever.
\<close>

definition lock :: "'a threads_scheme \<Rightarrow> fault + 'a threads_scheme" where
  "lock s = (if Mutex s then Inl Deadlock else Inr (s\<lparr>Mutex := True\<rparr>))"

definition unlock :: "'a threads_scheme \<Rightarrow> 'a threads_scheme" where
  "unlock s = s\<lparr>Mutex := False\<rparr>"

fun find_in :: "(nat \<rightharpoonup> thread_Obj) \<Rightarrow> nat list \<Rightarrow> int \<Rightarrow> fault + nat option" where
  "find_in h [] i = Inr None"
| "find_in h (a # as) i =
     (case h a of
        None \<Rightarrow> Inl Use_after_free
      | Some t \<Rightarrow> if threadId t = i then Inr (Some a) else find_in h as i)"

definition findThreadFromIdInList :: "'a threads_scheme \<Rightarrow> int \<Rightarrow> fault + nat option" where
  "findThreadFromIdInList s i = find_in (objects s) (threadList s) i"

definition GetNumberOfNodesInList :: "'b list option \<Rightarrow> int" where
  "GetNumberOfNodesInList l = (case l of None \<Rightarrow> - 1 | Some xs \<Rightarrow> if xs = [] then 0 else int (length xs))"

definition unlink :: "nat \<Rightarrow> 'a threads_scheme \<Rightarrow> fault + 'a threads_scheme" where
  "unlink a s =
     (if a \<in> set (threadList s) then Inr (s\<lparr>threadList := remove1 a (threadList s)\<rparr>) else Inl Bad_list)"

section \<open>Creating and preparing a thread\<close>

abbreviation (input) MAX_THREAD_NAME_SIZE :: nat where "MAX_THREAD_NAME_SIZE \<equiv> 24"
abbreviation (input) DEFAULT_THREAD_PRIORITY :: int where "DEFAULT_THREAD_PRIORITY \<equiv> 0"

text \<open>
  The allocation is not checked. \<open>ThreadLocalDataKey\<close> is never created, so what
  \<open>pthread_getspecific\<close> gives for it is no thread object of this module.
\<close>

definition CreateThread ::
    "env \<Rightarrow> string \<Rightarrow> main_ptr \<Rightarrow> nat option \<Rightarrow> 'a threads_scheme \<Rightarrow> fault + (nat option \<times> 'a threads_scheme)" where
  "CreateThread E name main ctx s =
     (let (r, s1) = ask E Calloc s in
      if r \<noteq> 0 then Inl Null_deref
      else
        let a = next_obj s1;
            s2 = s1\<lparr>next_obj := Suc a\<rparr>;
            (cur, s3) = ask E Getspecific s2;
            (rc, s4) = ask E Attr_init s3
        in if rc \<noteq> 0 then Inl Assert_failed
        else bindE (utf8_Copy (replicate MAX_THREAD_NAME_SIZE NUL) (cstr name @ [NUL]) MAX_THREAD_NAME_SIZE) (\<lambda>(_, nm, _).
          let t = \<lparr>threadId = 0, threadName = nm, attr_joinable = True, priority = DEFAULT_THREAD_PRIORITY, isJoinable = False,
                   threadState = THREAD_STATE_NEW, mainFunc = main, threadContext = ctx, destructorList = [],
                   threadHandle = 0, ThreadObjListChangeCount = 0, setPidOnStart = False, procId = 0\<rparr>;
              (ri, s5) = ask E Attr_setinheritsched (put_obj a t s4)
          in if ri \<noteq> 0 then Inr (None, s5)
          else
            let (rd, s6) = ask E (Attr_setdetachstate False) s5 in
            if rd \<noteq> 0 then Inr (None, s6)
            else if cur \<noteq> 0 then Inl Out_of_bounds
            else bindE (lock s6) (\<lambda>s7.
              let t' = t\<lparr>attr_joinable := False, ThreadObjListChangeCount := 1, threadId := threadId t + 1\<rparr>;
                  s8 = put_obj a t' (s7\<lparr>threadList := []\<rparr>);
                  s9 = s8\<lparr>threadList := threadList s8 @ [a]\<rparr>
              in Inr (Some a, unlock s9))))"

text \<open>Three functions start with a look-up under the mutex and then test that the thread is new.\<close>

definition find_locked :: "int \<Rightarrow> 'a threads_scheme \<Rightarrow> fault + (nat option \<times> 'a threads_scheme)" where
  "find_locked i s =
     bindE (lock s) (\<lambda>s1. bindE (findThreadFromIdInList s1 i) (\<lambda>p. Inr (p, unlock s1)))"

definition setThreadJoinable :: "env \<Rightarrow> int \<Rightarrow> 'a threads_scheme \<Rightarrow> fault + (int \<times> 'a threads_scheme)" where
  "setThreadJoinable E i s =
     bindE (find_locked i s) (\<lambda>(p, s1).
       case p of
         None \<Rightarrow> Inr (- 1, s1)
       | Some a \<Rightarrow> bindE (get_obj a s1) (\<lambda>t.
           if threadState t \<noteq> THREAD_STATE_NEW then Inr (- 2, s1)
           else
             let (r, s2) = ask E (Attr_setdetachstate True) (put_obj a (t\<lparr>isJoinable := True\<rparr>) s1) in
             if r = 0 then Inr (0, put_obj a (t\<lparr>isJoinable := True, attr_joinable := True\<rparr>) s2)
             else Inr (- 3, s2)))"

definition AddDestructor ::
    "env \<Rightarrow> nat \<Rightarrow> destructor_ptr option \<Rightarrow> string \<Rightarrow> 'a threads_scheme \<Rightarrow> fault + 'a threads_scheme" where
  "AddDestructor E a d ctx s =
     (let (r, s1) = ask E Calloc s in
      if r \<noteq> 0 then Inl Null_deref
      else bindE (get_obj a s1) (\<lambda>t.
        Inr (put_obj a (t\<lparr>destructorList := destructorList t @ [\<lparr>destructor = d, d_context = ctx\<rparr>]\<rparr>) s1)))"

definition addDestructorToThread ::
    "env \<Rightarrow> int \<Rightarrow> destructor_ptr option \<Rightarrow> string \<Rightarrow> 'a threads_scheme \<Rightarrow> fault + (int \<times> 'a threads_scheme)" where
  "addDestructorToThread E i d ctx s =
     bindE (find_locked i s) (\<lambda>(p, s1).
       case p of
         None \<Rightarrow> Inr (- 1, s1)
       | Some a \<Rightarrow> bindE (get_obj a s1) (\<lambda>t.
           if threadState t \<noteq> THREAD_STATE_NEW then Inr (- 2, s1)
           else bindE (AddDestructor E a d ctx s1) (\<lambda>s2. Inr (0, s2))))"

text \<open>\<open>pthread_create\<close> stores the handle only when it succeeds; the state is RUNNING either way.\<close>

definition startThread :: "env \<Rightarrow> int \<Rightarrow> 'a threads_scheme \<Rightarrow> fault + (int \<times> 'a threads_scheme)" where
  "startThread E i s =
     bindE (find_locked i s) (\<lambda>(p, s1).
       case p of
         None \<Rightarrow> Inr (- 1, s1)
       | Some a \<Rightarrow> bindE (get_obj a s1) (\<lambda>t.
           if threadState t \<noteq> THREAD_STATE_NEW then Inr (- 2, s1)
           else
             let t1 = t\<lparr>threadState := THREAD_STATE_RUNNING\<rparr>;
                 (r, s2) = ask E (Pthread_create a) (put_obj a t1 s1)
             in if r \<noteq> 0 then Inr (r, s2) else Inr (0, put_obj a (t1\<lparr>threadHandle := Suc a\<rparr>) s2)))"

section \<open>The end of a thread\<close>

definition DeleteThread :: "nat \<Rightarrow> 'a threads_scheme \<Rightarrow> fault + 'a threads_scheme" where
  "DeleteThread a s =
     bindE (get_obj a s) (\<lambda>_. Inr (s\<lparr>objects := (objects s)(a := None)\<rparr>))"

text \<open>
  The loop over the destructors frees the node it stands on; it is left by the test for an empty list, and
  reads the freed node otherwise. \<open>dtor\<close> is what a destructor pointer does when it is called.
\<close>

definition run_destructors ::
    "(destructor_ptr \<Rightarrow> string \<Rightarrow> 'a threads_scheme \<Rightarrow> fault + 'a threads_scheme) \<Rightarrow> nat \<Rightarrow>
       'a threads_scheme \<Rightarrow> fault + 'a threads_scheme" where
  "run_destructors dtor a s =
     bindE (get_obj a s) (\<lambda>t.
       case destructorList t of
         [] \<Rightarrow> Inr s
       | d # _ \<Rightarrow>
           bindE (case destructor d of None \<Rightarrow> Inr s | Some f \<Rightarrow> dtor f (d_context d) s) (\<lambda>s1.
           bindE (get_obj a s1) (\<lambda>t1.
             let rest = tl (destructorList t1) in
             if GetNumberOfNodesInList (Some rest) = 0 then Inr (put_obj a (t1\<lparr>destructorList := rest\<rparr>) s1)
             else Inl Use_after_free)))"

definition CleanupThread ::
    "env \<Rightarrow> (destructor_ptr \<Rightarrow> string \<Rightarrow> 'a threads_scheme \<Rightarrow> fault + 'a threads_scheme) \<Rightarrow> nat \<Rightarrow>
       'a threads_scheme \<Rightarrow> fault + 'a threads_scheme" where
  "CleanupThread E dtor a s =
     bindE (get_obj a s) (\<lambda>t0.
     bindE (run_destructors dtor a (put_obj a (t0\<lparr>threadState := THREAD_STATE_DYING\<rparr>) s)) (\<lambda>s1.
     bindE (get_obj a s1) (\<lambda>t.
     bindE (if isJoinable t then Inr s1
            else bindE (lock s1) (\<lambda>s2. bindE (unlink a s2) (\<lambda>s3. DeleteThread a (unlock s3)))) (\<lambda>s4.
       let (cur, s5) = ask E Getspecific s4 in
       Inr (if cur \<noteq> 0 then snd (ask E Setspecific s5) else s5)))))"

text \<open>
  The routine the new thread runs: name, scheduling, then the main function and the clean-up handler that
  was pushed before it. \<open>main\<close> is what the main function does on its context.
\<close>

definition thread_prologue :: "env \<Rightarrow> nat \<Rightarrow> 'a threads_scheme \<Rightarrow> fault + 'a threads_scheme" where
  "thread_prologue E a s =
     bindE (get_obj a s) (\<lambda>t.
       let s1 = snd (ask E (Pthread_setname (cstr (threadName t))) s);
           s2 = (if priority t = 0 then snd (ask E Sched_setscheduler s1)
                 else if priority t = 2 \<or> priority t = 1 \<or> priority t = 3
                 then snd (ask E (Setpriority (if priority t = 1 then 10 else if priority t = 3 then - 10 else 0)) s1)
                 else s1)
       in Inr (if setPidOnStart t then put_obj a (t\<lparr>procId := threadHandle t\<rparr>) s2 else s2))"

definition PThreadStartRoutine ::
    "env \<Rightarrow> (main_ptr \<Rightarrow> nat option \<Rightarrow> 'a threads_scheme \<Rightarrow> fault + 'a threads_scheme) \<Rightarrow>
       (destructor_ptr \<Rightarrow> string \<Rightarrow> 'a threads_scheme \<Rightarrow> fault + 'a threads_scheme) \<Rightarrow> nat \<Rightarrow>
       'a threads_scheme \<Rightarrow> fault + 'a threads_scheme" where
  "PThreadStartRoutine E main dtor a s =
     bindE (thread_prologue E a s) (\<lambda>s1.
     bindE (get_obj a s1) (\<lambda>t.
     bindE (main (mainFunc t) (threadContext t) s1) (CleanupThread E dtor a)))"

text \<open>A handle of 0 is no thread, and the pthread calls give no meaning to it.\<close>

definition cancelThread :: "env \<Rightarrow> int \<Rightarrow> 'a threads_scheme \<Rightarrow> fault + (int \<times> 'a threads_scheme)" where
  "cancelThread E i s =
     bindE (lock s) (\<lambda>s1.
     bindE (findThreadFromIdInList s1 i) (\<lambda>p.
       case p of
         None \<Rightarrow> Inr (- 1, s1)
       | Some a \<Rightarrow> bindE (get_obj a s1) (\<lambda>t.
           if threadHandle t = 0 then Inl Null_deref
           else
             let (r, s2) = ask E (Pthread_cancel (threadHandle t)) s1 in
             if r \<noteq> 0 then Inr (- 1, s2) else Inr (0, unlock s2))))"

text \<open>
  \<open>pthread_join\<close> returns 0 when the thread has ended, so its clean-up handler has run: if it had not run
  before, it runs here. 35 and 3 are EDEADLK and ESRCH.
\<close>

definition JoinThread ::
    "env \<Rightarrow> (destructor_ptr \<Rightarrow> string \<Rightarrow> 'a threads_scheme \<Rightarrow> fault + 'a threads_scheme) \<Rightarrow> int \<Rightarrow>
       'a threads_scheme \<Rightarrow> fault + (int \<times> 'a threads_scheme)" where
  "JoinThread E dtor i s =
     bindE (find_locked i s) (\<lambda>(p, s1).
       case p of
         None \<Rightarrow> Inr (- 1, s1)
       | Some a \<Rightarrow> bindE (get_obj a s1) (\<lambda>t.
           if \<not> isJoinable t then Inr (- 2, s1)
           else if threadHandle t = 0 then Inl Null_deref
           else
             let (error, s2) = ask E (Pthread_join (threadHandle t)) s1 in
             if error = 0 then
               bindE (if threadState t = THREAD_STATE_DYING then Inr s2 else CleanupThread E dtor a s2) (\<lambda>s3.
               bindE (lock s3) (\<lambda>s4.
               bindE (get_obj a s4) (\<lambda>t'.
               bindE (unlink a (put_obj a (t'\<lparr>ThreadObjListChangeCount := ThreadObjListChangeCount t' + 1\<rparr>) s4))
                 (\<lambda>s5. bindE (DeleteThread a (unlock s5)) (\<lambda>s6. Inr (0, s6))))))
             else if error = 35 then Inr (- 3, s2)
             else if error = 3 then Inr (- 1, s2)
             else Inr (- 2, s2)))"

section \<open>Critical sections\<close>

text \<open>What clients of a mutex rely on.\<close>

locale monitor =
  fixes acquire :: "'s \<Rightarrow> fault + 's"
    and release :: "'s \<Rightarrow> 's"
    and held :: "'s \<Rightarrow> bool"
    and view :: "'s \<Rightarrow> 'v"
  assumes acquire_free: "\<not> held s \<Longrightarrow> \<exists>s1. acquire s = Inr s1 \<and> held s1 \<and> view s1 = view s \<and> release s1 = s"
    and acquire_held: "held s \<Longrightarrow> acquire s = Inl Deadlock"
    and release_free: "\<not> held (release s) \<and> view (release s) = view s"
begin

text \<open>A look-up inside a critical section sees the protected data and changes nothing.\<close>

lemma lookup:
  assumes "\<not> held s" "\<And>s1. view s1 = view s \<Longrightarrow> look s1 = Inr p"
  shows "bindE (acquire s) (\<lambda>s1. bindE (look s1) (\<lambda>p. Inr (p, release s1))) = Inr (p, s)"
proof -
  from acquire_free [OF assms(1)] obtain s1 where "acquire s = Inr s1" "view s1 = view s" "release s1 = s" by blast
  with assms(2) show ?thesis by simp
qed

text \<open>A section left without release blocks every later one.\<close>

lemma leaked: "held s \<Longrightarrow> bindE (acquire s) f = Inl Deadlock"
  by (simp add: acquire_held)

end

definition protected_data :: "'a threads_scheme \<Rightarrow> (nat \<rightharpoonup> thread_Obj) \<times> nat list" where
  "protected_data s = (objects s, threadList s)"

interpretation mutex: monitor lock unlock Mutex protected_data
  by unfold_locales (auto simp: lock_def unlock_def protected_data_def)

section \<open>Well-formed registries\<close>

text \<open>
  The mutex is free; the list is empty or holds one live object, whose id is 1; object addresses are below
  the next one.
\<close>

definition threads_ok :: "'a threads_scheme \<Rightarrow> bool" where
  "threads_ok s \<longleftrightarrow> \<not> Mutex s \<and>
     (threadList s = [] \<or> (\<exists>a t. threadList s = [a] \<and> objects s a = Some t \<and> threadId t = 1)) \<and>
     (\<forall>b. objects s b \<noteq> None \<longrightarrow> b < next_obj s)"

definition registered :: "'a threads_scheme \<Rightarrow> nat option" where
  "registered s = (case threadList s of [] \<Rightarrow> None | a # _ \<Rightarrow> Some a)"

lemma registered_live:
  "threads_ok s \<Longrightarrow> registered s = Some a \<Longrightarrow>
     threadList s = [a] \<and> (\<exists>t. objects s a = Some t \<and> threadId t = 1)"
  by (auto simp: threads_ok_def registered_def)

lemma find_registered:
  "threads_ok s \<Longrightarrow> findThreadFromIdInList s i = Inr (if i = 1 then registered s else None)"
  by (auto simp: threads_ok_def registered_def findThreadFromIdInList_def)

lemma find_locked_registered:
  assumes "threads_ok s"
  shows "find_locked i s = Inr (if i = 1 then registered s else None, s)"
proof -
  have "findThreadFromIdInList s1 i = findThreadFromIdInList s i" if "protected_data s1 = protected_data s"
    for s1 :: "'a threads_scheme"
    using that by (simp add: protected_data_def findThreadFromIdInList_def)
  then show ?thesis
    unfolding find_locked_def using assms
    by (intro mutex.lookup) (simp_all add: find_registered threads_ok_def)
qed

lemma put_obj_simps [simp]:
  "objects (put_obj a t s) = (objects s)(a \<mapsto> t)" "threadList (put_obj a t s) = threadList s"
  "Mutex (put_obj a t s) = Mutex s" "next_obj (put_obj a t s) = next_obj s"
  "wifi (put_obj a t s) = wifi s" "blocks (put_obj a t s) = blocks s" "brk (put_obj a t s) = brk s"
  "files (put_obj a t s) = files s" "calls (put_obj a t s) = calls s"
  "threads.more (put_obj a t s) = threads.more s"
  by (simp_all add: put_obj_def)

lemma ask_simps [simp]:
  "objects (snd (ask E c s)) = objects s" "threadList (snd (ask E c s)) = threadList s"
  "Mutex (snd (ask E c s)) = Mutex s" "next_obj (snd (ask E c s)) = next_obj s"
  "wifi (snd (ask E c s)) = wifi s" "blocks (snd (ask E c s)) = blocks s" "brk (snd (ask E c s)) = brk s"
  "threads.more (snd (ask E c s)) = threads.more s"
  by (simp_all add: ask_def)

lemma unlock_simps [simp]:
  "objects (unlock s) = objects s" "threadList (unlock s) = threadList s" "\<not> Mutex (unlock s)"
  "next_obj (unlock s) = next_obj s" "wifi (unlock s) = wifi s" "blocks (unlock s) = blocks s"
  "brk (unlock s) = brk s" "files (unlock s) = files s" "calls (unlock s) = calls s"
  "threads.more (unlock s) = threads.more s"
  by (simp_all add: unlock_def)

text \<open>
  An operation on the registry touches neither the parameters nor the string heap nor the files, keeps every
  thread object, and never moves the state of a thread backwards.
\<close>

definition moves :: "'a threads_scheme \<Rightarrow> 'a threads_scheme \<Rightarrow> bool" where
  "moves s s' \<longleftrightarrow> wifi s' = wifi s \<and> blocks s' = blocks s \<and> brk s' = brk s \<and> files s' = files s \<and>
     threads.more s' = threads.more s \<and> next_obj s \<le> next_obj s' \<and>
     (\<forall>a t. objects s a = Some t \<longrightarrow>
        (\<exists>t'. objects s' a = Some t' \<and> threadState t \<le> threadState t' \<and> threadContext t' = threadContext t \<and>
           mainFunc t' = mainFunc t \<and> threadId t' = threadId t))"

lemma moves_refl: "moves s s"
  by (simp add: moves_def)

lemma moves_trans: "moves s s1 \<Longrightarrow> moves s1 s2 \<Longrightarrow> moves s s2"
  unfolding moves_def by (auto; fastforce)

lemma moves_put:
  "objects s a = Some t \<Longrightarrow> threadState t \<le> threadState t' \<Longrightarrow> threadContext t' = threadContext t \<Longrightarrow>
     mainFunc t' = mainFunc t \<Longrightarrow> threadId t' = threadId t \<Longrightarrow> moves s (put_obj a t' s)"
  by (simp add: moves_def)

lemma moves_ask: "moves s (snd (ask E c s))"
  by (simp add: moves_def)

lemma threads_ok_put:
  "threads_ok s \<Longrightarrow> objects s a = Some t \<Longrightarrow> threadId t' = threadId t \<Longrightarrow> threads_ok (put_obj a t' s)"
  by (fastforce simp: threads_ok_def)

lemma threads_ok_ask [simp]: "threads_ok (snd (ask E c s)) = threads_ok s"
  by (simp add: threads_ok_def)

lemma new_least: "THREAD_STATE_NEW \<le> st"
  by (simp add: less_eq_thread_state_def)

lemmas registry_intros = moves_refl moves_put moves_ask threads_ok_put new_least

text \<open>The three preparing operations on a well-formed registry.\<close>

lemma setThreadJoinable_result:
  assumes "threads_ok s"
  shows "\<exists>r s'. setThreadJoinable E i s = Inr (r, s') \<and> threads_ok s' \<and> moves s s' \<and> threadList s' = threadList s \<and>
    (r = - 1 \<longleftrightarrow> i \<noteq> 1 \<or> registered s = None)"
proof (cases "if i = 1 then registered s else None")
  case None
  with find_locked_registered [OF assms, of i] assms show ?thesis
    by (auto simp: setThreadJoinable_def moves_refl split: if_splits)
next
  case (Some a)
  then have i: "i = 1" and a: "registered s = Some a" by (auto split: if_splits)
  from registered_live [OF assms a] obtain t where t: "objects s a = Some t" by blast
  have p: "threads_ok (put_obj a (t\<lparr>isJoinable := True\<rparr>) s)" "moves s (put_obj a (t\<lparr>isJoinable := True\<rparr>) s)"
    using assms t by (auto intro: registry_intros)
  show ?thesis
    using find_locked_registered [OF assms, of i] i a t p assms moves_trans [OF p(2) moves_ask]
    by (fastforce simp: setThreadJoinable_def get_obj_def Let_def split_beta moves_refl
        intro: moves_trans [OF _ moves_put] threads_ok_put)
qed

lemma addDestructor_result:
  assumes "threads_ok s"
  shows "addDestructorToThread E i d ctx s = Inl Null_deref \<or>
    (\<exists>r s'. addDestructorToThread E i d ctx s = Inr (r, s') \<and> threads_ok s' \<and> moves s s' \<and>
       threadList s' = threadList s \<and> (r = - 1 \<longleftrightarrow> i \<noteq> 1 \<or> registered s = None))"
proof (cases "if i = 1 then registered s else None")
  case None
  with find_locked_registered [OF assms, of i] assms show ?thesis
    by (auto simp: addDestructorToThread_def moves_refl split: if_splits)
next
  case (Some a)
  then have i: "i = 1" and a: "registered s = Some a" by (auto split: if_splits)
  from registered_live [OF assms a] obtain t where t: "objects s a = Some t" by blast
  let ?s1 = "snd (ask E Calloc s)"
  let ?t' = "t\<lparr>destructorList := destructorList t @ [\<lparr>destructor = d, d_context = ctx\<rparr>]\<rparr>"
  have p: "threads_ok (put_obj a ?t' ?s1)" "moves s (put_obj a ?t' ?s1)"
    using assms t by (auto intro: threads_ok_put simp: moves_def)
  then show ?thesis
    using find_locked_registered [OF assms, of i] i a t assms
    by (simp add: addDestructorToThread_def AddDestructor_def get_obj_def Let_def split_beta moves_refl)
qed

lemma startThread_result:
  assumes "threads_ok s"
  shows "\<exists>r s'. startThread E i s = Inr (r, s') \<and> threads_ok s' \<and> moves s s' \<and> threadList s' = threadList s"
proof (cases "if i = 1 then registered s else None")
  case None
  with find_locked_registered [OF assms, of i] assms show ?thesis
    by (auto simp: startThread_def moves_refl split: if_splits)
next
  case (Some a)
  then have i: "i = 1" and a: "registered s = Some a" by (auto split: if_splits)
  from registered_live [OF assms a] obtain t where t: "objects s a = Some t" by blast
  show ?thesis
  proof (cases "threadState t = THREAD_STATE_NEW")
    case False
    with t find_locked_registered [OF assms, of i] i a assms show ?thesis
      by (auto simp: startThread_def get_obj_def moves_refl)
  next
    case True
    let ?t1 = "t\<lparr>threadState := THREAD_STATE_RUNNING\<rparr>"
    let ?s1 = "snd (ask E (Pthread_create a) (put_obj a ?t1 s))"
    have p: "threads_ok ?s1" "moves s ?s1" "objects ?s1 a = Some ?t1"
      using assms t True by (auto intro: threads_ok_put simp: moves_def new_least)
    have q: "threads_ok (put_obj a (?t1\<lparr>threadHandle := Suc a\<rparr>) ?s1)" "moves s (put_obj a (?t1\<lparr>threadHandle := Suc a\<rparr>) ?s1)"
      using p by (auto intro: threads_ok_put moves_trans [OF p(2) moves_put])
    show ?thesis
      using find_locked_registered [OF assms, of i] i a t True p q
      by (simp add: startThread_def get_obj_def Let_def split_beta)
  qed
qed

section \<open>Creation, cancelling, joining\<close>

lemma ask_frame:
  "ask E c s = (r, s') \<Longrightarrow> objects s' = objects s \<and> threadList s' = threadList s \<and> Mutex s' = Mutex s \<and>
     next_obj s' = next_obj s \<and> wifi s' = wifi s \<and> blocks s' = blocks s \<and> brk s' = brk s \<and>
     files s' = files s \<and> threads.more s' = threads.more s"
  for s s' :: "'a threads_scheme"
  by (auto simp: ask_def)

lemma CreateThread_result:
  assumes "threads_ok s"
  shows "(\<exists>e. CreateThread E name m ctx s = Inl e \<and> e \<noteq> Deadlock) \<or>
    (\<exists>p s'. CreateThread E name m ctx s = Inr (p, s') \<and> threads_ok s' \<and> moves s s' \<and>
       (\<forall>b. b \<noteq> next_obj s \<longrightarrow> objects s' b = objects s b) \<and>
       (case p of
          None \<Rightarrow> threadList s' = threadList s
        | Some a \<Rightarrow> a = next_obj s \<and> threadList s' = [a] \<and>
            (\<exists>t. objects s' a = Some t \<and> threadId t = 1 \<and> threadState t = THREAD_STATE_NEW \<and> threadContext t = ctx \<and>
               isJoinable t = False \<and> destructorList t = [] \<and> threadHandle t = 0)))"
proof -
  have fresh: "objects s (next_obj s) = None" using assms by (auto simp: threads_ok_def)
  have free: "\<not> Mutex s" using assms by (simp add: threads_ok_def)
  have below: "objects s b \<noteq> None \<Longrightarrow> b < next_obj s" for b using assms by (simp add: threads_ok_def)
  have noDead: "utf8_Copy (replicate 24 NUL) (cstr name @ [NUL]) 24 \<noteq> Inl Deadlock"
    by (subst utf8_Copy_eq_loop_ref) (simp_all add: loop_ref_def split_beta Let_def)
  show ?thesis
  proof (cases "utf8_Copy (replicate 24 NUL) (cstr name @ [NUL]) 24")
    case (Inl e)
    then have "e \<noteq> Deadlock" using noDead by metis
    with Inl show ?thesis by (simp add: CreateThread_def Let_def split_beta)
  next
    case (Inr v)
    obtain r nm k where v: "v = (r, nm, k)" by (metis prod_cases3)
    define t where "t = \<lparr>threadId = 0, threadName = nm, attr_joinable = True, priority = 0, isJoinable = False,
      threadState = THREAD_STATE_NEW, mainFunc = m, threadContext = ctx, destructorList = [],
      threadHandle = 0, ThreadObjListChangeCount = 0, setPidOnStart = False, procId = 0\<rparr>"
    obtain r1 s1 where a1: "ask E Calloc s = (r1, s1)" by fastforce
    have n1: "next_obj s1 = next_obj s" using ask_frame [OF a1] by simp
    obtain r3 s3 where a3: "ask E Getspecific (s1\<lparr>next_obj := Suc (next_obj s)\<rparr>) = (r3, s3)" by fastforce
    obtain r4 s4 where a4: "ask E Attr_init s3 = (r4, s4)" by fastforce
    obtain r5 s5 where a5: "ask E Attr_setinheritsched (put_obj (next_obj s) t s4) = (r5, s5)" by fastforce
    obtain r6 s6 where a6: "ask E (Attr_setdetachstate False) s5 = (r6, s6)" by fastforce
    note f = ask_frame [OF a1] ask_frame [OF a3, simplified] ask_frame [OF a4]
      ask_frame [OF a5, simplified] ask_frame [OF a6]
    have l: "lock s6 = Inr (s6\<lparr>Mutex := True\<rparr>)" using f free by (simp add: lock_def)
    let ?t' = "t\<lparr>attr_joinable := False, ThreadObjListChangeCount := 1, threadId := threadId t + 1\<rparr>"
    let ?s9 = "unlock ((put_obj (next_obj s) ?t' (s6\<lparr>Mutex := True, threadList := []\<rparr>))\<lparr>threadList := [next_obj s]\<rparr>)"
    have run: "CreateThread E name m ctx s =
      (if r1 \<noteq> 0 then Inl Null_deref else if r4 \<noteq> 0 then Inl Assert_failed
       else if r5 \<noteq> 0 then Inr (None, s5) else if r6 \<noteq> 0 then Inr (None, s6)
       else if r3 \<noteq> 0 then Inl Out_of_bounds else Inr (Some (next_obj s), ?s9))"
      by (simp add: CreateThread_def Let_def n1 a1 a3 a4 Inr v a5 a6 l flip: t_def)
    have some: "threads_ok s5 \<and> moves s s5" "threads_ok s6 \<and> moves s s6"
      using f fresh free assms by (auto simp: threads_ok_def moves_def less_SucI)
    have last: "threads_ok ?s9" "moves s ?s9" "threadList ?s9 = [next_obj s]" "objects ?s9 (next_obj s) = Some ?t'"
      using f fresh below by (auto simp: threads_ok_def moves_def less_SucI t_def)
    have t': "threadId ?t' = 1 \<and> threadState ?t' = THREAD_STATE_NEW \<and> threadContext ?t' = ctx \<and>
        isJoinable ?t' = False \<and> destructorList ?t' = [] \<and> threadHandle ?t' = 0"
      by (simp add: t_def)
    have others: "\<forall>b. b \<noteq> next_obj s \<longrightarrow> objects s5 b = objects s b \<and> objects s6 b = objects s b \<and> objects ?s9 b = objects s b"
      using f by simp
    show ?thesis
      unfolding run using some last t' others f by simp
  qed
qed

text \<open>What is asked of a destructor: it returns and leaves the registry alone.\<close>

definition registry_frame :: "'a threads_scheme \<Rightarrow> 'a threads_scheme \<Rightarrow> bool" where
  "registry_frame s s1 \<longleftrightarrow> objects s1 = objects s \<and> threadList s1 = threadList s \<and> Mutex s1 = Mutex s \<and>
     next_obj s1 = next_obj s \<and> wifi s1 = wifi s \<and> blocks s1 = blocks s \<and> brk s1 = brk s"

definition quiet ::
    "(destructor_ptr \<Rightarrow> string \<Rightarrow> 'a threads_scheme \<Rightarrow> fault + 'a threads_scheme) \<Rightarrow> bool" where
  "quiet dtor \<longleftrightarrow> (\<forall>f c s. \<exists>s1. dtor f c s = Inr s1 \<and> registry_frame s s1)"

lemma CleanupThread_result:
  assumes "quiet dtor" "objects s a = Some t" "isJoinable t" "length (destructorList t) \<le> 1"
  shows "\<exists>s'. CleanupThread E dtor a s = Inr s' \<and>
    objects s' = (objects s)(a \<mapsto> t\<lparr>threadState := THREAD_STATE_DYING, destructorList := []\<rparr>) \<and>
    threadList s' = threadList s \<and> Mutex s' = Mutex s \<and> next_obj s' = next_obj s \<and> wifi s' = wifi s \<and>
    blocks s' = blocks s \<and> brk s' = brk s"
proof -
  let ?t = "t\<lparr>threadState := THREAD_STATE_DYING\<rparr>" and ?s = "put_obj a (t\<lparr>threadState := THREAD_STATE_DYING\<rparr>) s"
  have fin: "\<exists>s'. Inr (if fst (ask E Getspecific s1) \<noteq> 0 then snd (ask E Setspecific (snd (ask E Getspecific s1)))
      else snd (ask E Getspecific s1)) = (Inr s' :: fault + 'a threads_scheme) \<and> objects s' = objects s1 \<and>
      registry_frame s1 s'" for s1 :: "'a threads_scheme"
    by (simp add: registry_frame_def)
  show ?thesis
  proof (cases "destructorList t")
    case Nil
    then have "t\<lparr>threadState := THREAD_STATE_DYING, destructorList := []\<rparr> = ?t" by (cases t) simp
    with Nil assms show ?thesis
      unfolding \<open>_ = ?t\<close>
      by (simp add: CleanupThread_def run_destructors_def get_obj_def Let_def split_beta)
  next
    case (Cons d ds)
    with assms(4) have ds: "ds = []" by simp
    from assms(1) obtain s1 where s1: "(case destructor d of None \<Rightarrow> Inr ?s | Some f \<Rightarrow> dtor f (d_context d) ?s) = Inr s1"
      "registry_frame ?s s1"
    proof -
      have "\<exists>s1. (case destructor d of None \<Rightarrow> Inr ?s | Some f \<Rightarrow> dtor f (d_context d) ?s) = Inr s1 \<and> registry_frame ?s s1"
        using assms(1) by (cases "destructor d") (simp add: registry_frame_def, simp add: quiet_def)
      then show thesis using that by blast
    qed
    then have "objects s1 a = Some ?t" by (simp add: registry_frame_def)
    with s1 Cons ds assms(2,3) show ?thesis
      by (simp add: CleanupThread_def run_destructors_def get_obj_def Let_def split_beta GetNumberOfNodesInList_def
          registry_frame_def)
  qed
qed

lemma cancelThread_registered:
  assumes "threads_ok s" "registered s = Some a" "objects s a = Some t" "threadHandle t \<noteq> 0"
  shows "\<exists>r s'. cancelThread E 1 s = Inr (r, s') \<and> objects s' = objects s \<and> threadList s' = threadList s \<and>
    moves s s' \<and> (if r = 0 then threads_ok s' else r = - 1 \<and> Mutex s')"
proof -
  have l: "lock s = Inr (s\<lparr>Mutex := True\<rparr>)" using assms(1) by (simp add: lock_def threads_ok_def)
  have f: "findThreadFromIdInList (s\<lparr>Mutex := True\<rparr>) 1 = Inr (Some a)"
    using find_registered [OF assms(1), of 1] assms(2) by (simp add: findThreadFromIdInList_def)
  show ?thesis
    using assms(1,3,4) by (simp add: cancelThread_def l f get_obj_def Let_def split_beta)
      (auto simp: moves_def threads_ok_def)
qed

lemma cancelThread_unknown:
  assumes "threads_ok s" "i \<noteq> 1 \<or> registered s = None"
  shows "cancelThread E i s = Inr (- 1, s\<lparr>Mutex := True\<rparr>)"
proof -
  have l: "lock s = Inr (s\<lparr>Mutex := True\<rparr>)" using assms(1) by (simp add: lock_def threads_ok_def)
  have f: "findThreadFromIdInList (s\<lparr>Mutex := True\<rparr>) i = Inr None"
    using find_registered [OF assms(1), of i] assms(2) by (auto simp: findThreadFromIdInList_def)
  show ?thesis by (simp add: cancelThread_def l f)
qed

lemma JoinThread_result:
  assumes "threads_ok s" "registered s = Some a" "objects s a = Some t" "threadHandle t \<noteq> 0" "isJoinable t"
    and "length (destructorList t) \<le> 1" "quiet dtor"
  shows "\<exists>r s'. JoinThread E dtor 1 s = Inr (r, s') \<and> threads_ok s' \<and>
    wifi s' = wifi s \<and> blocks s' = blocks s \<and> brk s' = brk s \<and>
    (if r = 0 then threadList s' = [] \<and> objects s' = (objects s)(a := None)
     else r \<in> {- 1, - 2, - 3} \<and> threadList s' = threadList s \<and> objects s' = objects s \<and> moves s s')"
proof -
  note look = find_locked_registered [OF assms(1), of 1]
  let ?s2 = "snd (ask E (Pthread_join (threadHandle t)) s)" and ?r = "fst (ask E (Pthread_join (threadHandle t)) s)"
  have list: "threadList s = [a]" and free: "\<not> Mutex s" and below: "\<forall>b. objects s b \<noteq> None \<longrightarrow> b < next_obj s"
    using registered_live [OF assms(1,2)] assms(1) by (auto simp: threads_ok_def)
  show ?thesis
  proof (cases "?r = 0")
    case False
    with look assms show ?thesis
      by (auto simp: JoinThread_def get_obj_def Let_def split_beta moves_def)
  next
    case True
    have "\<exists>s3 t3. (if threadState t = THREAD_STATE_DYING then Inr ?s2 else CleanupThread E dtor a ?s2) = Inr s3 \<and>
      objects s3 = (objects s)(a \<mapsto> t3) \<and> threadList s3 = [a] \<and> \<not> Mutex s3 \<and> next_obj s3 = next_obj s \<and>
      wifi s3 = wifi s \<and> blocks s3 = blocks s \<and> brk s3 = brk s"
    proof (cases "threadState t = THREAD_STATE_DYING")
      case True
      then show ?thesis using assms(3) list free
        by (intro exI [of _ ?s2] exI [of _ t]) (simp add: fun_upd_idem)
    next
      case False
      have "objects ?s2 a = Some t" using assms(3) by simp
      from CleanupThread_result [OF assms(7) this assms(5,6), of E] False list free show ?thesis
        by (simp only: if_False ask_simps) blast
    qed
    then obtain s3 t3 where s3: "(if threadState t = THREAD_STATE_DYING then Inr ?s2 else CleanupThread E dtor a ?s2) = Inr s3"
      "objects s3 = (objects s)(a \<mapsto> t3)" "threadList s3 = [a]" "\<not> Mutex s3" "next_obj s3 = next_obj s"
      "wifi s3 = wifi s" "blocks s3 = blocks s" "brk s3 = brk s"
      by blast
    have l: "lock s3 = Inr (s3\<lparr>Mutex := True\<rparr>)" using s3(4) by (simp add: lock_def)
    have ok: "threads_ok s'" if "threadList s' = []" "\<not> Mutex s'" "objects s' = (objects s)(a := None)"
      "next_obj s' = next_obj s" for s' :: "'a threads_scheme"
      using that below by (auto simp: threads_ok_def)
    let ?t4 = "t3\<lparr>ThreadObjListChangeCount := ThreadObjListChangeCount t3 + 1\<rparr>"
    let ?s5 = "(put_obj a ?t4 (s3\<lparr>Mutex := True\<rparr>))\<lparr>threadList := []\<rparr>"
    let ?s6 = "(unlock ?s5)\<lparr>objects := (objects s)(a := None)\<rparr>"
    obtain s2 where a: "ask E (Pthread_join (threadHandle t)) s = (0, s2)"
      using True by (metis prod.collapse)
    have s3': "(if threadState t = THREAD_STATE_DYING then Inr s2 else CleanupThread E dtor a s2) = Inr s3"
      using s3(1) by (simp only: a snd_conv)
    have "JoinThread E dtor 1 s = Inr (0, ?s6)"
      unfolding JoinThread_def look bindE_simps case_prod_conv assms(2) option.case
      using assms(3-5)
      by (simp add: s3' s3(2-) del: bindE_eq_Inr if_split add: get_obj_def a l unlink_def DeleteThread_def)
    moreover have "threads_ok ?s6" using s3 by (intro ok) simp_all
    moreover have "wifi ?s6 = wifi s" "blocks ?s6 = blocks s" "brk ?s6 = brk s" "threadList ?s6 = []"
      "objects ?s6 = (objects s)(a := None)" using s3(6-8) by simp_all
    ultimately show ?thesis unfolding if_bool_eq_conj by blast
  qed
qed

section \<open>The registry whoever holds the mutex\<close>

text \<open>
  What is left of a well-formed registry when an operation has returned with the mutex held: the list holds no pointer to
  a freed object.
\<close>

definition registry_ok :: "'a threads_scheme \<Rightarrow> bool" where
  "registry_ok s \<longleftrightarrow> (threadList s = [] \<or> (\<exists>a t. threadList s = [a] \<and> objects s a = Some t \<and> threadId t = 1)) \<and>
     (\<forall>b. objects s b \<noteq> None \<longrightarrow> b < next_obj s)"

lemma threads_ok_registry: "threads_ok s \<longleftrightarrow> \<not> Mutex s \<and> registry_ok s"
  by (auto simp: threads_ok_def registry_ok_def)

lemma registry_ok_cong:
  "objects s' = objects s \<Longrightarrow> threadList s' = threadList s \<Longrightarrow> next_obj s' = next_obj s \<Longrightarrow> registry_ok s' = registry_ok s"
  by (simp add: registry_ok_def)

lemma registry_ok_steps [simp]:
  "registry_ok (snd (ask E c s)) = registry_ok s" "registry_ok (unlock s) = registry_ok s"
  "registry_ok (s\<lparr>Mutex := m\<rparr>) = registry_ok s"
  by (rule registry_ok_cong; simp)+

lemma registry_ok_put:
  "registry_ok s \<Longrightarrow> map_option threadId (objects s a) = Some (threadId t') \<Longrightarrow> registry_ok (put_obj a t' s)"
  by (auto simp: registry_ok_def)

lemma get_obj_Inr: "get_obj a s = Inr t \<longleftrightarrow> objects s a = Some t"
  by (simp add: get_obj_def split: option.split)

lemma find_locked_frame: "find_locked i s = Inr (p, s') \<Longrightarrow> objects s' = objects s \<and> registry_ok s' = registry_ok s"
  by (auto simp: find_locked_def lock_def split: if_splits)

lemma registry_setThreadJoinable:
  assumes "setThreadJoinable E i s = Inr (r, s')" "registry_ok s"
  shows "registry_ok s'"
proof -
  obtain p s1 where f: "find_locked i s = Inr (p, s1)" using assms(1) by (auto simp: setThreadJoinable_def)
  have s1: "registry_ok s1" using find_locked_frame [OF f] assms(2) by simp
  show ?thesis
  proof (cases p)
    case None
    with f s1 assms(1) show ?thesis by (simp add: setThreadJoinable_def)
  next
    case (Some a)
    then obtain t where t: "objects s1 a = Some t" using f assms(1) by (auto simp: setThreadJoinable_def get_obj_Inr)
    show ?thesis
    proof (cases "threadState t = THREAD_STATE_NEW")
      case False
      with f s1 assms(1) Some t show ?thesis by (simp add: setThreadJoinable_def get_obj_def)
    next
      case True
      with f assms(1) Some t show ?thesis
        by (simp add: setThreadJoinable_def get_obj_def Let_def split_beta split: if_splits) (auto intro!: registry_ok_put s1)
    qed
  qed
qed

lemma registry_addDestructor:
  assumes "addDestructorToThread E i d c s = Inr (r, s')" "registry_ok s"
  shows "registry_ok s'"
proof -
  obtain p s1 where f: "find_locked i s = Inr (p, s1)" using assms(1) by (auto simp: addDestructorToThread_def)
  have s1: "registry_ok s1" using find_locked_frame [OF f] assms(2) by simp
  with f assms(1) show ?thesis
    by (auto simp: addDestructorToThread_def AddDestructor_def get_obj_Inr Let_def split_beta intro!: registry_ok_put
        split: option.splits if_splits)
qed

lemma registry_startThread:
  assumes "startThread E i s = Inr (r, s')" "registry_ok s"
  shows "registry_ok s'"
proof -
  obtain p s1 where f: "find_locked i s = Inr (p, s1)" using assms(1) by (auto simp: startThread_def)
  have s1: "registry_ok s1" using find_locked_frame [OF f] assms(2) by simp
  show ?thesis
  proof (cases p)
    case None
    with f s1 assms(1) show ?thesis by (simp add: startThread_def)
  next
    case (Some a)
    then obtain t where t: "objects s1 a = Some t" using f assms(1) by (auto simp: startThread_def get_obj_Inr)
    show ?thesis
    proof (cases "threadState t = THREAD_STATE_NEW")
      case False
      with f s1 assms(1) Some t show ?thesis by (simp add: startThread_def get_obj_def)
    next
      case True
      with f assms(1) Some t show ?thesis
        by (simp add: startThread_def get_obj_def Let_def split_beta split: if_splits) (auto intro!: registry_ok_put s1)
    qed
  qed
qed

lemma registry_cancelThread: "cancelThread E i s = Inr (r, s') \<Longrightarrow> registry_ok s \<Longrightarrow> registry_ok s'"
  unfolding cancelThread_def
  by (auto simp: get_obj_Inr Let_def split_beta lock_def split: option.splits if_splits)

lemma registry_CreateThread:
  assumes "CreateThread E name m ctx s = Inr (p, s')" "registry_ok s"
  shows "registry_ok s'"
proof (cases "Mutex s")
  case False
  with assms(2) have "threads_ok s" by (simp add: threads_ok_registry)
  from CreateThread_result [OF this, of E name m ctx] assms(1) show ?thesis by (auto simp: threads_ok_registry)
next
  case True
  have fresh: "objects s (next_obj s) = None" using assms(2) by (auto simp: registry_ok_def)
  have new: "registry_ok (put_obj (next_obj s) t u)" if "objects u = objects s" "threadList u = threadList s" "next_obj u = Suc (next_obj s)" for t u
    using that assms(2) fresh by (auto simp: registry_ok_def less_SucI)
  from assms(1) True show ?thesis
    by (auto simp: CreateThread_def Let_def split_beta lock_def intro!: new split: if_splits)
qed

definition tame ::
    "(destructor_ptr \<Rightarrow> string \<Rightarrow> 'a threads_scheme \<Rightarrow> fault + 'a threads_scheme) \<Rightarrow> bool" where
  "tame dtor \<longleftrightarrow> (\<forall>f c s s1. dtor f c s = Inr s1 \<longrightarrow> registry_frame s s1)"

lemma registry_frame_ok: "registry_frame s s1 \<Longrightarrow> registry_ok s1 = registry_ok s"
  by (rule registry_ok_cong) (simp_all add: registry_frame_def)

lemma registry_run_destructors:
  assumes "tame dtor" "run_destructors dtor a s = Inr s'" "registry_ok s"
  shows "registry_ok s'"
proof -
  obtain t where t: "objects s a = Some t" using assms(2) by (auto simp: run_destructors_def get_obj_Inr)
  show ?thesis
  proof (cases "destructorList t")
    case Nil
    with assms t show ?thesis by (simp add: run_destructors_def get_obj_def)
  next
    case (Cons d ds)
    with assms(2) t obtain s1 where s1: "(case destructor d of None \<Rightarrow> Inr s | Some f \<Rightarrow> dtor f (d_context d) s) = Inr s1"
      and rest: "\<exists>t1. objects s1 a = Some t1 \<and> s' = put_obj a (t1\<lparr>destructorList := tl (destructorList t1)\<rparr>) s1"
      by (auto simp: run_destructors_def get_obj_def Let_def split: if_splits option.splits)
    have "registry_frame s s1" using s1 assms(1) by (auto simp: tame_def registry_frame_def split: option.splits)
    with rest assms(3) show ?thesis by (auto simp: registry_frame_ok intro!: registry_ok_put)
  qed
qed

lemma registry_CleanupThread:
  assumes "tame dtor" "CleanupThread E dtor a s = Inr s'" "registry_ok s"
  shows "registry_ok s'"
proof -
  from assms(2) obtain t0 s1 t s4 where c: "objects s a = Some t0"
    "run_destructors dtor a (put_obj a (t0\<lparr>threadState := THREAD_STATE_DYING\<rparr>) s) = Inr s1" "objects s1 a = Some t"
    "(if isJoinable t then Inr s1 else bindE (lock s1) (\<lambda>s2. bindE (unlink a s2) (\<lambda>s3. DeleteThread a (unlock s3)))) = Inr s4"
    "registry_ok s' = registry_ok s4"
    by (auto simp: CleanupThread_def get_obj_Inr Let_def split_beta)
  have "registry_ok s1" using registry_run_destructors [OF assms(1) c(2)] c(1) assms(3) by (simp add: registry_ok_put)
  with c(4) have "registry_ok s4"
    by (auto simp: lock_def unlink_def DeleteThread_def registry_ok_def split: if_splits)
  with c(5) show ?thesis by simp
qed

lemma registry_JoinThread:
  assumes "tame dtor" "JoinThread E dtor i s = Inr (r, s')" "registry_ok s"
  shows "registry_ok s'"
proof -
  obtain p s1 where f: "find_locked i s = Inr (p, s1)" using assms(2) by (auto simp: JoinThread_def)
  have s1: "registry_ok s1" using find_locked_frame [OF f] assms(3) by simp
  show ?thesis
  proof (cases p)
    case None
    with assms(2) f s1 show ?thesis by (simp add: JoinThread_def)
  next
    case (Some a)
    then obtain t where t: "objects s1 a = Some t" using assms(2) f by (auto simp: JoinThread_def get_obj_Inr)
    let ?s2 = "snd (ask E (Pthread_join (threadHandle t)) s1)"
    have s2: "registry_ok ?s2" using s1 by simp
    show ?thesis
    proof (cases "isJoinable t \<and> threadHandle t \<noteq> 0 \<and> fst (ask E (Pthread_join (threadHandle t)) s1) = 0")
      case False
      with assms(2) f Some t s2 s1 show ?thesis
        by (auto simp: JoinThread_def get_obj_def Let_def split_beta split: if_splits)
    next
      case True
      from assms(2) f Some t True obtain s3 where
        s3: "(if threadState t = THREAD_STATE_DYING then Inr ?s2 else CleanupThread E dtor a ?s2) = Inr s3"
        and e: "\<exists>t'. objects s3 a = Some t' \<and> a \<in> set (threadList s3) \<and>
          s' = (unlock ((put_obj a (t'\<lparr>ThreadObjListChangeCount := ThreadObjListChangeCount t' + 1\<rparr>) (s3\<lparr>Mutex := True\<rparr>))
            \<lparr>threadList := remove1 a (threadList s3)\<rparr>))\<lparr>objects := (objects s3)(a := None)\<rparr>"
        by (auto simp: JoinThread_def get_obj_def Let_def split_beta lock_def unlink_def DeleteThread_def split: if_splits option.splits)
      have "registry_ok s3" using s3 s2 registry_CleanupThread [OF assms(1)] by (auto split: if_splits)
      with e show ?thesis by (auto simp: registry_ok_def split: if_splits)
    qed
  qed
qed

lemma registry_prologue: "thread_prologue E a s = Inr s' \<Longrightarrow> registry_ok s \<Longrightarrow> registry_ok s'"
  by (auto simp: thread_prologue_def get_obj_Inr Let_def intro!: registry_ok_put)

text \<open>In such a registry a look-up never meets a freed object.\<close>

lemma registry_lookup: "registry_ok s \<Longrightarrow> \<exists>p. findThreadFromIdInList s i = Inr p"
  by (auto simp: registry_ok_def findThreadFromIdInList_def)

section \<open>When nothing fails\<close>

text \<open>An environment in which every call reports success.\<close>

definition calm :: "env \<Rightarrow> bool" where
  "calm E \<longleftrightarrow> (\<forall>h c. answer E h c = 0)"

lemma calm_calm_env: "calm calm_env"
  by (simp add: calm_def calm_env_def)

lemma calm_ask: "calm E \<Longrightarrow> ask E c s = (0, s\<lparr>calls := calls s @ [c]\<rparr>)"
  by (simp add: calm_def ask_def)

lemma registeredI: "threadList s = [a] \<Longrightarrow> registered s = Some a"
  by (simp add: registered_def)

lemma calm_CreateThread:
  assumes "threads_ok s" "calm E" "NUL \<notin> set name" "\<not> overreads name 24"
  shows "\<exists>s' t. CreateThread E name m ctx s = Inr (Some (next_obj s), s') \<and> threads_ok s' \<and> moves s s' \<and>
    threadList s' = [next_obj s] \<and> objects s' = (objects s)(next_obj s \<mapsto> t) \<and> threadId t = 1 \<and>
    threadState t = THREAD_STATE_NEW \<and> isJoinable t = False \<and> destructorList t = [] \<and> threadContext t = ctx \<and>
    mainFunc t = m \<and> threadHandle t = 0"
proof -
  obtain r nm k where u: "utf8_Copy (replicate 24 NUL) (cstr name @ [NUL]) 24 = Inr (r, nm, k)"
    using utf8_Copy_overreads [OF assms(3), of 24 "replicate 24 NUL"] assms(3,4) by auto
  from assms(1) have free: "\<not> Mutex s" and "objects s (next_obj s) = None" and
    below: "\<forall>b. objects s b \<noteq> None \<longrightarrow> b < next_obj s"
    by (auto simp: threads_ok_def)
  then show ?thesis
    by (simp add: CreateThread_def calm_ask [OF assms(2)] u lock_def Let_def)
      (auto simp: threads_ok_def moves_def less_SucI)
qed

lemma calm_prepare:
  assumes "threads_ok s" "calm E" "threadList s = [a]" "objects s a = Some t" "threadState t = THREAD_STATE_NEW"
  shows "\<exists>s'. setThreadJoinable E 1 s = Inr (0, s') \<and> threads_ok s' \<and> moves s s' \<and> threadList s' = [a] \<and>
      objects s' = (objects s)(a \<mapsto> t\<lparr>isJoinable := True, attr_joinable := True\<rparr>)"
    and "\<exists>s'. addDestructorToThread E 1 d c s = Inr (0, s') \<and> threads_ok s' \<and> moves s s' \<and> threadList s' = [a] \<and>
      objects s' = (objects s)(a \<mapsto> t\<lparr>destructorList := destructorList t @ [\<lparr>destructor = d, d_context = c\<rparr>]\<rparr>)"
    and "\<exists>s'. startThread E 1 s = Inr (0, s') \<and> threads_ok s' \<and> moves s s' \<and> threadList s' = [a] \<and>
      objects s' = (objects s)(a \<mapsto> t\<lparr>threadState := THREAD_STATE_RUNNING, threadHandle := Suc a\<rparr>)"
proof -
  note look = find_locked_registered [OF assms(1), of 1]
  note reg = registeredI [OF assms(3)]
  show "\<exists>s'. setThreadJoinable E 1 s = Inr (0, s') \<and> threads_ok s' \<and> moves s s' \<and> threadList s' = [a] \<and>
      objects s' = (objects s)(a \<mapsto> t\<lparr>isJoinable := True, attr_joinable := True\<rparr>)"
    using assms(1,3-5)
    by (simp add: setThreadJoinable_def look reg get_obj_def calm_ask [OF assms(2)] Let_def)
      (auto simp: threads_ok_def moves_def)
  show "\<exists>s'. addDestructorToThread E 1 d c s = Inr (0, s') \<and> threads_ok s' \<and> moves s s' \<and> threadList s' = [a] \<and>
      objects s' = (objects s)(a \<mapsto> t\<lparr>destructorList := destructorList t @ [\<lparr>destructor = d, d_context = c\<rparr>]\<rparr>)"
    using assms(1,3-5)
    by (simp add: addDestructorToThread_def AddDestructor_def look reg get_obj_def calm_ask [OF assms(2)] Let_def)
      (auto simp: threads_ok_def moves_def)
  show "\<exists>s'. startThread E 1 s = Inr (0, s') \<and> threads_ok s' \<and> moves s s' \<and> threadList s' = [a] \<and>
      objects s' = (objects s)(a \<mapsto> t\<lparr>threadState := THREAD_STATE_RUNNING, threadHandle := Suc a\<rparr>)"
    using assms(1,3-5)
    by (simp add: startThread_def look reg get_obj_def calm_ask [OF assms(2)] Let_def)
      (auto simp: threads_ok_def moves_def new_least)
qed

lemma calm_cancelThread:
  assumes "threads_ok s" "calm E" "threadList s = [a]" "objects s a = Some t" "threadHandle t \<noteq> 0"
  shows "\<exists>s'. cancelThread E 1 s = Inr (0, s') \<and> threads_ok s' \<and> moves s s' \<and> threadList s' = [a] \<and> objects s' = objects s"
proof -
  have l: "lock s = Inr (s\<lparr>Mutex := True\<rparr>)" using assms(1) by (simp add: lock_def threads_ok_def)
  have f: "findThreadFromIdInList (s\<lparr>Mutex := True\<rparr>) 1 = Inr (Some a)"
    using find_registered [OF assms(1), of 1] registeredI [OF assms(3)] by (simp add: findThreadFromIdInList_def)
  show ?thesis
    using assms(1,3-5)
    by (simp add: cancelThread_def l f get_obj_def calm_ask [OF assms(2)] Let_def) (auto simp: threads_ok_def moves_def)
qed

lemma calm_JoinThread:
  assumes "threads_ok s" "calm E" "threadList s = [a]" "objects s a = Some t" "threadHandle t \<noteq> 0" "isJoinable t"
    and "length (destructorList t) \<le> 1" "quiet dtor"
  shows "\<exists>s'. JoinThread E dtor 1 s = Inr (0, s') \<and> threads_ok s' \<and> threadList s' = [] \<and> objects s' = (objects s)(a := None)"
proof -
  obtain r s' where j: "JoinThread E dtor 1 s = Inr (r, s')" "threads_ok s'"
    "if r = 0 then threadList s' = [] \<and> objects s' = (objects s)(a := None)
     else r \<in> {- 1, - 2, - 3} \<and> threadList s' = threadList s \<and> objects s' = objects s \<and> moves s s'"
    using JoinThread_result [OF assms(1) registeredI [OF assms(3)] assms(4-8), of E] by blast
  have "r = 0"
    using j(1) find_locked_registered [OF assms(1), of 1] registeredI [OF assms(3)] assms(4-6)
    by (auto simp: JoinThread_def get_obj_def calm_ask [OF assms(2)])
  with j show ?thesis by simp
qed

section \<open>Properties\<close>

text \<open>
  On a well-formed registry the three operations that prepare and start a thread return (the one that
  allocates may instead run into an unchecked failed allocation), keep the registry well-formed with
  its mutex free, keep every thread object, and never move the state of a thread backwards.
\<close>

lemma registry_operations_keep_threads:
  assumes "threads_ok s"
  shows "(\<exists>r s'. setThreadJoinable E i s = Inr (r, s') \<and> threads_ok s' \<and> moves s s') \<and>
    (addDestructorToThread E i d ctx s = Inl Null_deref \<or>
      (\<exists>r s'. addDestructorToThread E i d ctx s = Inr (r, s') \<and> threads_ok s' \<and> moves s s')) \<and>
    (\<exists>r s'. startThread E i s = Inr (r, s') \<and> threads_ok s' \<and> moves s s')"
  using setThreadJoinable_result [OF assms, of E i] addDestructor_result [OF assms, of E i d ctx]
    startThread_result [OF assms, of E i] by blast

text \<open>A registry with one new thread.\<close>

definition new_thread :: thread_Obj where
  "new_thread = \<lparr>threadId = 1, threadName = ''WifiApThread'' @ replicate 12 NUL, attr_joinable = False, priority = 0,
     isJoinable = False, threadState = THREAD_STATE_NEW, mainFunc = Ptr_WifiApThreadMainFunc,
     threadContext = Some 0, destructorList = [], threadHandle = 0, ThreadObjListChangeCount = 1,
     setPidOnStart = False, procId = 0\<rparr>"

definition one_thread :: threads where
  "one_thread = \<lparr>files = Map.empty, calls = [], blocks = [0 \<mapsto> ''wlan0''], brk = 1,
     wifi = zero_wifi\<lparr>interfaceName := Some 0\<rparr>, objects = [7 \<mapsto> new_thread], next_obj = 8, threadList = [7],
     Mutex = False\<rparr>"

lemma threads_ok_one_thread: "threads_ok one_thread"
  by (simp add: threads_ok_def one_thread_def new_thread_def)

lemma registry_operations_keep_threads_example:
  "\<exists>r s'. startThread calm_env 1 one_thread = Inr (r, s') \<and> threads_ok s' \<and> moves one_thread s'"
  using registry_operations_keep_threads [OF threads_ok_one_thread, of calm_env 1 None "[]"] by blast

text \<open>
  \<open>CreateThread\<close> empties the list before it adds the new object, and gives every thread the id 1: the
  new thread is the only one that can be found, and every thread created before stays allocated without
  anything that could find, join or free it.
\<close>

lemma CreateThread_forgets_the_others:
  assumes "threads_ok s" "CreateThread E name m ctx s = Inr (Some a, s')"
  shows "threads_ok s' \<and> threadList s' = [a] \<and>
    findThreadFromIdInList s' i = Inr (if i = 1 then Some a else None) \<and>
    (\<forall>b t. objects s b = Some t \<longrightarrow> objects s' b = Some t \<and> b \<noteq> a)"
proof -
  from CreateThread_result [OF assms(1), of E name m ctx] assms(2)
  have r: "threads_ok s'" "\<forall>b. b \<noteq> next_obj s \<longrightarrow> objects s' b = objects s b" "a = next_obj s" "threadList s' = [a]"
    by auto
  moreover have "objects s (next_obj s) = None" using assms(1) by (auto simp: threads_ok_def)
  ultimately show ?thesis
    using find_registered [OF r(1), of i] registeredI [OF r(4)] by (auto; metis option.distinct(1))
qed

lemma CreateThread_forgets_the_others_example:
  "\<exists>s'. CreateThread calm_env ''WifiApThread'' Ptr_WifiApThreadMainFunc (Some 0) one_thread = Inr (Some 8, s') \<and>
     threadList s' = [8] \<and> objects s' 7 = Some new_thread"
proof -
  have n: "NUL \<notin> set ''WifiApThread''" "\<not> overreads ''WifiApThread'' 24" by code_simp+
  obtain s' where s': "CreateThread calm_env ''WifiApThread'' Ptr_WifiApThreadMainFunc (Some 0) one_thread = Inr (Some 8, s')"
    using calm_CreateThread [OF threads_ok_one_thread calm_calm_env n, of Ptr_WifiApThreadMainFunc "Some 0"]
    by (auto simp: one_thread_def)
  have o: "objects one_thread 7 = Some new_thread" by (simp add: one_thread_def)
  from CreateThread_forgets_the_others [OF threads_ok_one_thread s', of 1] s' o show ?thesis by blast
qed

text \<open>
  C35. \<open>cancelThread\<close> of a thread that is not registered returns -1 with the mutex still locked: from then
  on every operation of the module that looks up a thread blocks for ever.
\<close>

theorem cancelThread_keeps_the_mutex:
  assumes "threads_ok s" "i \<noteq> 1 \<or> registered s = None"
  shows "\<exists>s'. cancelThread E i s = Inr (- 1, s') \<and> setThreadJoinable F j s' = Inl Deadlock \<and>
    addDestructorToThread F j d c s' = Inl Deadlock \<and> startThread F j s' = Inl Deadlock \<and>
    cancelThread F j s' = Inl Deadlock \<and> JoinThread F dtor j s' = Inl Deadlock"
proof -
  have held: "Mutex (s\<lparr>Mutex := True\<rparr>)" by simp
  show ?thesis
    using mutex.acquire_held [OF held] cancelThread_unknown [OF assms, of E]
    by (simp add: setThreadJoinable_def addDestructorToThread_def startThread_def JoinThread_def find_locked_def
        cancelThread_def [of F])
qed

theorem cancelThread_keeps_the_mutex_witness:
  "\<exists>s'. cancelThread calm_env 2 one_thread = Inr (- 1, s') \<and> startThread calm_env 1 s' = Inl Deadlock"
  using cancelThread_keeps_the_mutex [OF threads_ok_one_thread, of 2 calm_env calm_env 1 None "[]" "\<lambda>_ _ s. Inr s"]
  by auto

text \<open>
  C21. The whole life of a thread, from a well-formed registry, when no call fails, the destructor returns and leaves the
  registry and the heap alone, and the name has no character cut by its end that would fit the 24 bytes of the copy: create, make joinable, add a
  destructor, start, cancel and join all report success. In the end the object of the thread is gone and every other object is as it
  was; the list is empty and the mutex free. Empty also if a thread was registered before: its object stays, but nothing finds
  it any more. Cancelling once more then reports that there is no thread.
\<close>

theorem thread_life_cycle:
  assumes "threads_ok s" "calm E" "NUL \<notin> set name" "\<not> overreads name 24" "quiet dtor"
  shows "\<exists>s1 s2 s3 s4 s5 s6. CreateThread E name m ctx s = Inr (Some (next_obj s), s1) \<and>
    setThreadJoinable E 1 s1 = Inr (0, s2) \<and> addDestructorToThread E 1 (Some f) c s2 = Inr (0, s3) \<and>
    startThread E 1 s3 = Inr (0, s4) \<and> cancelThread E 1 s4 = Inr (0, s5) \<and> JoinThread E dtor 1 s5 = Inr (0, s6) \<and>
    threads_ok s6 \<and> \<not> Mutex s6 \<and> objects s6 = objects s \<and> threadList s6 = [] \<and>
    (\<forall>i. findThreadFromIdInList s6 i = Inr None) \<and> fst (sum.projr (cancelThread E 1 s6)) = - 1"
proof -
  obtain s1 t where s1: "CreateThread E name m ctx s = Inr (Some (next_obj s), s1)" "threads_ok s1"
    "threadList s1 = [next_obj s]" "objects s1 = (objects s)(next_obj s \<mapsto> t)" "threadState t = THREAD_STATE_NEW"
    "destructorList t = []"
    using calm_CreateThread [OF assms(1-4), of m ctx] by blast
  obtain s2 t2 where s2: "setThreadJoinable E 1 s1 = Inr (0, s2)" "threads_ok s2" "threadList s2 = [next_obj s]"
    "objects s2 = (objects s)(next_obj s \<mapsto> t2)" "threadState t2 = THREAD_STATE_NEW" "destructorList t2 = []" "isJoinable t2"
    using calm_prepare(1) [OF s1(2) assms(2) s1(3)] s1(4-6) by force
  obtain s3 t3 where s3: "addDestructorToThread E 1 (Some f) c s2 = Inr (0, s3)" "threads_ok s3"
    "threadList s3 = [next_obj s]" "objects s3 = (objects s)(next_obj s \<mapsto> t3)" "threadState t3 = THREAD_STATE_NEW"
    "length (destructorList t3) \<le> 1" "isJoinable t3"
    using calm_prepare(2) [OF s2(2) assms(2) s2(3)] s2(4-7) by force
  obtain s4 t4 where s4: "startThread E 1 s3 = Inr (0, s4)" "threads_ok s4" "threadList s4 = [next_obj s]"
    "objects s4 = (objects s)(next_obj s \<mapsto> t4)" "length (destructorList t4) \<le> 1" "isJoinable t4" "threadHandle t4 \<noteq> 0"
    using calm_prepare(3) [OF s3(2) assms(2) s3(3)] s3(4-7) by force
  obtain s5 where s5: "cancelThread E 1 s4 = Inr (0, s5)" "threads_ok s5" "threadList s5 = [next_obj s]" "objects s5 = objects s4"
    using calm_cancelThread [OF s4(2) assms(2) s4(3)] s4(4,7) by force
  obtain s6 where s6: "JoinThread E dtor 1 s5 = Inr (0, s6)" "threads_ok s6" "threadList s6 = []"
    "objects s6 = (objects s5)(next_obj s := None)"
    using calm_JoinThread [OF s5(2) assms(2) s5(3) _ s4(7,6,5) assms(5)] s5(4) s4(4) by force
  have "objects s (next_obj s) = None" using assms(1) by (auto simp: threads_ok_def)
  then have "objects s6 = objects s" using s6(4) s5(4) s4(4) by auto
  moreover have "cancelThread E 1 s6 = Inr (- 1, s6\<lparr>Mutex := True\<rparr>)"
    using s6(3) by (intro cancelThread_unknown [OF s6(2)]) (simp add: registered_def)
  moreover have "\<not> Mutex s6" using s6(2) by (simp add: threads_ok_def)
  moreover have "\<forall>i. findThreadFromIdInList s6 i = Inr None" using s6(3) by (simp add: findThreadFromIdInList_def)
  ultimately show ?thesis using s1(1) s2(1) s3(1) s4(1) s5(1) s6(1-3) by (metis fst_conv sum.sel(2))
qed

theorem thread_life_cycle_witness:
  "threadList one_thread = [7] \<and>
   (\<exists>s1 s2 s3 s4 s5 s6. CreateThread calm_env ''t'' Ptr_WifiApThreadMainFunc None one_thread = Inr (Some 8, s1) \<and>
     setThreadJoinable calm_env 1 s1 = Inr (0, s2) \<and>
     addDestructorToThread calm_env 1 (Some Ptr_threadDestructorFunc) [] s2 = Inr (0, s3) \<and>
     startThread calm_env 1 s3 = Inr (0, s4) \<and> cancelThread calm_env 1 s4 = Inr (0, s5) \<and>
     JoinThread calm_env (\<lambda>_ _ s. Inr s) 1 s5 = Inr (0, s6) \<and> threadList s6 = [] \<and> objects s6 7 = Some new_thread)"
proof -
  have q: "quiet (\<lambda>_ _ s. Inr s)" by (simp add: quiet_def registry_frame_def)
  have a: "NUL \<notin> set ''t''" "\<not> overreads ''t'' 24" by code_simp+
  have o: "next_obj one_thread = 8" "objects one_thread 7 = Some new_thread" "threadList one_thread = [7]"
    by (simp_all add: one_thread_def)
  from thread_life_cycle [OF threads_ok_one_thread calm_calm_env a q, of Ptr_WifiApThreadMainFunc None Ptr_threadDestructorFunc "[]"]
  show ?thesis unfolding o(1) using o(2,3) by force
qed

end
