(* ===== verification/Events.thy ===== *)
theory Events
  imports Threads
begin

text \<open>
  The client event thread of \<open>src/wifiAp.c\<close>: it reads the output of \<open>iw event\<close> line by line and
  pushes an event for every station that joins or leaves the interface. Its context is a pointer to the
  interface name the binding held when the thread was created.
\<close>

section \<open>State\<close>

text \<open>
  \<open>IwThreadPipePtr\<close> holds what the stream has still to deliver, None for NULL. \<open>clients\<close> gives the local
  variable \<open>numberOfClientsConnected\<close> of each thread that is in its reading loop, by thread object.
\<close>

record service = threads +
  wifiApThreadPtr :: "nat option"
  IwThreadPipePtr :: "string option"
  clients :: "nat \<rightharpoonup> int"

definition PATH_MAX :: nat where "PATH_MAX = 8192"

section \<open>Reading a line\<close>

text \<open>The first token of \<open>strtok_r(path, ":", ...)\<close>.\<close>

definition strtok_colon :: "string \<Rightarrow> string option" where
  "strtok_colon s =
     (let t = dropWhile (\<lambda>c. c = CHR '':'') s
      in if t = [] then None else Some (takeWhile (\<lambda>c. c \<noteq> CHR '':'') t))"

text \<open>
  \<open>memcpy(eventInfo, msg, 22)\<close> and \<open>eventInfo[22] = 0\<close>: the string the buffer then holds.
\<close>

definition event_info :: "string \<Rightarrow> string" where
  "event_info msg = cstr (take 22 (msg @ [NUL]) @ [NUL])"

definition push_json_event :: "env \<Rightarrow> string \<Rightarrow> int \<Rightarrow> 'a world_scheme \<Rightarrow> 'a world_scheme" where
  "push_json_event E msg n s =
     (let (r, s1) = ask E (Create_data msg) s in
      if r \<noteq> 0 then s1 else snd (ask E (Push_event msg n) s1))"

text \<open>One iteration of the loop, on the line just read; the result is the new counter.\<close>

definition event_line ::
    "env \<Rightarrow> nat option \<Rightarrow> string \<Rightarrow> int \<Rightarrow> 'a strings_scheme \<Rightarrow> fault + (int \<times> 'a strings_scheme)" where
  "event_line E ctx line n s =
     (let path = cstr line in
      if strstr path ''del station'' then
        (case strtok_colon path of
           None \<Rightarrow> Inr (n, s)
         | Some ret \<Rightarrow> bindE (deref ctx s) (\<lambda>iface.
             if strstr ret iface
             then Inr (n - 1, push_json_event E (event_info ''WiFi client disconnected'') (n - 1) s)
             else Inr (n, s)))
      else if strstr path ''new station'' then
        (case strtok_colon path of
           None \<Rightarrow> Inr (n, s)
         | Some ret \<Rightarrow> bindE (deref ctx s) (\<lambda>iface.
             if strstr ret iface
             then Inr (n + 1, push_json_event E (event_info ''WiFi client connected'') (n + 1) s)
             else Inr (n, s)))
      else Inr (n, s))"

text \<open>The loop on what the stream delivers; \<open>fgets\<close> gets one byte less than the buffer has.\<close>

function event_loop ::
    "env \<Rightarrow> nat option \<Rightarrow> string \<Rightarrow> int \<Rightarrow> 'a strings_scheme \<Rightarrow> fault + (int \<times> 'a strings_scheme)" where
  "event_loop E ctx stream n s =
     (case fgets (PATH_MAX - 1) stream of
        None \<Rightarrow> Inr (n, s)
      | Some (line, rest) \<Rightarrow> bindE (event_line E ctx line n s) (\<lambda>(n', s'). event_loop E ctx rest n' s'))"
  by pat_completeness auto
termination
  by (relation "measure (\<lambda>(E, ctx, stream, n, s). length stream)") (auto dest: fgets_progress)

declare event_loop.simps [simp del]

definition WifiApThreadMainFunc :: "env \<Rightarrow> nat option \<Rightarrow> 'a service_scheme \<Rightarrow> fault + 'a service_scheme" where
  "WifiApThreadMainFunc E ctx s =
     (let (pipe, s1) = popen E ''iw event'' s; s2 = s1\<lparr>IwThreadPipePtr := pipe\<rparr> in
      case pipe of
        None \<Rightarrow> Inr s2
      | Some stream \<Rightarrow> bindE (event_loop E ctx stream 0 s2) (\<lambda>(_, s3). Inr (s3\<lparr>IwThreadPipePtr := Some []\<rparr>)))"

section \<open>The destructor\<close>

definition COMMAND_WIFI_UNSET_EVENT :: string where
  "COMMAND_WIFI_UNSET_EVENT = '' WIFI_UNSET_EVENT''"

definition threadDestructorFunc :: "env \<Rightarrow> string \<Rightarrow> 'a service_scheme \<Rightarrow> 'a service_scheme" where
  "threadDestructorFunc E ctx s =
     (let cmd = take (PATH_MAX - 1) (ctx @ '' '' @ COMMAND_WIFI_UNSET_EVENT);
          (systemResult, s1) = system E cmd s
      in case IwThreadPipePtr s1 of
           None \<Rightarrow> s1
         | Some _ \<Rightarrow> (snd (ask E Pclose s1))\<lparr>IwThreadPipePtr := None\<rparr>)"

text \<open>What the function pointers handed to the thread module do when they are called.\<close>

fun call_main :: "env \<Rightarrow> main_ptr \<Rightarrow> nat option \<Rightarrow> 'a service_scheme \<Rightarrow> fault + 'a service_scheme" where
  "call_main E Ptr_WifiApThreadMainFunc ctx s = WifiApThreadMainFunc E ctx s"

fun call_destructor :: "env \<Rightarrow> destructor_ptr \<Rightarrow> string \<Rightarrow> 'a service_scheme \<Rightarrow> fault + 'a service_scheme" where
  "call_destructor E Ptr_threadDestructorFunc c s = Inr (threadDestructorFunc E c s)"

section \<open>What the thread reports\<close>

text \<open>
  The specification: the lines as \<open>fgets\<close> delivers them, what a line means for the client count, and the
  events of a list of lines with the running count.
\<close>

function stream_lines :: "string \<Rightarrow> string list" where
  "stream_lines s = (case fgets (PATH_MAX - 1) s of None \<Rightarrow> [] | Some (l, rest) \<Rightarrow> l # stream_lines rest)"
  by pat_completeness auto
termination
  by (relation "measure length") (auto dest: fgets_progress)

declare stream_lines.simps [simp del]

definition line_change :: "string \<Rightarrow> string \<Rightarrow> int" where
  "line_change dev line =
     (let path = cstr line; hit = (case strtok_colon path of None \<Rightarrow> False | Some t \<Rightarrow> strstr t dev) in
      if strstr path ''del station'' then (if hit then - 1 else 0)
      else if strstr path ''new station'' then (if hit then 1 else 0) else 0)"

fun client_events :: "string \<Rightarrow> int \<Rightarrow> string list \<Rightarrow> (string \<times> int) list" where
  "client_events dev n [] = []"
| "client_events dev n (l # ls) =
     (let d = line_change dev l in
      (if d = - 1 then [(''WiFi client disconnect'', n - 1)] else if d = 1 then [(''WiFi client connected'', n + 1)] else [])
      @ client_events dev (n + d) ls)"

fun pushes :: "call list \<Rightarrow> (string \<times> int) list" where
  "pushes [] = []"
| "pushes (c # cs) = (case c of Push_event m n \<Rightarrow> [(m, n)] | _ \<Rightarrow> []) @ pushes cs"

lemma pushes_append [simp]: "pushes (xs @ ys) = pushes xs @ pushes ys"
  by (induction xs) auto

lemma event_info_texts [simp]:
  "event_info ''WiFi client disconnected'' = ''WiFi client disconnect''"
  "event_info ''WiFi client connected'' = ''WiFi client connected''"
  by code_simp+

lemma calm_push:
  "calm E \<Longrightarrow> push_json_event E m n s = s\<lparr>calls := calls s @ [Create_data m, Push_event m n]\<rparr>"
  by (simp add: push_json_event_def calm_ask)

lemma deref_cong: "blocks s' = blocks s \<Longrightarrow> deref p s' = deref p s"
  by (simp add: deref_def split: option.split)

lemma deref_calls [simp]: "deref p (s\<lparr>calls := h\<rparr>) = deref p s"
  by (simp add: deref_def split: option.split)

lemma calm_event_line:
  assumes "calm E" "deref ctx s = Inr dev"
  shows "\<exists>h. event_line E ctx line n s = Inr (n + line_change dev line, s\<lparr>calls := h\<rparr>) \<and>
    pushes h = pushes (calls s) @ client_events dev n [line]"
proof -
  have self: "s = s\<lparr>calls := calls s\<rparr>" by simp
  show ?thesis
    using assms(2)
    by (cases "strtok_colon (cstr line)")
      (auto simp: event_line_def line_change_def Let_def calm_push [OF assms(1)] intro: self exI [of _ "calls s"])
qed

lemma calm_event_loop:
  "calm E \<Longrightarrow> deref ctx s = Inr dev \<Longrightarrow>
     \<exists>h. event_loop E ctx inp n s = Inr (n + sum_list (map (line_change dev) (stream_lines inp)), s\<lparr>calls := h\<rparr>) \<and>
       pushes h = pushes (calls s) @ client_events dev n (stream_lines inp)"
proof (induction E ctx inp n s rule: event_loop.induct)
  case (1 E ctx inp n s)
  show ?case
  proof (cases "fgets (PATH_MAX - 1) inp")
    case None
    then show ?thesis
      by (subst event_loop.simps, subst (1 2) stream_lines.simps) (auto intro: exI [of _ "calls s"])
  next
    case (Some v)
    obtain l rest where v: "v = (l, rest)" by fastforce
    obtain h1 where h1: "event_line E ctx l n s = Inr (n + line_change dev l, s\<lparr>calls := h1\<rparr>)"
      "pushes h1 = pushes (calls s) @ client_events dev n [l]"
      using calm_event_line [OF 1(2,3)] by blast
    have "deref ctx (s\<lparr>calls := h1\<rparr>) = Inr dev" using 1(3) by simp
    from 1(1) [OF Some v [symmetric] 1(2) this, of "n + line_change dev l"] obtain h where
      "event_loop E ctx rest (n + line_change dev l) (s\<lparr>calls := h1\<rparr>) =
         Inr (n + line_change dev l + sum_list (map (line_change dev) (stream_lines rest)), s\<lparr>calls := h\<rparr>)"
      "pushes h = pushes h1 @ client_events dev (n + line_change dev l) (stream_lines rest)"
      by (auto simp del: event_info_texts)
    with Some v h1 show ?thesis
      by (subst event_loop.simps, subst (1 2) stream_lines.simps) (auto simp: Let_def)
  qed
qed

text \<open>Lines shorter than the buffer come one by one.\<close>

lemma fgets_chunk_line:
  "NL \<notin> set l \<Longrightarrow> length l < k \<Longrightarrow> fgets_chunk k (l @ NL # r) = (l @ [NL], r)"
proof (induction l arbitrary: k)
  case Nil
  then show ?case by (cases k) simp_all
next
  case (Cons c l)
  then show ?case by (cases k) auto
qed

lemma stream_lines_short:
  "list_all (\<lambda>l. NL \<notin> set l \<and> length l < PATH_MAX - 2) ls \<Longrightarrow>
     stream_lines (concat (map (\<lambda>l. l @ [NL]) ls)) = map (\<lambda>l. l @ [NL]) ls"
proof (induction ls)
  case Nil
  then show ?case by (subst stream_lines.simps) (simp add: fgets_def)
next
  case (Cons l ls)
  let ?r = "concat (map (\<lambda>l. l @ [NL]) ls)"
  have "fgets (PATH_MAX - 1) (l @ NL # ?r) = Some (l @ [NL], ?r)"
    using Cons.prems fgets_chunk_line [of l "PATH_MAX - 2" ?r] by (simp add: fgets_def PATH_MAX_def)
  with Cons show ?case by (subst stream_lines.simps) simp
qed

text \<open>A line of \<open>iw event\<close> starts with the device name and a colon.\<close>

lemma strtok_device:
  assumes "CHR '':'' \<notin> set dev" "dev \<noteq> []"
  shows "strtok_colon (dev @ CHR '':'' # t) = Some dev"
proof -
  have "hd dev \<noteq> CHR '':''" using assms by (cases dev) auto
  then have "dropWhile (\<lambda>c. c = CHR '':'') (dev @ CHR '':'' # t) = dev @ CHR '':'' # t"
    using assms(2) by (cases dev) auto
  moreover have "takeWhile (\<lambda>c. c \<noteq> CHR '':'') (dev @ CHR '':'' # t) = dev"
    using assms(1) by (auto simp: takeWhile_append)
  ultimately show ?thesis using assms(2) by (simp add: strtok_colon_def)
qed

section \<open>Properties\<close>

text \<open>
  C25. When no call fails and the name the thread was given stays live, the thread reads the whole output of
  \<open>iw event\<close> and pushes exactly the events of its lines, each with the running number of clients (stations that
  joined less stations that left), and returns. The text of a disconnection lacks its last two letters.
\<close>

theorem event_thread_reports_the_clients:
  assumes "calm E" "deref ctx s = Inr dev"
  shows "\<exists>s'. WifiApThreadMainFunc E ctx s = Inr s' \<and> IwThreadPipePtr s' = Some [] \<and>
    pushes (calls s') = pushes (calls s) @ client_events dev 0 (stream_lines (stdout_of E (calls s) ''iw event''))"
proof -
  let ?inp = "stdout_of E (calls s) ''iw event''"
  let ?s2 = "s\<lparr>calls := calls s @ [Popen ''iw event''], IwThreadPipePtr := Some ?inp\<rparr>"
  have "deref ctx ?s2 = Inr dev" using assms(2) deref_cong [of ?s2 s ctx] by simp
  from calm_event_loop [OF assms(1) this, of ?inp 0] show ?thesis
    by (auto simp: WifiApThreadMainFunc_def popen_def calm_ask [OF assms(1)])
qed

text \<open>An environment whose \<open>iw event\<close> reports two stations that join and one that leaves.\<close>

definition iw_env :: env where
  "iw_env = calm_env\<lparr>stdout_of := \<lambda>_ _. concat (map (\<lambda>l. l @ [NL])
     [''wlan0: new station a'', ''wlan01: new station b'', ''eth0: new station c'', ''wlan0: del station a''])\<rparr>"

definition idle_service :: service where
  "idle_service = \<lparr>files = Map.empty, calls = [], blocks = [0 \<mapsto> ''wlan0''], brk = 1,
     wifi = zero_wifi\<lparr>interfaceName := Some 0\<rparr>, objects = Map.empty, next_obj = 0, threadList = [],
     Mutex = False, wifiApThreadPtr = None, IwThreadPipePtr = None, clients = Map.empty\<rparr>"

theorem event_thread_reports_the_clients_witness:
  "\<exists>s'. WifiApThreadMainFunc iw_env (Some 0) idle_service = Inr s' \<and>
     pushes (calls s') = [(''WiFi client connected'', 1), (''WiFi client connected'', 2), (''WiFi client disconnect'', 1)]"
proof -
  have c: "calm iw_env" by (simp add: calm_def iw_env_def calm_env_def)
  have d: "deref (Some 0) idle_service = Inr ''wlan0''" by (simp add: deref_def idle_service_def)
  let ?ls = "[''wlan0: new station a'', ''wlan01: new station b'', ''eth0: new station c'', ''wlan0: del station a'']"
  have "stdout_of iw_env h c = concat (map (\<lambda>l. l @ [NL]) ?ls)" for h c by (simp add: iw_env_def)
  moreover have "stream_lines (concat (map (\<lambda>l. l @ [NL]) ?ls)) = map (\<lambda>l. l @ [NL]) ?ls"
    by (rule stream_lines_short) (simp add: PATH_MAX_def)
  ultimately have l: "stream_lines (stdout_of iw_env h c) = map (\<lambda>l. l @ [NL]) ?ls" for h c by simp
  have e: "client_events ''wlan0'' 0 (map (\<lambda>l. l @ [NL]) ?ls) =
     [(''WiFi client connected'', 1), (''WiFi client connected'', 2), (''WiFi client disconnect'', 1)]"
    by code_simp
  have "calls idle_service = []" by (simp add: idle_service_def)
  then have "pushes (calls idle_service) = []" by simp
  with event_thread_reports_the_clients [OF c d] e show ?thesis unfolding l by auto
qed

text \<open>
  A station that joins or leaves a device is counted when the configured interface name occurs anywhere in
  the name of the device, so the clients of \<open>wlan01\<close> count for \<open>wlan0\<close>.
\<close>

lemma stations_counted_by_substring:
  assumes "CHR '':'' \<notin> set dev" "dev \<noteq> []" "NUL \<notin> set (dev @ mac)"
    and "\<not> strstr (dev @ '': new station '' @ mac) ''del station''"
  shows "line_change conf (dev @ '': new station '' @ mac) = (if \<exists>a b. dev = a @ conf @ b then 1 else 0)"
proof -
  let ?line = "dev @ '': new station '' @ mac"
  have "cstr ?line = ?line" using assms(3) by (intro cstr_id) auto
  moreover have "strtok_colon ?line = Some dev"
    using strtok_device [OF assms(1,2), of "'' new station '' @ mac"] by simp
  moreover have "strstr ?line ''new station''"
    unfolding strstr_iff by (intro exI [of _ "dev @ '': ''"] exI [of _ "'' '' @ mac"]) simp
  ultimately show ?thesis
    using assms(4) unfolding line_change_def Let_def by (simp only: option.case strstr_iff if_False) simp
qed

lemma stations_counted_by_substring_example:
  "line_change ''wlan0'' (''wlan01'' @ '': new station '' @ ''02:00:00:00:01:00'') = 1"
proof -
  have n: "\<not> strstr (''wlan01'' @ '': new station '' @ ''02:00:00:00:01:00'') ''del station''" by code_simp
  have "''wlan01'' = [] @ ''wlan0'' @ ''1''" by simp
  then have "\<exists>a b. ''wlan01'' = a @ ''wlan0'' @ b" by blast
  with stations_counted_by_substring [OF _ _ _ n, of "''wlan0''"] show ?thesis by simp
qed

text \<open>
  C33. The thread keeps the pointer to the name it was given. After the interface name has been replaced, the
  first line about a station makes the thread read freed memory.
\<close>

theorem event_thread_reads_the_freed_name:
  assumes "names_ok s" "interfaceName (wifi s) = Some p" "setInterfaceNameParameter E src s = Inr (0, s')"
    and "strtok_colon (cstr line) = Some tok"
    and "strstr (cstr line) ''new station'' \<or> strstr (cstr line) ''del station''"
  shows "event_line F (Some p) line n s' = Inl Use_after_free"
proof -
  from setInterfaceName_result [OF assms(1), of E src] assms(2,3) have "blocks s' p = None" by auto
  then have "deref (Some p) s' = Inl Use_after_free" by (simp add: deref_def)
  with assms(4,5) show ?thesis by (auto simp: event_line_def Let_def)
qed

theorem event_thread_reads_the_freed_name_witness:
  "\<exists>s'. setInterfaceNameParameter calm_env (Some ''wlp2s0'') named_state = Inr (0, s') \<and>
     event_line calm_env (Some 0) ''wlan0: new station a'' 0 s' = Inl Use_after_free"
proof -
  obtain s' where s': "setInterfaceNameParameter calm_env (Some ''wlp2s0'') named_state = Inr (0, s')"
    by (simp add: setInterfaceNameParameter_def set_string_copy_def strdup_def ask_def calm_env_def
        named_state_def free_block_def dom_def)
  have i: "interfaceName (wifi named_state) = Some 0" by (simp add: named_state_def)
  have l: "strtok_colon (cstr ''wlan0: new station a'') = Some ''wlan0''"
    "strstr (cstr ''wlan0: new station a'') ''new station'' \<or> strstr (cstr ''wlan0: new station a'') ''del station''"
    by code_simp+
  from event_thread_reads_the_freed_name [OF names_ok_named_state i s' l] s' show ?thesis by blast
qed

end
