(* ===== verification/Service.thy ===== *)
theory Service
  imports Addresses ApConfig Events
begin

text \<open>
  Starting and stopping the access point, as in \<open>src/wifiAp.c\<close>: conflicts with other network services, dnsmasq,
  hostapd, the event thread, and the verbs \<open>start\<close>, \<open>stop\<close>, \<open>restart\<close> and
  \<open>getWifiApStatus\<close>. Every critical section of the status mutex is one access to the status, and the handlers
  are atomic here, so that mutex is not part of the state.
\<close>

section \<open>Commands\<close>

definition WIFI_SCRIPT :: "env \<Rightarrow> string" where
  "WIFI_SCRIPT E = app_dir E @ ''/var/wifi_setup.sh''"

text \<open>\<open>snprintf(cmd, PATH_MAX, "%s %s %s", WIFI_SCRIPT, verb, arg)\<close>; the verbs start with a space.\<close>

definition script_cmd :: "env \<Rightarrow> string \<Rightarrow> string \<Rightarrow> string" where
  "script_cmd E verb arg = take (PATH_MAX - 1) (WIFI_SCRIPT E @ '' '' @ verb @ '' '' @ arg)"

text \<open>The same with two arguments.\<close>

definition script_cmd2 :: "env \<Rightarrow> string \<Rightarrow> string \<Rightarrow> string \<Rightarrow> string" where
  "script_cmd2 E verb arg arg2 = take (PATH_MAX - 1) (WIFI_SCRIPT E @ '' '' @ verb @ '' '' @ arg @ '' '' @ arg2)"

definition COMMAND_WIFI_HW_START :: string where "COMMAND_WIFI_HW_START = '' WIFI_START''"
definition COMMAND_WIFI_HW_STOP :: string where "COMMAND_WIFI_HW_STOP = '' WIFI_STOP''"
definition COMMAND_WIFI_FIREWALLD_ALLOW :: string where "COMMAND_WIFI_FIREWALLD_ALLOW = '' WIFI_FIREWALLD_ALLOW''"
definition COMMAND_WIFI_NM_UNMANAGE :: string where "COMMAND_WIFI_NM_UNMANAGE = '' WIFI_NM_UNMANAGE''"
definition COMMAND_WIFIAP_HOSTAPD_START :: string where "COMMAND_WIFIAP_HOSTAPD_START = '' WIFIAP_HOSTAPD_START''"
definition COMMAND_WIFIAP_HOSTAPD_STOP :: string where "COMMAND_WIFIAP_HOSTAPD_STOP = '' WIFIAP_HOSTAPD_STOP''"
definition COMMAND_WIFIAP_WLAN_UP :: string where "COMMAND_WIFIAP_WLAN_UP = '' WIFIAP_WLAN_UP''"
definition COMMAND_DNSMASQ_RESTART :: string where "COMMAND_DNSMASQ_RESTART = '' DNSMASQ_RESTART''"

text \<open>
  What a run of \<open>src/scripts/wifi_setup.sh\<close> that ends well does to the three files of the access point: \<open>WIFIAP_HOSTAPD_STOP\<close>
  removes them, \<open>DNSMASQ_RESTART\<close> appends the line with the interface to dnsmasq's, and no other command touches them.
\<close>

definition interface_line :: "string \<Rightarrow> string" where
  "interface_line i = ''interface='' @ i @ [NL]"

definition script_files :: "string \<Rightarrow> string \<Rightarrow> files \<Rightarrow> files" where
  "script_files CMD i f =
     (if CMD = ''WIFIAP_HOSTAPD_STOP'' then f(DNSMASQ_FILE := None, HOSTS_FILE := None, WIFI_HOSTAPD_FILE := None)
      else if CMD = ''DNSMASQ_RESTART''
      then f(DNSMASQ_FILE \<mapsto> (case f DNSMASQ_FILE of None \<Rightarrow> [] | Some t \<Rightarrow> t) @ interface_line i)
      else f)"

definition set_status :: "ap_status \<Rightarrow> 'a ap_scheme \<Rightarrow> 'a ap_scheme" where
  "set_status st s = s\<lparr>wifi := (wifi s)\<lparr>status := st\<rparr>\<rparr>"

definition iface :: "'a ap_scheme \<Rightarrow> fault + string" where
  "iface s = deref (interfaceName (wifi s)) s"

text \<open>A name as an argument of a function that takes a \<open>char *\<close>.\<close>

definition name_arg :: "nat option \<Rightarrow> 'a strings_scheme \<Rightarrow> fault + string option" where
  "name_arg p s = (case p of None \<Rightarrow> Inr None | Some a \<Rightarrow> bindE (deref (Some a) s) (\<lambda>str. Inr (Some str)))"

section \<open>Other services of the machine\<close>

definition check_and_resolve_conflicts_with_NM :: "env \<Rightarrow> 'a ap_scheme \<Rightarrow> fault + 'a ap_scheme" where
  "check_and_resolve_conflicts_with_NM E s =
     bindE (iface s) (\<lambda>i.
       let cmd = script_cmd E COMMAND_WIFI_NM_UNMANAGE i;
           (ret, s1) = system E ''nmcli -v >/dev/null'' s
       in Inr (if ret = 0 then snd (system E cmd s1) else s1))"

definition check_if_firewalld_running_and_allow_dhcp_traffic :: "env \<Rightarrow> 'a ap_scheme \<Rightarrow> fault + 'a ap_scheme" where
  "check_if_firewalld_running_and_allow_dhcp_traffic E s =
     bindE (iface s) (\<lambda>i.
       let cmd = script_cmd E COMMAND_WIFI_FIREWALLD_ALLOW i;
           (ret, s1) = system E ''pgrep firewalld >/dev/null'' s
       in Inr (if ret = 0 then snd (system E cmd s1) else s1))"

section \<open>dnsmasq\<close>

text \<open>The three exclusive ors swap the bounds when they are in the wrong order.\<close>

definition order_range :: "32 word \<Rightarrow> 32 word \<Rightarrow> 32 word \<times> 32 word" where
  "order_range start stop =
     (if start > stop
      then (let start1 = start XOR stop; stop1 = stop XOR start1; start2 = start1 XOR stop1 in (start2, stop1))
      else (start, stop))"

definition dnsmasq_failed :: "'a ap_scheme \<Rightarrow> fault + (int \<times> 'a ap_scheme)" where
  "dnsmasq_failed s = Inr (- 2, set_status Status_fail s)"

text \<open>The block that mounts the interface, writes the two files and restarts dnsmasq.\<close>

definition run_dnsmasq :: "env \<Rightarrow> string \<Rightarrow> 'a ap_scheme \<Rightarrow> fault + (int \<times> 'a ap_scheme)" where
  "run_dnsmasq E ip_ap_cidr s =
     (let w = wifi s in
      bindE (iface s) (\<lambda>i.
      let cmd = script_cmd2 E COMMAND_WIFIAP_WLAN_UP i (cstr (ip_ap w));
          (systemResult, s1) = system E cmd s
      in if WEXITSTATUS systemResult \<noteq> 0 then dnsmasq_failed s1
         else bindE (name_arg (hostName w) s1) (\<lambda>host.
         bindE (createHostsConfigFile E (cstr (ip_ap w)) host s1) (\<lambda>(error, s2).
           if error \<noteq> 0 then dnsmasq_failed s2
           else bindE (name_arg (domainName w) s2) (\<lambda>domain.
           bindE (createDnsmasqConfigFile E (cstr (ip_ap w)) (cstr (ip_start w)) (cstr (ip_stop w)) domain s2)
             (\<lambda>(error', s3).
             if error' \<noteq> 0 then dnsmasq_failed s3
             else
               let cmd' = script_cmd2 E COMMAND_DNSMASQ_RESTART i ip_ap_cidr;
                   (systemResult', s4) = system E cmd' s3
               in if WEXITSTATUS systemResult' \<noteq> 0 then dnsmasq_failed s4 else Inr (0, s4)))))))"

definition setDnsmasqService :: "env \<Rightarrow> 'a ap_scheme \<Rightarrow> fault + (int \<times> 'a ap_scheme)" where
  "setDnsmasqService E s =
     (let w = wifi s in
      if hd (ip_ap w) = NUL \<or> hd (ip_start w) = NUL \<or> hd (ip_stop w) = NUL \<or> hd (ip_netmask w) = NUL
      then dnsmasq_failed s
      else
        let netmask_cidr = toCidr (stack_junk E) (ip_netmask w);
            ip_ap_cidr = take 127 (cstr (ip_ap w) @ ''/'' @ show_int netmask_cidr)
        in case (inet_pton (ip_ap w), inet_pton (ip_start w), inet_pton (ip_stop w), inet_pton (ip_netmask w)) of
             (Some ap, Some start0, Some stop0, Some netmask) \<Rightarrow>
               let (start, stop) = order_range start0 stop0 in
               if ap \<ge> start \<and> ap \<le> stop then dnsmasq_failed s else run_dnsmasq E ip_ap_cidr s
           | _ \<Rightarrow> Inr (- 1, set_status Status_fail s))"

section \<open>startAp\<close>

definition config_left :: "env \<Rightarrow> 'a world_scheme \<Rightarrow> bool \<times> 'a world_scheme" where
  "config_left E s =
     (let (r1, s1) = checkFileExists E DNSMASQ_FILE s in
      if r1 \<noteq> 0 then (True, s1)
      else let (r2, s2) = checkFileExists E HOSTS_FILE s1 in (r2 \<noteq> 0, s2))"

text \<open>The end of \<open>startAp\<close>: the event thread. Failures are logged, and a NULL thread is used all the same.\<close>

definition start_event_thread :: "env \<Rightarrow> 'a service_scheme \<Rightarrow> fault + (int \<times> 'a service_scheme)" where
  "start_event_thread E s =
     bindE (CreateThread E ''WifiApThread'' Ptr_WifiApThreadMainFunc (interfaceName (wifi s)) s) (\<lambda>(p, s1).
     let s2 = s1\<lparr>wifiApThreadPtr := p\<rparr> in
     case p of
       None \<Rightarrow> Inl Null_deref
     | Some a \<Rightarrow>
         bindE (get_obj a s2) (\<lambda>t.
         bindE (setThreadJoinable E (threadId t) s2) (\<lambda>(_, s3).
         bindE (get_obj a s3) (\<lambda>t.
         bindE (addDestructorToThread E (threadId t) (Some Ptr_threadDestructorFunc) (WIFI_SCRIPT E) s3) (\<lambda>(_, s4).
         bindE (get_obj a s4) (\<lambda>t.
         bindE (startThread E (threadId t) s4) (\<lambda>(_, s5).
           Inr (0, set_status Status_started s5))))))))"

definition start_failure :: "int \<Rightarrow> 'a ap_scheme \<Rightarrow> fault + (int \<times> 'a ap_scheme)" where
  "start_failure code s = Inr (code, set_status Status_fail s)"

text \<open>From the checked parameters on: the other services, the file, the hardware, hostapd, the thread.\<close>

definition start_hostapd :: "env \<Rightarrow> 'a service_scheme \<Rightarrow> fault + (int \<times> 'a service_scheme)" where
  "start_hostapd E s =
     bindE (check_and_resolve_conflicts_with_NM E s) (\<lambda>s1.
     bindE (check_if_firewalld_running_and_allow_dhcp_traffic E s1) (\<lambda>s2.
     bindE (GenerateHostApConfFile E (wifi s2) s2) (\<lambda>(r, s3).
       if r \<noteq> 0 then start_failure (- 3) s3
       else bindE (iface s3) (\<lambda>i.
         let (st, s4) = system E (script_cmd E COMMAND_WIFI_HW_START i) s3 in
         if WEXITSTATUS st = 0 then
           (let (st', s5) = system E (script_cmd E COMMAND_WIFIAP_HOSTAPD_START i) s4 in
            if \<not> WIFEXITED st' \<or> WEXITSTATUS st' \<noteq> 0
            then start_failure (- 7) (remove_file E WIFI_HOSTAPD_FILE s5)
            else start_event_thread E s5)
         else if WEXITSTATUS st = 50 then start_failure (- 4) s4
         else if WEXITSTATUS st = 100 then start_failure (- 5) s4
         else start_failure (- 6) s4))))"

definition clean_left :: "env \<Rightarrow> 'a service_scheme \<Rightarrow> fault + (bool \<times> 'a service_scheme)" where
  "clean_left E s =
     (let (left, s1) = config_left E s in
      if left
      then bindE (iface s1) (\<lambda>i.
        let (st, s2) = system E (script_cmd E COMMAND_WIFIAP_HOSTAPD_STOP i) s1
        in Inr (WIFEXITED st \<and> WEXITSTATUS st = 0, s2))
      else Inr (True, s1))"

definition startAp :: "env \<Rightarrow> 'a service_scheme \<Rightarrow> fault + (int \<times> 'a service_scheme)" where
  "startAp E s =
     bindE (clean_left E s) (\<lambda>(clean, s1).
      if \<not> clean then start_failure (- 9) s1
      else bindE (setDnsmasqService E s1) (\<lambda>(error, s2).
        if error \<noteq> 0 then start_failure (- 8) s2
        else if hd (ssid (wifi s2)) = NUL then start_failure (- 1) s2
        else if channelNumber (wifi s2) < MIN_CHANNEL_VALUE (wifi s2) \<or>
                channelNumber (wifi s2) > MAX_CHANNEL_VALUE (wifi s2) then start_failure (- 2) s2
        else start_hostapd E s2))"

section \<open>The verbs that drive the service\<close>

definition afb_req_reply :: "env \<Rightarrow> reply_status \<Rightarrow> string option \<Rightarrow> 'a world_scheme \<Rightarrow> 'a world_scheme" where
  "afb_req_reply E st payload s = snd (ask E (Reply st payload) s)"

definition start_error_text :: "int \<Rightarrow> string" where
  "start_error_text sts =
     (if sts = - 1 then ''No valid SSID provided''
      else if sts = - 2 then ''No valid channel number provided''
      else if sts = - 3 then ''Failed to generate hostapd.conf''
      else if sts = - 4 then ''WiFi card is not inserted''
      else if sts = - 5 then ''Unable to reset WiFi card''
      else if sts = - 6 then ''Failed to start WiFi AP command''
      else if sts = - 7 then ''Failed to start hostapd!''
      else if sts = - 8 then ''Failed to start Dnsmasq!''
      else if sts = - 9 then ''Failed to clean previous wifiAp configuration!''
      else ''Unspecified internal error'')"

definition start :: "env \<Rightarrow> 'a service_scheme \<Rightarrow> fault + 'a service_scheme" where
  "start E s =
     (if status (wifi s) = Status_started then Inr (afb_req_reply E Success None s)
      else bindE (startAp E s) (\<lambda>(sts, s1).
        if sts = 0 then Inr (afb_req_reply E Success None s1)
        else Inr (afb_req_reply E (AFB_USER_ERRNO (- sts)) (Some (start_error_text sts)) s1)))"

text \<open>
  \<open>stop\<close>: the pointer to the thread object is tested and used, and is not reset when the object is freed. A
  thread that cannot be cancelled does not stop the verb from reporting success.
\<close>

definition stop_failed :: "env \<Rightarrow> int \<Rightarrow> 'a service_scheme \<Rightarrow> fault + 'a service_scheme" where
  "stop_failed E code s = Inr (afb_req_reply E (AFB_USER_ERRNO code) None (set_status Status_fail s))"

definition stop_done :: "env \<Rightarrow> 'a service_scheme \<Rightarrow> fault + 'a service_scheme" where
  "stop_done E s = Inr (afb_req_reply E Success None (set_status Status_stopped s))"

definition stop :: "env \<Rightarrow> 'a service_scheme \<Rightarrow> fault + 'a service_scheme" where
  "stop E s =
     bindE (iface s) (\<lambda>i.
       let (st, s1) = system E (script_cmd E COMMAND_WIFIAP_HOSTAPD_STOP i) s in
       if \<not> WIFEXITED st \<or> WEXITSTATUS st \<noteq> 0 then stop_failed E (WEXITSTATUS st) s1
       else
         let (st', s2) = system E (script_cmd E COMMAND_WIFI_HW_STOP i) s1 in
         if \<not> WIFEXITED st' \<or> WEXITSTATUS st' \<noteq> 0 then stop_failed E (1000 + WEXITSTATUS st') s2
         else
           (case wifiApThreadPtr s2 of
              None \<Rightarrow> stop_done E s2
            | Some a \<Rightarrow>
                bindE (get_obj a s2) (\<lambda>t.
                bindE (cancelThread E (threadId t) s2) (\<lambda>(r, s3).
                  if r \<noteq> 0 then stop_done E s3
                  else bindE (get_obj a s3) (\<lambda>t'.
                    bindE (JoinThread E (call_destructor E) (threadId t') s3) (\<lambda>(r', s4).
                      if r' \<noteq> 0 then stop_failed E 2000 s4 else stop_done E s4))))))"

definition restart :: "env \<Rightarrow> 'a service_scheme \<Rightarrow> fault + 'a service_scheme" where
  "restart E s =
     (let (left, s1) = config_left E s in
      if \<not> left then Inr s1
      else bindE (iface s1) (\<lambda>i.
        let (st, s2) = system E (script_cmd E COMMAND_WIFIAP_HOSTAPD_STOP i) s1 in
        if \<not> WIFEXITED st \<or> WEXITSTATUS st \<noteq> 0 then Inr (set_status Status_fail s2)
        else bindE (startAp E s2) (\<lambda>(_, s3). Inr s3)))"

text \<open>\<open>snprintf\<close> into 100 or 200 bytes: a reply that does not fit is an internal error.\<close>

definition reply_json :: "env \<Rightarrow> nat \<Rightarrow> string \<Rightarrow> 'a world_scheme \<Rightarrow> 'a world_scheme" where
  "reply_json E bufsize str s =
     (if 0 < length str \<and> length str < bufsize
      then (let (sts, s1) = ask E (Create_data str) s in
            if sts = 0 then afb_req_reply E Success (Some str) s1
            else afb_req_reply E AFB_ERRNO_INTERNAL_ERROR None s1)
      else afb_req_reply E AFB_ERRNO_INTERNAL_ERROR None s)"

abbreviation QUOTE :: string where "QUOTE \<equiv> [CHR 0x22]"

definition reply_single_key_uint32 :: "env \<Rightarrow> string \<Rightarrow> 32 word \<Rightarrow> 'a world_scheme \<Rightarrow> 'a world_scheme" where
  "reply_single_key_uint32 E key val s =
     reply_json E 100 (''{'' @ QUOTE @ key @ QUOTE @ '':'' @ show_nat (unat val) @ ''}'') s"

definition reply_single_key_string :: "env \<Rightarrow> string \<Rightarrow> string \<Rightarrow> 'a world_scheme \<Rightarrow> 'a world_scheme" where
  "reply_single_key_string E key val s =
     reply_json E 200 (''{'' @ QUOTE @ key @ QUOTE @ '':'' @ QUOTE @ val @ QUOTE @ ''}'') s"

fun status_text :: "ap_status \<Rightarrow> string" where
  "status_text Status_init = ''initializing''"
| "status_text Status_started = ''started''"
| "status_text Status_stopped = ''stopped''"
| "status_text Status_fail = ''failure''"

definition getWifiApStatus :: "env \<Rightarrow> 'a service_scheme \<Rightarrow> fault + 'a service_scheme" where
  "getWifiApStatus E s = Inr (reply_single_key_string E ''status'' (status_text (status (wifi s))) s)"

section \<open>What the steps keep\<close>

text \<open>
  A step that only talks to the environment and writes files, or sets the status, keeps everything else:
  the names and their heap, the other parameters, the threads.
\<close>

definition keeps :: "'a service_scheme \<Rightarrow> 'a service_scheme \<Rightarrow> bool" where
  "keeps s s' \<longleftrightarrow> (\<exists>st. wifi s' = (wifi s)\<lparr>status := st\<rparr>) \<and> blocks s' = blocks s \<and> brk s' = brk s \<and>
     objects s' = objects s \<and> next_obj s' = next_obj s \<and> threadList s' = threadList s \<and> Mutex s' = Mutex s \<and>
     wifiApThreadPtr s' = wifiApThreadPtr s \<and> IwThreadPipePtr s' = IwThreadPipePtr s \<and> clients s' = clients s"

definition same :: "'a service_scheme \<Rightarrow> 'a service_scheme \<Rightarrow> bool" where
  "same s s' \<longleftrightarrow> world.more s' = world.more s"

lemma same_refl [simp]: "same s s"
  by (simp add: same_def)

lemma same_trans: "same s s1 \<Longrightarrow> same s1 s2 \<Longrightarrow> same s s2"
  by (simp add: same_def)

lemma same_fields:
  assumes "same s s'"
  shows "wifi s' = wifi s" "blocks s' = blocks s" "brk s' = brk s" "objects s' = objects s" "next_obj s' = next_obj s"
    "threadList s' = threadList s" "Mutex s' = Mutex s" "wifiApThreadPtr s' = wifiApThreadPtr s"
    "IwThreadPipePtr s' = IwThreadPipePtr s" "clients s' = clients s"
  using assms unfolding same_def by (cases s; cases s'; simp)+

lemma status_same [simp]: "w\<lparr>status := status w\<rparr> = w"
  by simp

lemma keeps_refl [simp]: "keeps s s"
  unfolding keeps_def by (auto intro: exI [of _ "status (wifi s)"])

lemma keeps_trans: "keeps s s1 \<Longrightarrow> keeps s1 s2 \<Longrightarrow> keeps s s2"
  unfolding keeps_def by auto

lemma same_keeps: "same s s' \<Longrightarrow> keeps s s'"
  using same_fields [of s s'] unfolding keeps_def by (auto intro: exI [of _ "status (wifi s)"])

lemma keeps_status: "keeps s (set_status st s)"
  by (auto simp: keeps_def set_status_def)

lemma status_set [simp]: "status (wifi (set_status st s)) = st"
  by (simp add: set_status_def)

lemma same_steps:
  assumes "same s t"
  shows "same s (snd (system E c t))" "same s (snd (ask E q t))" "same s (remove_file E p t)"
    "same s (snd (fopen_r E p t))" "same s (snd (fopen_w E p t))" "same s (fprintf E p d t)"
    "same s (snd (fwrite E p d t))"
  using assms
  by (simp_all add: same_def system_more remove_file_more fopen_r_frame fopen_w_more fprintf_more fwrite_more)

lemma same_writeApConfigFile: "same s t \<Longrightarrow> same s (snd (writeApConfigFile E d f t))"
  unfolding writeApConfigFile_def
  by (auto simp: split_beta Let_def intro: same_steps split: option.splits)

lemma same_reply: "same s t \<Longrightarrow> same s (afb_req_reply E st p t)"
  by (simp add: afb_req_reply_def same_steps)

lemma same_config_left: "same s t \<Longrightarrow> same s (snd (config_left E t))"
  unfolding config_left_def checkFileExists_def by (auto simp: split_beta Let_def intro: same_steps)

lemma same_hosts: "createHostsConfigFile E ap h t = Inr (r, s') \<Longrightarrow> same s t \<Longrightarrow> same s s' \<and> r = 0"
  unfolding createHostsConfigFile_def
  by (auto simp: split_beta Let_def split: if_splits option.splits intro: same_steps)

lemma same_dnsmasq: "createDnsmasqConfigFile E ap a b d t = Inr (r, s') \<Longrightarrow> same s t \<Longrightarrow> same s s' \<and> r = 0"
  unfolding createDnsmasqConfigFile_def
  by (auto simp only: split_beta Let_def split: if_splits option.splits intro!: same_steps)

lemma same_generate: "GenerateHostApConfFile E d t = Inr (r, s') \<Longrightarrow> same s t \<Longrightarrow> same s s'"
  unfolding GenerateHostApConfFile_def give_up_def
  by (auto simp: split_beta Let_def split: if_splits option.splits intro!: same_steps same_writeApConfigFile)

lemma same_NM: "check_and_resolve_conflicts_with_NM E t = Inr s' \<Longrightarrow> same s t \<Longrightarrow> same s s'"
  unfolding check_and_resolve_conflicts_with_NM_def
  by (auto simp: split_beta Let_def split: if_splits intro: same_steps)

lemma same_firewalld:
  "check_if_firewalld_running_and_allow_dhcp_traffic E t = Inr s' \<Longrightarrow> same s t \<Longrightarrow> same s s'"
  unfolding check_if_firewalld_running_and_allow_dhcp_traffic_def
  by (auto simp: split_beta Let_def split: if_splits intro: same_steps)

text \<open>\<open>setDnsmasqService\<close> keeps the state when it succeeds and sets the failure status when it does not.\<close>

definition dnsmasq_outcome :: "'a service_scheme \<Rightarrow> int \<Rightarrow> 'a service_scheme \<Rightarrow> bool" where
  "dnsmasq_outcome s r s' \<longleftrightarrow>
     (if r = 0 then same s s' else r \<in> {- 1, - 2} \<and> (\<exists>u. same s u \<and> s' = set_status Status_fail u))"

lemma dnsmasq_failed_outcome: "dnsmasq_failed t = Inr (r, s') \<Longrightarrow> same s t \<Longrightarrow> dnsmasq_outcome s r s'"
  by (auto simp: dnsmasq_failed_def dnsmasq_outcome_def)

lemma run_dnsmasq_outcome:
  assumes "run_dnsmasq E cidr s = Inr (r, s')"
  shows "dnsmasq_outcome s r s'"
proof -
  define cmd where "cmd i = script_cmd2 E COMMAND_WIFIAP_WLAN_UP i (cstr (ip_ap (wifi s)))" for i
  define cmd' where "cmd' i = script_cmd2 E COMMAND_DNSMASQ_RESTART i cidr" for i
  from assms obtain i where run: "(let (systemResult, s1) = system E (cmd i) s
      in if WEXITSTATUS systemResult \<noteq> 0 then dnsmasq_failed s1
         else bindE (name_arg (hostName (wifi s)) s1) (\<lambda>host.
         bindE (createHostsConfigFile E (cstr (ip_ap (wifi s))) host s1) (\<lambda>(error, s2).
           if error \<noteq> 0 then dnsmasq_failed s2
           else bindE (name_arg (domainName (wifi s)) s2) (\<lambda>domain.
           bindE (createDnsmasqConfigFile E (cstr (ip_ap (wifi s))) (cstr (ip_start (wifi s)))
             (cstr (ip_stop (wifi s))) domain s2)
             (\<lambda>(error', s3).
             if error' \<noteq> 0 then dnsmasq_failed s3
             else
               let (systemResult', s4) = system E (cmd' i) s3
               in if WEXITSTATUS systemResult' \<noteq> 0 then dnsmasq_failed s4 else Inr (0, s4)))))) = Inr (r, s')"
    unfolding run_dnsmasq_def Let_def cmd_def cmd'_def by (subst (asm) bindE_eq_Inr) blast
  obtain st s1 where s1: "system E (cmd i) s = (st, s1)" by fastforce
  have same1: "same s s1" using same_steps(1) [OF same_refl, of s E "cmd i"] s1 by simp
  show ?thesis
  proof (cases "WEXITSTATUS st = 0")
    case False
    with run s1 same1 show ?thesis by (simp add: dnsmasq_failed_outcome)
  next
    case True
    with run s1 obtain h s2 d s3 where s2: "createHostsConfigFile E (cstr (ip_ap (wifi s))) h s1 = Inr (0, s2)"
      and s3: "createDnsmasqConfigFile E (cstr (ip_ap (wifi s))) (cstr (ip_start (wifi s)))
             (cstr (ip_stop (wifi s))) d s2 = Inr (0, s3)"
      and fin: "(let (systemResult', s4) = system E (cmd' i) s3
               in if WEXITSTATUS systemResult' \<noteq> 0 then dnsmasq_failed s4 else Inr (0, s4)) = Inr (r, s')"
      using same_hosts [OF _ same_refl] same_dnsmasq [OF _ same_refl]
      by (fastforce split: if_splits)
    have same3: "same s (snd (system E c s3))" for c
      using same_dnsmasq [OF s3, of s] same_hosts [OF s2 same1] by (blast intro: same_steps)
    from fin same3 [of "cmd' i"] show ?thesis
      by (auto simp: split_beta Let_def dnsmasq_outcome_def dnsmasq_failed_def split: if_splits)
  qed
qed

lemma setDnsmasqService_outcome:
  assumes "setDnsmasqService E s = Inr (r, s')"
  shows "dnsmasq_outcome s r s'"
proof -
  have one: "dnsmasq_outcome s (- 1) (set_status Status_fail s)"
    unfolding dnsmasq_outcome_def by (simp, rule exI [of _ s], simp)
  show ?thesis
    using assms unfolding setDnsmasqService_def Let_def
    by (auto simp: split_beta one dnsmasq_failed_outcome run_dnsmasq_outcome split: if_splits option.splits)
qed

text \<open>A failed start changes the status and nothing else that the program keeps.\<close>

definition start_failed :: "'a service_scheme \<Rightarrow> int \<Rightarrow> 'a service_scheme \<Rightarrow> bool" where
  "start_failed s r s' \<longleftrightarrow> - 9 \<le> r \<and> r < 0 \<and> (\<exists>u. same s u \<and> s' = set_status Status_fail u)"

definition start_succeeded :: "'a service_scheme \<Rightarrow> int \<Rightarrow> 'a service_scheme \<Rightarrow> bool" where
  "start_succeeded s r s' \<longleftrightarrow> r = 0 \<and> threads_ok s' \<and> wifi s' = (wifi s)\<lparr>status := Status_started\<rparr> \<and>
     blocks s' = blocks s \<and> brk s' = brk s \<and> wifiApThreadPtr s' = Some (next_obj s) \<and> threadList s' = [next_obj s] \<and>
     IwThreadPipePtr s' = IwThreadPipePtr s \<and> clients s' = clients s \<and> next_obj s \<le> next_obj s' \<and>
     (\<exists>t. objects s' (next_obj s) = Some t \<and> threadContext t = interfaceName (wifi s)) \<and>
     (\<forall>b t. objects s b = Some t \<longrightarrow> (\<exists>t'. objects s' b = Some t' \<and> threadContext t' = threadContext t))"

lemma threads_more_fields:
  "threads.more s' = threads.more s \<Longrightarrow> wifiApThreadPtr s' = wifiApThreadPtr s \<and>
     IwThreadPipePtr s' = IwThreadPipePtr s \<and> clients s' = clients s \<and> service.more s' = service.more s"
  for s s' :: "'a service_scheme"
  by (cases s; cases s') simp

text \<open>Moving the registry, for a service state.\<close>

lemma moves_fields:
  "moves s s' \<Longrightarrow> wifi s' = wifi s \<and> blocks s' = blocks s \<and> brk s' = brk s \<and> wifiApThreadPtr s' = wifiApThreadPtr s \<and>
     IwThreadPipePtr s' = IwThreadPipePtr s \<and> clients s' = clients s \<and> next_obj s \<le> next_obj s'"
  for s s' :: "'a service_scheme"
  using threads_more_fields [of s' s] by (simp add: moves_def)

lemma moves_objects:
  "moves s s' \<Longrightarrow> objects s b = Some t \<Longrightarrow> \<exists>t'. objects s' b = Some t' \<and> threadContext t' = threadContext t"
  unfolding moves_def by blast

lemma start_event_thread_outcome:
  assumes "threads_ok s" "start_event_thread E s = Inr (r, s')"
  shows "start_succeeded s r s'"
proof -
  from assms(2) obtain a s1 where cr: "CreateThread E ''WifiApThread'' Ptr_WifiApThreadMainFunc (interfaceName (wifi s)) s = Inr (Some a, s1)"
    by (auto simp: start_event_thread_def Let_def split: option.splits)
  from CreateThread_result [OF assms(1), of E "''WifiApThread''" Ptr_WifiApThreadMainFunc "interfaceName (wifi s)"] cr
  obtain t where s1: "threads_ok s1" "moves s s1" "a = next_obj s" "threadList s1 = [a]" "objects s1 a = Some t"
    "threadContext t = interfaceName (wifi s)" by auto
  define s2 where "s2 = s1\<lparr>wifiApThreadPtr := Some a\<rparr>"
  have s2: "threads_ok s2" "threadList s2 = [a]" "objects s2 = objects s1" "wifiApThreadPtr s2 = Some a"
    "wifi s2 = wifi s1" "blocks s2 = blocks s1" "brk s2 = brk s1" "IwThreadPipePtr s2 = IwThreadPipePtr s1"
    "clients s2 = clients s1" "next_obj s2 = next_obj s1"
    using s1 by (simp_all add: s2_def threads_ok_def)
  from assms(2) obtain i r3 s3 j r4 s4 k r5 s5 where run:
    "setThreadJoinable E i s2 = Inr (r3, s3)"
    "addDestructorToThread E j (Some Ptr_threadDestructorFunc) (WIFI_SCRIPT E) s3 = Inr (r4, s4)"
    "startThread E k s4 = Inr (r5, s5)" "r = 0" "s' = set_status Status_started s5"
    by (auto simp: start_event_thread_def Let_def cr s2_def)
  have p3: "threads_ok s3" "moves s2 s3" "threadList s3 = [a]"
    using setThreadJoinable_result [OF s2(1), of E i] run(1) s2(2) by auto
  have p4: "threads_ok s4" "moves s3 s4" "threadList s4 = [a]"
    using addDestructor_result [OF p3(1), of E j "Some Ptr_threadDestructorFunc" "WIFI_SCRIPT E"] run(2) p3(3) by auto
  have p5: "threads_ok s5" "moves s4 s5" "threadList s5 = [a]"
    using startThread_result [OF p4(1), of E k] run(3) p4(3) by auto
  have m: "moves s2 s5" by (rule moves_trans [OF moves_trans [OF p3(2) p4(2)] p5(2)])
  have st: "threads_ok (set_status st s5) = threads_ok s5" for st
    by (simp add: threads_ok_def set_status_def)
  have old: "\<exists>t'. objects s5 b = Some t' \<and> threadContext t' = threadContext u" if "objects s b = Some u" for b u
    using moves_objects [OF s1(2) that] moves_objects [OF m] s2(3) by metis
  have new: "\<exists>t'. objects s5 a = Some t' \<and> threadContext t' = interfaceName (wifi s)"
    using moves_objects [OF m, of a t] s1(5,6) s2(3) by simp
  show ?thesis
    using moves_fields [OF s1(2)] moves_fields [OF m] s2 s1(3) p5 run(4,5) old new st
    by (simp add: start_succeeded_def set_status_def)
qed

lemma start_failedI: "same s u \<Longrightarrow> - 9 \<le> r \<Longrightarrow> r < 0 \<Longrightarrow> start_failed s r (set_status Status_fail u)"
  by (auto simp: start_failed_def)

lemma same_threads_ok: "same s s' \<Longrightarrow> threads_ok s' = threads_ok s"
  using same_fields [of s s'] by (simp add: threads_ok_def)

lemma same_start_succeeded: "same s u \<Longrightarrow> start_succeeded u r s' \<Longrightarrow> start_succeeded s r s'"
  using same_fields [of s u] by (simp add: start_succeeded_def)

lemma start_failure_outcome:
  "start_failure c u = Inr (r, s') \<Longrightarrow> same s u \<Longrightarrow> - 9 \<le> c \<Longrightarrow> c < 0 \<Longrightarrow> start_failed s r s'"
  by (auto simp: start_failure_def start_failed_def)

lemma start_hostapd_outcome:
  assumes "threads_ok s" "start_hostapd E s = Inr (r, s')"
  shows "start_succeeded s r s' \<or> start_failed s r s'"
proof -
  from assms(2) obtain s1 s2 g s3 where pre: "check_and_resolve_conflicts_with_NM E s = Inr s1"
    "check_if_firewalld_running_and_allow_dhcp_traffic E s1 = Inr s2" "GenerateHostApConfFile E (wifi s2) s2 = Inr (g, s3)"
    by (auto simp: start_hostapd_def)
  have same3: "same s s3"
    by (rule same_generate [OF pre(3) same_firewalld [OF pre(2) same_NM [OF pre(1) same_refl]]])
  show ?thesis
  proof (cases "g = 0")
    case False
    with pre assms(2) start_failure_outcome [OF _ same3] show ?thesis by (simp add: start_hostapd_def)
  next
    case True
    obtain i where i: "iface s3 = Inr i" using pre True assms(2) by (auto simp: start_hostapd_def)
    obtain st s4 where s4: "system E (script_cmd E COMMAND_WIFI_HW_START i) s3 = (st, s4)" by fastforce
    obtain st' s5 where s5: "system E (script_cmd E COMMAND_WIFIAP_HOSTAPD_START i) s4 = (st', s5)" by fastforce
    have same4: "same s s4" using same_steps(1) [OF same3, of E] s4 by (metis snd_conv)
    have same5: "same s s5" using same_steps(1) [OF same4, of E] s5 by (metis snd_conv)
    have ok5: "threads_ok s5" using same_threads_ok [OF same5] assms(1) by simp
    have run: "(if WEXITSTATUS st = 0 then
           (if \<not> WIFEXITED st' \<or> WEXITSTATUS st' \<noteq> 0
            then start_failure (- 7) (remove_file E WIFI_HOSTAPD_FILE s5)
            else start_event_thread E s5)
         else if WEXITSTATUS st = 50 then start_failure (- 4) s4
         else if WEXITSTATUS st = 100 then start_failure (- 5) s4
         else start_failure (- 6) s4) = Inr (r, s')"
      using assms(2) by (simp add: start_hostapd_def pre True i s4 s5 cong: if_cong)
    note fail = start_failure_outcome [OF _ same4] start_failure_outcome [OF _ same_steps(3) [OF same5, of E]]
    note good = same_start_succeeded [OF same5 start_event_thread_outcome [OF ok5]]
    from run show ?thesis
      by (simp split: if_splits) (use fail good in \<open>auto\<close>)
  qed
qed

lemma startAp_outcome:
  assumes "threads_ok s" "startAp E s = Inr (r, s')"
  shows "start_succeeded s r s' \<or> start_failed s r s'"
proof -
  obtain clean s1 where s1: "clean_left E s = Inr (clean, s1)" using assms(2) by (auto simp: startAp_def)
  have same1: "same s s1"
    using s1 same_config_left [OF same_refl, of s E]
    by (auto simp: clean_left_def split_beta Let_def intro: same_steps split: if_splits)
  show ?thesis
  proof (cases clean)
    case False
    with assms(2) s1 start_failure_outcome [OF _ same1] show ?thesis by (simp add: startAp_def)
  next
    case True
    obtain e s2 where s2: "setDnsmasqService E s1 = Inr (e, s2)"
      using assms(2) s1 True by (auto simp: startAp_def)
    note out = setDnsmasqService_outcome [OF s2]
    show ?thesis
    proof (cases "e = 0")
      case False
      with out obtain u where u: "same s1 u" "s2 = set_status Status_fail u" by (auto simp: dnsmasq_outcome_def)
      have "r = - 8 \<and> s' = set_status Status_fail (set_status Status_fail u)"
        using u(2) False assms(2) s1 s2 True by (auto simp: startAp_def start_failure_def)
      moreover have "set_status Status_fail (set_status Status_fail u) = set_status Status_fail u"
        by (simp add: set_status_def)
      ultimately show ?thesis using start_failedI [OF same_trans [OF same1 u(1)], of r] by auto
    next
      case e: True
      with out have same2: "same s s2" using same_trans [OF same1] by (simp add: dnsmasq_outcome_def)
      have ok2: "threads_ok s2" using same_threads_ok [OF same2] assms(1) by simp
      have fail: "start_failed s r s'" if "start_failure c s2 = Inr (r, s')" "- 9 \<le> c" "c < 0" for c
        by (rule start_failure_outcome [OF that(1) same2 that(2,3)])
      have good: "start_succeeded s r s' \<or> start_failed s r s'" if "start_hostapd E s2 = Inr (r, s')"
        using start_hostapd_outcome [OF ok2 that] same_start_succeeded [OF same2]
        by (auto simp: start_failed_def intro: same_trans [OF same2])
      have "(if hd (ssid (wifi s2)) = NUL then start_failure (- 1) s2
        else if channelNumber (wifi s2) < MIN_CHANNEL_VALUE (wifi s2) \<or>
                channelNumber (wifi s2) > MAX_CHANNEL_VALUE (wifi s2) then start_failure (- 2) s2
        else start_hostapd E s2) = Inr (r, s')"
        using assms(2) by (simp add: startAp_def s1 True s2 e)
      then show ?thesis using fail [of "- 1"] fail [of "- 2"] good by (simp split: if_splits)
    qed
  qed
qed

section \<open>Replies\<close>

text \<open>The replies sent so far; an operation that sends none is silent.\<close>

fun replies :: "call list \<Rightarrow> (reply_status \<times> string option) list" where
  "replies [] = []"
| "replies (c # cs) = (case c of Reply st p \<Rightarrow> [(st, p)] | _ \<Rightarrow> []) @ replies cs"

lemma replies_append [simp]: "replies (xs @ ys) = replies xs @ replies ys"
  by (induction xs) auto

definition silent :: "'a world_scheme \<Rightarrow> 'a world_scheme \<Rightarrow> bool" where
  "silent s s' \<longleftrightarrow> replies (calls s') = replies (calls s)"

lemma silent_refl [simp]: "silent s s"
  by (simp add: silent_def)

lemma silent_trans: "silent s t \<Longrightarrow> silent t u \<Longrightarrow> silent s u"
  by (simp add: silent_def)

lemma silent_calls: "calls s' = calls t \<Longrightarrow> silent s t \<Longrightarrow> silent s s'"
  by (simp add: silent_def)

lemma silent_ask: "silent s t \<Longrightarrow> replies [c] = [] \<Longrightarrow> silent s (snd (ask E c t))"
  by (simp add: silent_def)

lemma silent_steps:
  assumes "silent s t"
  shows "silent s (snd (system E c t))" "silent s (remove_file E p t)"
    "silent s (snd (fopen_r E p t))" "silent s (snd (fopen_w E p t))" "silent s (fprintf E p d t)"
    "silent s (snd (fwrite E p d t))"
  using assms
  by (simp_all add: silent_def remove_file_def fopen_r_def fopen_w_def fprintf_def fwrite_def split_beta Let_def)

lemma silent_writeApConfigFile: "silent s t \<Longrightarrow> silent s (snd (writeApConfigFile E d f t))"
  unfolding writeApConfigFile_def
  by (auto simp: split_beta Let_def intro: silent_steps split: option.splits)

lemma silent_config_left: "silent s t \<Longrightarrow> silent s (snd (config_left E t))"
  unfolding config_left_def checkFileExists_def by (auto simp: split_beta Let_def intro: silent_steps)

lemma silent_hosts: "createHostsConfigFile E ap h t = Inr (r, s') \<Longrightarrow> silent s t \<Longrightarrow> silent s s'"
  unfolding createHostsConfigFile_def
  by (auto simp: split_beta Let_def split: if_splits option.splits intro: silent_steps)

lemma silent_dnsmasq: "createDnsmasqConfigFile E ap a b d t = Inr (r, s') \<Longrightarrow> silent s t \<Longrightarrow> silent s s'"
  unfolding createDnsmasqConfigFile_def
  by (auto simp only: split_beta Let_def split: if_splits option.splits intro!: silent_steps)

lemma silent_generate: "GenerateHostApConfFile E d t = Inr (r, s') \<Longrightarrow> silent s t \<Longrightarrow> silent s s'"
  unfolding GenerateHostApConfFile_def give_up_def
  by (auto simp: split_beta Let_def split: if_splits option.splits intro!: silent_steps silent_writeApConfigFile)

lemma silent_NM: "check_and_resolve_conflicts_with_NM E t = Inr s' \<Longrightarrow> silent s t \<Longrightarrow> silent s s'"
  unfolding check_and_resolve_conflicts_with_NM_def
  by (auto simp: split_beta Let_def split: if_splits intro: silent_steps)

lemma silent_firewalld:
  "check_if_firewalld_running_and_allow_dhcp_traffic E t = Inr s' \<Longrightarrow> silent s t \<Longrightarrow> silent s s'"
  unfolding check_if_firewalld_running_and_allow_dhcp_traffic_def
  by (auto simp: split_beta Let_def split: if_splits intro: silent_steps)

lemma silent_set_status: "silent s t \<Longrightarrow> silent s (set_status st t)"
  by (simp add: silent_def set_status_def)

lemma silent_run_dnsmasq: "run_dnsmasq E cidr t = Inr (r, s') \<Longrightarrow> silent s t \<Longrightarrow> silent s s'"
  unfolding run_dnsmasq_def dnsmasq_failed_def
  by (auto simp: split_beta Let_def split: if_splits intro!: silent_set_status silent_steps
      elim!: silent_hosts silent_dnsmasq)

lemma silent_setDnsmasqService: "setDnsmasqService E t = Inr (r, s') \<Longrightarrow> silent s t \<Longrightarrow> silent s s'"
  unfolding setDnsmasqService_def dnsmasq_failed_def
  by (auto simp: split_beta Let_def split: if_splits option.splits intro: silent_set_status silent_run_dnsmasq)

text \<open>
  The thread module, with the destructor of the event thread, touches only the objects, the list, the mutex
  and the pipe. This is said once, for any part of the state that none of these belongs to.
\<close>

locale untouched =
  fixes part :: "'a service_scheme \<Rightarrow> 'b"
  assumes part_ask: "replies [c] = [] \<Longrightarrow> part (snd (ask E c s)) = part s"
    and part_system: "part (snd (system E q s)) = part s"
    and part_objects: "part (s\<lparr>objects := h\<rparr>) = part s"
    and part_list: "part (s\<lparr>threadList := l\<rparr>) = part s"
    and part_mutex: "part (s\<lparr>Mutex := m\<rparr>) = part s"
    and part_next: "part (s\<lparr>next_obj := n\<rparr>) = part s"
    and part_pipe: "part (s\<lparr>IwThreadPipePtr := p\<rparr>) = part s"
begin

lemma put_unlock: "part (put_obj a t s) = part s" "part (unlock s) = part s"
  by (simp_all add: put_obj_def unlock_def part_objects part_mutex)

lemmas parts = part_ask part_system part_objects part_list part_mutex part_next part_pipe put_unlock

lemma find_locked_part: "find_locked i t = Inr (p, s') \<Longrightarrow> part s' = part t"
  by (auto simp: find_locked_def lock_def parts split: if_splits)

lemma setThreadJoinable_part: "setThreadJoinable E i t = Inr (r, s') \<Longrightarrow> part s' = part t"
  unfolding setThreadJoinable_def
  by (auto simp: split_beta Let_def parts dest!: find_locked_part split: if_splits option.splits)

lemma addDestructor_part: "addDestructorToThread E i d c t = Inr (r, s') \<Longrightarrow> part s' = part t"
  unfolding addDestructorToThread_def AddDestructor_def
  by (auto simp: split_beta Let_def parts dest!: find_locked_part split: if_splits option.splits)

lemma startThread_part: "startThread E i t = Inr (r, s') \<Longrightarrow> part s' = part t"
  unfolding startThread_def
  by (auto simp: split_beta Let_def parts dest!: find_locked_part split: if_splits option.splits)

lemma CreateThread_part: "CreateThread E n m c t = Inr (r, s') \<Longrightarrow> part s' = part t"
  unfolding CreateThread_def
  by (auto simp: split_beta Let_def parts lock_def split: if_splits)

lemma cancelThread_part:
  assumes "cancelThread E i t = Inr (r, s')"
  shows "part s' = part t"
proof -
  obtain t1 p where t1: "lock t = Inr t1" "findThreadFromIdInList t1 i = Inr p"
    using assms by (auto simp: cancelThread_def)
  have part1: "part t1 = part t" using t1(1) by (auto simp: lock_def part_mutex split: if_splits)
  show ?thesis
  proof (cases p)
    case None
    with assms t1 part1 show ?thesis by (simp add: cancelThread_def)
  next
    case (Some a)
    obtain x where "get_obj a t1 = Inr x" using assms t1 Some by (auto simp: cancelThread_def)
    with assms t1 Some have "s' = snd (ask E (Pthread_cancel (threadHandle x)) t1) \<or>
        s' = unlock (snd (ask E (Pthread_cancel (threadHandle x)) t1))"
      by (auto simp: cancelThread_def Let_def split_beta split: if_splits)
    with part1 show ?thesis by (auto simp: put_unlock part_ask)
  qed
qed

lemma destructor_part: "call_destructor E f c t = Inr s' \<Longrightarrow> part s' = part t"
  by (cases f) (auto simp: threadDestructorFunc_def parts split_beta Let_def split: option.splits)

lemma run_destructors_part:
  assumes "run_destructors (call_destructor E) a t = Inr s'"
  shows "part s' = part t"
proof -
  obtain x where x: "get_obj a t = Inr x" using assms by (auto simp: run_destructors_def)
  show ?thesis
  proof (cases "destructorList x")
    case Nil
    with assms x show ?thesis by (simp add: run_destructors_def)
  next
    case (Cons d ds)
    obtain s1 where s1: "(case destructor d of None \<Rightarrow> Inr t | Some f \<Rightarrow> call_destructor E f (d_context d) t) = Inr s1"
      using assms x Cons by (auto simp: run_destructors_def)
    have "part s1 = part t" using s1 by (cases "destructor d") (auto elim!: destructor_part)
    moreover have "part s' = part s1"
      using assms x Cons s1 by (auto simp: run_destructors_def Let_def parts split: if_splits)
    ultimately show ?thesis by simp
  qed
qed

lemma CleanupThread_part:
  assumes "CleanupThread E (call_destructor E) a t = Inr s'"
  shows "part s' = part t"
proof -
  obtain t0 s1 s4 and t1 :: thread_Obj where c: "run_destructors (call_destructor E) a (put_obj a (t0\<lparr>threadState := THREAD_STATE_DYING\<rparr>) t) = Inr s1"
    "(if isJoinable t1 then Inr s1
      else bindE (lock s1) (\<lambda>s2. bindE (unlink a s2) (\<lambda>s3. DeleteThread a (unlock s3)))) = Inr s4"
    "(let (cur, s5) = ask E Getspecific s4 in Inr (if cur \<noteq> 0 then snd (ask E Setspecific s5) else s5)) =
      (Inr s' :: fault + 'a service_scheme)"
    using assms unfolding CleanupThread_def bindE_eq_Inr by blast
  have "part s1 = part t" using run_destructors_part [OF c(1)] by (simp add: parts)
  moreover have "part s4 = part s1"
    using c(2) by (auto simp: lock_def unlink_def DeleteThread_def parts split: if_splits)
  ultimately show ?thesis using c(3) by (auto simp: parts split_beta Let_def)
qed

lemma JoinThread_part:
  assumes "JoinThread E (call_destructor E) i t = Inr (r, s')"
  shows "part s' = part t"
proof -
  obtain p s1 where f: "find_locked i t = Inr (p, s1)" using assms by (auto simp: JoinThread_def)
  note s1 = find_locked_part [OF f]
  show ?thesis
  proof (cases p)
    case None
    with assms f s1 show ?thesis by (simp add: JoinThread_def)
  next
    case (Some a)
    obtain x where x: "get_obj a s1 = Inr x" using assms f Some by (auto simp: JoinThread_def)
    let ?s2 = "snd (ask E (Pthread_join (threadHandle x)) s1)"
    have s2: "part ?s2 = part t" using s1 by (simp add: parts)
    show ?thesis
    proof (cases "isJoinable x \<and> threadHandle x \<noteq> 0 \<and> fst (ask E (Pthread_join (threadHandle x)) s1) = 0")
      case False
      with assms f Some x s1 s2 show ?thesis
        by (auto simp: JoinThread_def Let_def split_beta split: if_splits)
    next
      case True
      obtain s3 where s3: "(if threadState x = THREAD_STATE_DYING then Inr ?s2
          else CleanupThread E (call_destructor E) a ?s2) = Inr s3" "part s' = part s3"
        using assms f Some x True
        by (auto simp: JoinThread_def Let_def split_beta lock_def unlink_def DeleteThread_def parts split: if_splits)
      then have "part s3 = part ?s2" by (auto elim!: CleanupThread_part split: if_splits)
      with s3(2) s2 show ?thesis by simp
    qed
  qed
qed

end

interpretation rest: untouched
  "\<lambda>s :: 'a service_scheme. (wifi s, blocks s, brk s, wifiApThreadPtr s, clients s, replies (calls s))"
  by unfold_locales (simp_all add: system_def ask_def split_beta)

lemmas thread_silent =
  rest.setThreadJoinable_part rest.addDestructor_part rest.startThread_part rest.CreateThread_part
  rest.cancelThread_part rest.CleanupThread_part rest.JoinThread_part

text \<open>Starting.\<close>

lemma silent_start_event_thread:
  assumes "start_event_thread E t = Inr (r, s')" "silent s t"
  shows "silent s s'"
proof -
  from assms(1) obtain a s1 i r3 s3 j r4 s4 k r5 s5 where run:
    "CreateThread E ''WifiApThread'' Ptr_WifiApThreadMainFunc (interfaceName (wifi t)) t = Inr (Some a, s1)"
    "setThreadJoinable E i (s1\<lparr>wifiApThreadPtr := Some a\<rparr>) = Inr (r3, s3)"
    "addDestructorToThread E j (Some Ptr_threadDestructorFunc) (WIFI_SCRIPT E) s3 = Inr (r4, s4)"
    "startThread E k s4 = Inr (r5, s5)" "s' = set_status Status_started s5"
    by (auto simp: start_event_thread_def Let_def split: option.splits)
  from thread_silent(4) [OF run(1)] thread_silent(1) [OF run(2)] thread_silent(2) [OF run(3)]
    thread_silent(3) [OF run(4)] have "silent s s5"
    using assms(2) by (simp add: silent_def)
  then show ?thesis unfolding run(5) by (rule silent_set_status)
qed

lemma silent_start_failure: "start_failure c t = Inr (r, s') \<Longrightarrow> silent s t \<Longrightarrow> silent s s'"
  by (auto simp: start_failure_def intro: silent_set_status)

lemma silent_start_hostapd:
  assumes "start_hostapd E t = Inr (r, s')" "silent s t"
  shows "silent s s'"
proof -
  from assms(1) obtain s1 s2 g s3 where pre: "check_and_resolve_conflicts_with_NM E t = Inr s1"
    "check_if_firewalld_running_and_allow_dhcp_traffic E s1 = Inr s2" "GenerateHostApConfFile E (wifi s2) s2 = Inr (g, s3)"
    by (auto simp: start_hostapd_def)
  have s3: "silent s s3"
    by (rule silent_generate [OF pre(3) silent_firewalld [OF pre(2) silent_NM [OF pre(1) assms(2)]]])
  with assms(1) pre show ?thesis
    by (auto simp: start_hostapd_def Let_def split_beta split: if_splits
        elim!: silent_start_failure silent_start_event_thread intro!: silent_steps)
qed

lemma silent_clean_left: "clean_left E t = Inr (c, s') \<Longrightarrow> silent s t \<Longrightarrow> silent s s'"
  by (auto simp: clean_left_def split_beta Let_def intro: silent_steps silent_config_left split: if_splits)

lemma silent_startAp:
  assumes "startAp E t = Inr (r, s')" "silent s t"
  shows "silent s s'"
proof -
  obtain c s1 where s1: "clean_left E t = Inr (c, s1)" using assms(1) by (auto simp: startAp_def)
  note q1 = silent_clean_left [OF s1 assms(2)]
  show ?thesis
  proof (cases c)
    case False
    with assms(1) s1 q1 show ?thesis by (auto simp: startAp_def elim!: silent_start_failure)
  next
    case True
    obtain e s2 where s2: "setDnsmasqService E s1 = Inr (e, s2)" using assms(1) s1 True by (auto simp: startAp_def)
    note q2 = silent_setDnsmasqService [OF s2 q1]
    with assms(1) s1 s2 True show ?thesis
      by (auto simp: startAp_def split: if_splits elim!: silent_start_failure silent_start_hostapd)
  qed
qed

section \<open>When every command succeeds\<close>

text \<open>
  The platform commands do to the three files what the script does, for an interface \<open>i\<close>; what they do to other files, and what else
  they do, is left open. The shell takes the leading space of a verb as a separator. The two other commands
  only ask whether a service runs.
\<close>

definition service_files :: "string list" where
  "service_files = [HOSTS_FILE, DNSMASQ_FILE, WIFI_HOSTAPD_FILE]"

definition address_arg :: "string \<Rightarrow> bool" where
  "address_arg a = list_all (\<lambda>c. is_digit c \<or> c \<in> set ''./-'') a"

definition obedient :: "env \<Rightarrow> string \<Rightarrow> bool" where
  "obedient E i \<longleftrightarrow> (\<forall>h f. \<forall>x \<in> set service_files.
     (\<forall>c \<in> set [COMMAND_WIFI_NM_UNMANAGE, COMMAND_WIFI_FIREWALLD_ALLOW, COMMAND_WIFI_HW_START, COMMAND_WIFI_HW_STOP,
         COMMAND_WIFIAP_HOSTAPD_START, COMMAND_WIFIAP_HOSTAPD_STOP].
        effect E h (script_cmd E c i) f x = script_files (tl c) i f x) \<and>
     (\<forall>c \<in> set [COMMAND_WIFIAP_WLAN_UP, COMMAND_DNSMASQ_RESTART]. \<forall>a. address_arg a \<longrightarrow>
        effect E h (script_cmd2 E c i a) f x = script_files (tl c) i f x) \<and>
     (\<forall>c \<in> set [''nmcli -v >/dev/null'', ''pgrep firewalld >/dev/null'']. effect E h c f x = f x))"

lemmas command_defs = COMMAND_WIFI_HW_START_def COMMAND_WIFI_HW_STOP_def COMMAND_WIFI_FIREWALLD_ALLOW_def
  COMMAND_WIFI_NM_UNMANAGE_def COMMAND_WIFIAP_HOSTAPD_START_def COMMAND_WIFIAP_HOSTAPD_STOP_def COMMAND_WIFIAP_WLAN_UP_def
  COMMAND_DNSMASQ_RESTART_def

lemmas file_defs = HOSTS_FILE_def DNSMASQ_FILE_def WIFI_HOSTAPD_FILE_def

lemma obedient_leaves:
  assumes "obedient E i" "x \<in> set service_files"
  shows "c \<in> {COMMAND_WIFI_NM_UNMANAGE, COMMAND_WIFI_FIREWALLD_ALLOW, COMMAND_WIFI_HW_START, COMMAND_WIFIAP_HOSTAPD_START} \<Longrightarrow>
      effect E h (script_cmd E c i) f x = f x"
    and "c \<in> {''nmcli -v >/dev/null'', ''pgrep firewalld >/dev/null''} \<Longrightarrow> effect E h c f x = f x"
  using assms unfolding obedient_def by (auto simp: script_files_def command_defs)

lemma obedient_restart:
  assumes "obedient E i" "address_arg a" "x \<in> set service_files"
  shows "effect E h (script_cmd2 E COMMAND_DNSMASQ_RESTART i a) f x =
    (if x = DNSMASQ_FILE then Some ((case f x of None \<Rightarrow> [] | Some t \<Rightarrow> t) @ interface_line i) else f x)"
  using assms unfolding obedient_def by (auto simp: script_files_def command_defs)

lemma inet_octets_chars: "inet_octets k s = Some os \<Longrightarrow> list_all (\<lambda>c. is_digit c \<or> c = CHR ''.'') s"
proof (induction k s arbitrary: os rule: inet_octets.induct)
  case (1 s)
  then show ?case by (simp split: if_splits)
next
  case (2 k s)
  from "2.prems" obtain v r where o: "inet_octet s = Some (v, r)" by (auto split: option.splits)
  then have s: "s = takeWhile is_digit s @ r" by (auto simp: inet_octet_def Let_def split: if_splits)
  have d: "list_all is_digit (takeWhile is_digit s)" by (auto simp: list_all_iff dest: set_takeWhileD)
  have "list_all (\<lambda>c. is_digit c \<or> c = CHR ''.'') r"
  proof (cases "k = 0")
    case True
    with "2.prems" o show ?thesis by (auto split: if_splits)
  next
    case False
    with "2.prems" o obtain r' os' where r: "r = CHR ''.'' # r'" and os': "inet_octets k r' = Some os'"
      by (auto split: list.splits if_splits)
    with "2.IH" [OF o refl False r refl os'] show ?thesis by simp
  qed
  with d show ?case by (subst s) (auto simp: list_all_iff)
qed

lemma address_arg_cidr: "inet_pton b = Some a \<Longrightarrow> address_arg (take 127 (cstr b @ ''/'' @ show_int n))"
proof -
  assume "inet_pton b = Some a"
  then have "list_all (\<lambda>c. is_digit c \<or> c = CHR ''.'') (cstr b)" by (auto simp: inet_pton_def intro: inet_octets_chars)
  moreover have "list_all (\<lambda>c. is_digit c \<or> c = CHR ''-'') (show_int n)"
    using show_nat_digits by (auto simp: show_int_def list_all_iff)
  ultimately show ?thesis by (auto simp: address_arg_def list_all_iff dest!: in_set_takeD)
qed

lemma calm_system:
  "calm E \<Longrightarrow> system E c s = (0, s\<lparr>calls := calls s @ [System c], files := effect E (calls s) c (files s)\<rparr>)"
  by (simp add: system_def calm_ask)

text \<open>What a state needs to be started: names that are set, addresses, and a channel in the stored range.\<close>

definition addresses_ok :: "wifiApT \<Rightarrow> bool" where
  "addresses_ok w \<longleftrightarrow> (\<exists>ap lo hi nm. inet_pton (ip_ap w) = Some ap \<and> inet_pton (ip_start w) = Some lo \<and>
     inet_pton (ip_stop w) = Some hi \<and> inet_pton (ip_netmask w) = Some nm \<and>
     \<not> (min lo hi \<le> ap \<and> ap \<le> max lo hi))"

definition names_set :: "'a ap_scheme \<Rightarrow> bool" where
  "names_set s \<longleftrightarrow> (\<exists>i. iface s = Inr i) \<and> (\<exists>h. deref (hostName (wifi s)) s = Inr h) \<and>
     (\<exists>d. deref (domainName (wifi s)) s = Inr d)"

definition startable :: "'a ap_scheme \<Rightarrow> bool" where
  "startable s \<longleftrightarrow> params_ok (wifi s) \<and> names_set s \<and> addresses_ok (wifi s) \<and>
     in_range (stored_range (wifi s)) (unat (channelNumber (wifi s)))"

lemma swap_min_max: "order_range a b = (min a b, max a b)"
proof -
  have "b XOR (a XOR b) = a" "(a XOR b) XOR (b XOR (a XOR b)) = b"
    by (auto simp: bit_eq_iff bit_xor_iff)
  then show ?thesis by (auto simp: order_range_def Let_def min_def max_def)
qed

lemma inet_pton_nonempty: "inet_pton b = Some a \<Longrightarrow> b \<noteq> [] \<and> hd b \<noteq> NUL"
proof -
  have "inet_octets 4 [] = None" by (simp add: inet_octet_def numeral_eq_Suc)
  moreover assume "inet_pton b = Some a"
  ultimately have "cstr b \<noteq> []" by (auto simp: inet_pton_def)
  then show ?thesis by (simp add: cstr_eq_Nil)
qed

lemma setDnsmasqService_cases:
  assumes "inet_pton (ip_ap (wifi s)) = Some ap" "inet_pton (ip_start (wifi s)) = Some lo"
    "inet_pton (ip_stop (wifi s)) = Some hi" "inet_pton (ip_netmask (wifi s)) = Some nm"
  shows "setDnsmasqService E s =
    (if min lo hi \<le> ap \<and> ap \<le> max lo hi then Inr (- 2, set_status Status_fail s)
     else run_dnsmasq E (take 127 (cstr (ip_ap (wifi s)) @ ''/'' @
       show_int (toCidr (stack_junk E) (ip_netmask (wifi s))))) s)"
  using assms assms [THEN inet_pton_nonempty]
  by (simp add: setDnsmasqService_def Let_def swap_min_max dnsmasq_failed_def)

lemma name_arg_deref: "deref p s = Inr v \<Longrightarrow> name_arg p s = Inr (Some v)"
  by (cases p) (simp_all add: name_arg_def deref_def split: option.splits)

lemma same_deref: "same s s' \<Longrightarrow> deref p s' = deref p s"
  using same_fields(2) [of s s'] by (rule deref_cong)

lemma calm_fopen_w: "calm E \<Longrightarrow> fopen_w E p s = (True, s\<lparr>calls := calls s @ [Fopen_w p], files := (files s)(p \<mapsto> [])\<rparr>)"
  by (simp add: fopen_w_def calm_ask)

lemma calm_fprintf:
  "calm E \<Longrightarrow> fprintf E p d s = s\<lparr>calls := calls s @ [Fwrite p d],
     files := (files s)(p \<mapsto> (case files s p of None \<Rightarrow> [] | Some c \<Rightarrow> c) @ d)\<rparr>"
  by (simp add: fprintf_def fwrite_def calm_ask Let_def)

lemma calm_hosts:
  assumes "calm E"
  shows "\<exists>s'. createHostsConfigFile E ap (Some h) s = Inr (0, s') \<and> files s' = (files s)(HOSTS_FILE \<mapsto> hosts_text ap h)"
  by (simp add: createHostsConfigFile_def calm_fopen_w [OF assms] calm_fprintf [OF assms] hosts_text_def)

lemma calm_dnsmasq:
  assumes "calm E"
  shows "\<exists>s'. createDnsmasqConfigFile E ap a b (Some d) s = Inr (0, s') \<and>
    files s' = (files s)(DNSMASQ_FILE \<mapsto> dnsmasq_text ap a b d)"
proof -
  have n: "show_int 24 = ''24''" "show_int 3 = ''3''" "show_int 6 = ''6''" by code_simp+
  show ?thesis
    by (simp add: createDnsmasqConfigFile_def calm_fopen_w [OF assms] calm_fprintf [OF assms] dnsmasq_text_def n Let_def)
qed

lemma calm_generate:
  assumes "params_ok d" "calm E"
  shows "\<exists>s'. GenerateHostApConfFile E d s = Inr (0, s') \<and> files s' = (files s)(WIFI_HOSTAPD_FILE \<mapsto> hostapd_conf d)"
proof -
  obtain r s' where w: "write_file (fopen_w E) (fwrite E) (remove_file E) WIFI_HOSTAPD_FILE (hostapd_chunks d) s = (r, s')"
    by fastforce
  then have "r = 0"
    using assms(2) by (auto simp: write_file_def hostapd_chunks_def split_beta Let_def fopen_w_def fwrite_def ask_def calm_def)
  with disk.write_file_result [OF w] GenerateHostApConfFile_writes [OF assms(1), of E s] w show ?thesis
    by (auto simp: hostapd_conf_def)
qed

lemma calm_run_dnsmasq:
  assumes "calm E" "iface s = Inr i" "deref (hostName (wifi s)) s = Inr h" "deref (domainName (wifi s)) s = Inr d"
  shows "\<exists>s'. run_dnsmasq E cidr s = Inr (0, s') \<and> (obedient E i \<and> address_arg cidr \<longrightarrow>
    files s' HOSTS_FILE = Some (hosts_text (cstr (ip_ap (wifi s))) h) \<and>
    files s' DNSMASQ_FILE =
      Some (dnsmasq_text (cstr (ip_ap (wifi s))) (cstr (ip_start (wifi s))) (cstr (ip_stop (wifi s))) d @ interface_line i))"
proof -
  let ?up = "script_cmd2 E COMMAND_WIFIAP_WLAN_UP i (cstr (ip_ap (wifi s)))"
  define s1 where "s1 = s\<lparr>calls := calls s @ [System ?up], files := effect E (calls s) ?up (files s)\<rparr>"
  have h: "name_arg (hostName (wifi s)) s1 = Inr (Some h)"
    using assms(3) deref_cong [of s1 s] by (intro name_arg_deref) (simp add: s1_def)
  from calm_hosts [OF assms(1), of "cstr (ip_ap (wifi s))" h s1] obtain s2 where
    s2: "createHostsConfigFile E (cstr (ip_ap (wifi s))) (Some h) s1 = Inr (0, s2)"
    "files s2 = (files s1)(HOSTS_FILE \<mapsto> hosts_text (cstr (ip_ap (wifi s))) h)" by blast
  have "blocks s2 = blocks s1" using s2(1) assms(1)
    by (auto simp: createHostsConfigFile_def calm_fopen_w calm_fprintf)
  then have b: "blocks s2 = blocks s" by (simp add: s1_def)
  have d: "name_arg (domainName (wifi s)) s2 = Inr (Some d)"
    using assms(4) deref_cong [OF b] by (intro name_arg_deref) simp
  from calm_dnsmasq [OF assms(1), of "cstr (ip_ap (wifi s))" "cstr (ip_start (wifi s))"
      "cstr (ip_stop (wifi s))" d s2] obtain s3 where
    s3: "createDnsmasqConfigFile E (cstr (ip_ap (wifi s))) (cstr (ip_start (wifi s))) (cstr (ip_stop (wifi s))) (Some d) s2
      = Inr (0, s3)"
    "files s3 = (files s2)(DNSMASQ_FILE \<mapsto>
       dnsmasq_text (cstr (ip_ap (wifi s))) (cstr (ip_start (wifi s))) (cstr (ip_stop (wifi s))) d)" by blast
  let ?re = "script_cmd2 E COMMAND_DNSMASQ_RESTART i cidr"
  let ?s4 = "s3\<lparr>calls := calls s3 @ [System ?re], files := effect E (calls s3) ?re (files s3)\<rparr>"
  have "run_dnsmasq E cidr s = Inr (0, ?s4)"
    using assms(2) h d s2 s3
    by (simp add: run_dnsmasq_def Let_def calm_system [OF assms(1)] del: bindE_eq_Inr flip: s1_def)
  moreover have "files ?s4 HOSTS_FILE = Some (hosts_text (cstr (ip_ap (wifi s))) h) \<and>
      files ?s4 DNSMASQ_FILE =
        Some (dnsmasq_text (cstr (ip_ap (wifi s))) (cstr (ip_start (wifi s))) (cstr (ip_stop (wifi s))) d @ interface_line i)"
    if "obedient E i" "address_arg cidr"
    using obedient_restart [OF that, of _ "calls s3" "files s3"] s2(2) s3(2)
    by (simp add: service_files_def) (simp add: file_defs)
  ultimately show ?thesis by blast
qed

lemma calm_start_event_thread:
  assumes "threads_ok s" "calm E"
  shows "\<exists>s' t. start_event_thread E s = Inr (0, s') \<and> start_succeeded s 0 s' \<and> files s' = files s \<and>
    objects s' (next_obj s) = Some t \<and> isJoinable t \<and> threadHandle t \<noteq> 0 \<and> length (destructorList t) \<le> 1"
proof -
  have n: "NUL \<notin> set ''WifiApThread''" "\<not> overreads ''WifiApThread'' 24" by code_simp+
  obtain s1 t where s1: "CreateThread E ''WifiApThread'' Ptr_WifiApThreadMainFunc (interfaceName (wifi s)) s =
      Inr (Some (next_obj s), s1)" "threads_ok s1" "moves s s1" "threadList s1 = [next_obj s]"
    "objects s1 = (objects s)(next_obj s \<mapsto> t)" "threadId t = 1" "threadState t = THREAD_STATE_NEW" "destructorList t = []"
    using calm_CreateThread [OF assms n, of Ptr_WifiApThreadMainFunc "interfaceName (wifi s)"] by blast
  define s2 where "s2 = s1\<lparr>wifiApThreadPtr := Some (next_obj s)\<rparr>"
  have s2: "threads_ok s2" "threadList s2 = [next_obj s]" "objects s2 (next_obj s) = Some t" "files s2 = files s"
    using s1 by (simp_all add: s2_def threads_ok_def moves_def)
  obtain s3 t3 where s3: "setThreadJoinable E 1 s2 = Inr (0, s3)" "threads_ok s3" "threadList s3 = [next_obj s]"
    "objects s3 (next_obj s) = Some t3" "threadId t3 = 1" "threadState t3 = THREAD_STATE_NEW" "destructorList t3 = []"
    "isJoinable t3" "files s3 = files s2"
    using calm_prepare(1) [OF s2(1) assms(2) s2(2,3) s1(7)] s1(6-8) by (auto simp: moves_def)
  obtain s4 t4 where s4: "addDestructorToThread E 1 (Some Ptr_threadDestructorFunc) (WIFI_SCRIPT E) s3 = Inr (0, s4)"
    "threads_ok s4" "threadList s4 = [next_obj s]" "objects s4 (next_obj s) = Some t4" "threadId t4 = 1"
    "threadState t4 = THREAD_STATE_NEW" "length (destructorList t4) \<le> 1" "isJoinable t4" "files s4 = files s3"
    using calm_prepare(2) [OF s3(2) assms(2) s3(3,4,6), of "Some Ptr_threadDestructorFunc" "WIFI_SCRIPT E"] s3(5-8)
    by (auto simp: moves_def)
  obtain s5 t5 where s5: "startThread E 1 s4 = Inr (0, s5)" "objects s5 (next_obj s) = Some t5"
    "length (destructorList t5) \<le> 1" "isJoinable t5" "threadHandle t5 \<noteq> 0" "files s5 = files s4"
    using calm_prepare(3) [OF s4(2) assms(2) s4(3,4,6)] s4(5-8) by (auto simp: moves_def)
  have run: "start_event_thread E s = Inr (0, set_status Status_started s5)"
    unfolding start_event_thread_def s1(1) bindE_simps case_prod_conv option.case Let_def
    by (simp add: get_obj_def s2 s3 s4 s5 s1(6) flip: s2_def)
  show ?thesis
    using run start_event_thread_outcome [OF assms(1) run] s5 s4(9) s3(9) s2(4) by (simp add: set_status_def)
qed

lemma threads_ok_same: "threads_ok s \<Longrightarrow> same s s' \<Longrightarrow> threads_ok s'"
  by (simp add: same_threads_ok)

lemma calm_start_hostapd:
  assumes "calm E" "threads_ok s" "params_ok (wifi s)" "iface s = Inr i"
  shows "\<exists>s' t. start_hostapd E s = Inr (0, s') \<and> start_succeeded s 0 s' \<and>
    (obedient E i \<longrightarrow> files s' WIFI_HOSTAPD_FILE = Some (hostapd_conf (wifi s)) \<and>
      files s' HOSTS_FILE = files s HOSTS_FILE \<and> files s' DNSMASQ_FILE = files s DNSMASQ_FILE) \<and>
    objects s' (next_obj s) = Some t \<and> isJoinable t \<and> threadHandle t \<noteq> 0 \<and> length (destructorList t) \<le> 1"
proof -
  note sys = calm_system [OF assms(1)]
  obtain s1 where s1: "check_and_resolve_conflicts_with_NM E s = Inr s1"
    "obedient E i \<Longrightarrow> x \<in> set service_files \<Longrightarrow> files s1 x = files s x" for x
    using assms(4) by (simp add: check_and_resolve_conflicts_with_NM_def sys Let_def obedient_leaves)
  have e1: "same s s1" by (rule same_NM [OF s1(1) same_refl])
  obtain s2 where s2: "check_if_firewalld_running_and_allow_dhcp_traffic E s1 = Inr s2"
    "obedient E i \<Longrightarrow> x \<in> set service_files \<Longrightarrow> files s2 x = files s1 x" for x
    using assms(4) same_deref [OF e1] same_fields(1) [OF e1]
    by (simp add: check_if_firewalld_running_and_allow_dhcp_traffic_def iface_def sys Let_def obedient_leaves)
  have e2: "same s s2" by (rule same_firewalld [OF s2(1) e1])
  have w2: "wifi s2 = wifi s" by (rule same_fields(1) [OF e2])
  obtain s3 where s3: "GenerateHostApConfFile E (wifi s2) s2 = Inr (0, s3)"
    "files s3 = (files s2)(WIFI_HOSTAPD_FILE \<mapsto> hostapd_conf (wifi s2))"
    using calm_generate [OF assms(3,1), of s2] unfolding w2 by blast
  have e3: "same s s3" by (rule same_generate [OF s3(1) e2])
  have i3: "iface s3 = Inr i"
    using assms(4) same_deref [OF e3] same_fields(1) [OF e3] by (simp add: iface_def)
  let ?hw = "script_cmd E COMMAND_WIFI_HW_START i" and ?ap = "script_cmd E COMMAND_WIFIAP_HOSTAPD_START i"
  define s4 where "s4 = s3\<lparr>calls := calls s3 @ [System ?hw], files := effect E (calls s3) ?hw (files s3)\<rparr>"
  define s5 where "s5 = s4\<lparr>calls := calls s4 @ [System ?ap], files := effect E (calls s4) ?ap (files s4)\<rparr>"
  have e5: "same s s5" using e3 by (simp add: same_def s5_def s4_def)
  have f5: "files s5 x = files s3 x" if "obedient E i" "x \<in> set service_files" for x
    using obedient_leaves(1) [OF that] by (simp add: s5_def s4_def)
  obtain s' t where s': "start_event_thread E s5 = Inr (0, s')" "start_succeeded s5 0 s'" "files s' = files s5"
    "objects s' (next_obj s5) = Some t" "isJoinable t" "threadHandle t \<noteq> 0" "length (destructorList t) \<le> 1"
    using calm_start_event_thread [OF threads_ok_same [OF assms(2) e5] assms(1)] by blast
  have "start_hostapd E s = start_event_thread E s5"
    by (simp add: start_hostapd_def s1(1) s2(1) s3(1) i3 sys Let_def s5_def s4_def)
  moreover have "files s' WIFI_HOSTAPD_FILE = Some (hostapd_conf (wifi s)) \<and>
      files s' HOSTS_FILE = files s HOSTS_FILE \<and> files s' DNSMASQ_FILE = files s DNSMASQ_FILE" if "obedient E i"
    using f5 [OF that] s3(2) s2(2) [OF that] s1(2) [OF that] w2 s'(3)
    by (simp add: service_files_def) (simp add: file_defs)
  ultimately show ?thesis using s' same_start_succeeded [OF e5 s'(2)] same_fields(5) [OF e5] by auto
qed

lemma checkFileExists_frame: "files (snd (checkFileExists E p s)) = files s"
  by (simp add: checkFileExists_def split_beta frame_simps Let_def)

lemma calm_clean_left:
  assumes "calm E" "iface s = Inr i"
  shows "\<exists>s'. clean_left E s = Inr (True, s') \<and> same s s'"
proof -
  obtain l s1 where s1: "config_left E s = (l, s1)" by fastforce
  have e1: "same s s1" using same_config_left [OF same_refl, of s E] s1 by simp
  have "iface s1 = Inr i" using assms(2) same_deref [OF e1] same_fields(1) [OF e1] by (simp add: iface_def)
  with s1 e1 show ?thesis
    by (simp add: clean_left_def calm_system [OF assms(1)] Let_def same_def)
qed

lemma calm_startAp:
  assumes "calm E" "threads_ok s" "startable s"
  shows "\<exists>s' t i h d. startAp E s = Inr (0, s') \<and> start_succeeded s 0 s' \<and> iface s = Inr i \<and>
    deref (hostName (wifi s)) s = Inr h \<and> deref (domainName (wifi s)) s = Inr d \<and>
    (obedient E i \<longrightarrow> files s' HOSTS_FILE = Some (hosts_text (cstr (ip_ap (wifi s))) h) \<and>
      files s' DNSMASQ_FILE =
        Some (dnsmasq_text (cstr (ip_ap (wifi s))) (cstr (ip_start (wifi s))) (cstr (ip_stop (wifi s))) d @ interface_line i) \<and>
      files s' WIFI_HOSTAPD_FILE = Some (hostapd_conf (wifi s))) \<and>
    objects s' (next_obj s) = Some t \<and> isJoinable t \<and> threadHandle t \<noteq> 0 \<and> length (destructorList t) \<le> 1"
proof -
  from assms(3) obtain i h d ap lo hi nmask where nm: "iface s = Inr i" "deref (hostName (wifi s)) s = Inr h"
    "deref (domainName (wifi s)) s = Inr d" and p: "params_ok (wifi s)"
    and a: "inet_pton (ip_ap (wifi s)) = Some ap" "inet_pton (ip_start (wifi s)) = Some lo"
      "inet_pton (ip_stop (wifi s)) = Some hi" "inet_pton (ip_netmask (wifi s)) = Some nmask" "\<not> (min lo hi \<le> ap \<and> ap \<le> max lo hi)"
    and ch: "in_range (stored_range (wifi s)) (unat (channelNumber (wifi s)))"
    by (auto simp: startable_def names_set_def addresses_ok_def)
  obtain s1 where s1: "clean_left E s = Inr (True, s1)" "same s s1"
    using calm_clean_left [OF assms(1) nm(1)] by blast
  note w1 = same_fields(1) [OF s1(2)] and d1 = same_deref [OF s1(2)]
  have n1: "iface s1 = Inr i" "deref (hostName (wifi s1)) s1 = Inr h" "deref (domainName (wifi s1)) s1 = Inr d"
    using nm d1 w1 by (simp_all add: iface_def)
  let ?cidr = "take 127 (cstr (ip_ap (wifi s)) @ ''/'' @ show_int (toCidr (stack_junk E) (ip_netmask (wifi s))))"
  have "setDnsmasqService E s1 = run_dnsmasq E ?cidr s1"
    using setDnsmasqService_cases [of s1 ap lo hi nmask E] a unfolding w1 by (simp only: if_False)
  with calm_run_dnsmasq [OF assms(1) n1, of ?cidr] address_arg_cidr [OF a(1)] obtain s2 where
    s2: "setDnsmasqService E s1 = Inr (0, s2)"
    "obedient E i \<Longrightarrow> files s2 HOSTS_FILE = Some (hosts_text (cstr (ip_ap (wifi s))) h)"
    "obedient E i \<Longrightarrow> files s2 DNSMASQ_FILE =
       Some (dnsmasq_text (cstr (ip_ap (wifi s))) (cstr (ip_start (wifi s))) (cstr (ip_stop (wifi s))) d @ interface_line i)"
    unfolding w1 by auto
  have e2: "same s s2" using setDnsmasqService_outcome [OF s2(1)] same_trans [OF s1(2)] by (simp add: dnsmasq_outcome_def)
  note w2 = same_fields(1) [OF e2] and d2 = same_deref [OF e2]
  have i2: "iface s2 = Inr i" using nm(1) d2 w2 by (simp add: iface_def)
  obtain s' t where s': "start_hostapd E s2 = Inr (0, s')" "start_succeeded s2 0 s'"
    "obedient E i \<longrightarrow> files s' WIFI_HOSTAPD_FILE = Some (hostapd_conf (wifi s)) \<and>
       files s' HOSTS_FILE = files s2 HOSTS_FILE \<and> files s' DNSMASQ_FILE = files s2 DNSMASQ_FILE"
    "objects s' (next_obj s2) = Some t" "isJoinable t" "threadHandle t \<noteq> 0" "length (destructorList t) \<le> 1"
    using calm_start_hostapd [OF assms(1) threads_ok_same [OF assms(2) e2] _ i2] p unfolding w2 by blast
  have "hd (ssid (wifi s)) \<noteq> NUL"
    using params_ok_buffers [OF p] by (cases "ssid (wifi s)") (auto simp: strlen_def)
  moreover have "\<not> channelNumber (wifi s) < MIN_CHANNEL_VALUE (wifi s)" "\<not> channelNumber (wifi s) > MAX_CHANNEL_VALUE (wifi s)"
    using ch by (simp_all add: in_range_def stored_range_def word_le_nat_alt not_less)
  ultimately have run: "startAp E s = start_hostapd E s2"
    by (simp add: startAp_def s1(1) s2(1) w2)
  show ?thesis
    using run s' same_start_succeeded [OF e2 s'(2)] same_fields(5) [OF e2] s2(2,3) nm
    by (intro exI [of _ s'] exI [of _ t] exI [of _ i] exI [of _ h] exI [of _ d]) simp
qed

section \<open>One reply for a request\<close>

definition replied :: "'a world_scheme \<Rightarrow> 'a world_scheme \<Rightarrow> bool" where
  "replied s s' \<longleftrightarrow> (\<exists>x. replies (calls s') = replies (calls s) @ [x])"

lemma replied_reply: "silent s t \<Longrightarrow> replied s (afb_req_reply E st p t)"
  by (simp add: silent_def replied_def afb_req_reply_def)

lemma replied_json: "silent s t \<Longrightarrow> replied s (reply_json E n str t)"
  unfolding reply_json_def
  by (auto simp: split_beta Let_def intro!: replied_reply silent_ask)

lemma start_replied: "start E s = Inr s' \<Longrightarrow> replied s s'"
  by (auto simp: start_def intro!: replied_reply elim!: silent_startAp split: if_splits)

lemma stop_replied:
  assumes "stop E s = Inr s'"
  shows "replied s s'"
proof -
  have fails: "stop_failed E c t = Inr s' \<Longrightarrow> silent s t \<Longrightarrow> replied s s'" for c t
    by (auto simp: stop_failed_def intro!: replied_reply silent_set_status)
  have dones: "stop_done E t = Inr s' \<Longrightarrow> silent s t \<Longrightarrow> replied s s'" for t
    by (auto simp: stop_done_def intro!: replied_reply silent_set_status)
  obtain i where i: "iface s = Inr i" using assms by (auto simp: stop_def)
  obtain st s1 where s1: "system E (script_cmd E COMMAND_WIFIAP_HOSTAPD_STOP i) s = (st, s1)" by fastforce
  obtain st' s2 where s2: "system E (script_cmd E COMMAND_WIFI_HW_STOP i) s1 = (st', s2)" by fastforce
  have q1: "silent s s1" using silent_steps(1) [OF silent_refl, of s E] s1 by (metis snd_conv)
  have q2: "silent s s2" using silent_steps(1) [OF q1, of E] s2 by (metis snd_conv)
  have cancel: "silent s t" if "cancelThread E k s2 = Inr (r, t)" for k r t
    using thread_silent(5) [OF that] q2 by (simp add: silent_def)
  have join: "silent s u" if "cancelThread E k s2 = Inr (r, t)" "JoinThread E (call_destructor E) l t = Inr (r', u)" for k r t l r' u
    using thread_silent(7) [OF that(2)] cancel [OF that(1)] by (simp add: silent_def)
  from assms i s1 s2 show ?thesis
    by (auto simp: stop_def split: if_splits option.splits intro: fails dones q1 q2 cancel join)
qed

lemma quiet_destructor: "quiet (call_destructor E)"
proof -
  have "\<exists>v1. call_destructor E g c v = Inr v1 \<and> registry_frame v v1" for g c and v :: "'a service_scheme"
  proof -
    have "registry_frame v (threadDestructorFunc E c v)"
      by (simp add: threadDestructorFunc_def registry_frame_def system_def split_beta Let_def ask_def split: option.split)
    then show ?thesis by (cases g) simp
  qed
  then show ?thesis by (simp add: quiet_def)
qed

text \<open>The verb \<open>start\<close> when nothing fails.\<close>

lemma calm_start:
  assumes "calm E" "threads_ok s" "startable s" "status (wifi s) \<noteq> Status_started"
  shows "\<exists>s' i h d. start E s = Inr s' \<and> status (wifi s') = Status_started \<and>
    replies (calls s') = replies (calls s) @ [(Success, None)] \<and> iface s = Inr i \<and>
    deref (hostName (wifi s)) s = Inr h \<and> deref (domainName (wifi s)) s = Inr d \<and>
    (obedient E i \<longrightarrow> files s' HOSTS_FILE = Some (hosts_text (cstr (ip_ap (wifi s))) h) \<and>
      files s' DNSMASQ_FILE =
        Some (dnsmasq_text (cstr (ip_ap (wifi s))) (cstr (ip_start (wifi s))) (cstr (ip_stop (wifi s))) d @ interface_line i) \<and>
      files s' WIFI_HOSTAPD_FILE = Some (hostapd_conf (wifi s)))"
proof -
  obtain s1 t i h d where s1: "startAp E s = Inr (0, s1)" "start_succeeded s 0 s1" "iface s = Inr i"
    "deref (hostName (wifi s)) s = Inr h" "deref (domainName (wifi s)) s = Inr d"
    "obedient E i \<longrightarrow> files s1 HOSTS_FILE = Some (hosts_text (cstr (ip_ap (wifi s))) h) \<and>
      files s1 DNSMASQ_FILE =
        Some (dnsmasq_text (cstr (ip_ap (wifi s))) (cstr (ip_start (wifi s))) (cstr (ip_stop (wifi s))) d @ interface_line i) \<and>
      files s1 WIFI_HOSTAPD_FILE = Some (hostapd_conf (wifi s))"
    using calm_startAp [OF assms(1-3)] by blast
  have "replies (calls s1) = replies (calls s)"
    using silent_startAp [OF s1(1) silent_refl] by (simp add: silent_def)
  moreover have "start E s = Inr (afb_req_reply E Success None s1)" using s1(1) assms(4) by (simp add: start_def)
  moreover have "status (wifi s1) = Status_started" using s1(2) by (simp add: start_succeeded_def)
  ultimately show ?thesis using s1(3-6)
    by (intro exI [of _ "afb_req_reply E Success None s1"] exI [of _ i] exI [of _ h] exI [of _ d]) (simp add: afb_req_reply_def)
qed

section \<open>The cause of an error code\<close>

text \<open>The last external call was a command, and what it answered.\<close>

definition last_command :: "env \<Rightarrow> string \<Rightarrow> (int \<Rightarrow> bool) \<Rightarrow> call list \<Rightarrow> bool" where
  "last_command E cmd P cs \<longleftrightarrow> cs \<noteq> [] \<and> last cs = System cmd \<and> P (answer E (butlast cs) (System cmd))"

text \<open>What each code of \<open>startAp\<close> stands for: \<open>s\<close> is the state it was called in, \<open>s'\<close> the one it returned in.\<close>

definition start_cause :: "env \<Rightarrow> int \<Rightarrow> 'a service_scheme \<Rightarrow> 'a service_scheme \<Rightarrow> bool" where
  "start_cause E r s s' \<longleftrightarrow> (case iface s of Inl e \<Rightarrow> r \<in> {- 8, - 2, - 1} | Inr i \<Rightarrow>
     let hw = script_cmd E COMMAND_WIFI_HW_START i in
     (r = - 9 \<longrightarrow> last_command E (script_cmd E COMMAND_WIFIAP_HOSTAPD_STOP i) (\<lambda>st. \<not> (WIFEXITED st \<and> WEXITSTATUS st = 0)) (calls s')) \<and>
     (r = - 7 \<longrightarrow> last (calls s') = Remove WIFI_HOSTAPD_FILE \<and>
        last_command E (script_cmd E COMMAND_WIFIAP_HOSTAPD_START i) (\<lambda>st. \<not> (WIFEXITED st \<and> WEXITSTATUS st = 0)) (butlast (calls s'))) \<and>
     (r = - 6 \<longrightarrow> last_command E hw (\<lambda>st. WEXITSTATUS st \<notin> {0, 50, 100}) (calls s')) \<and>
     (r = - 5 \<longrightarrow> last_command E hw (\<lambda>st. WEXITSTATUS st = 100) (calls s')) \<and>
     (r = - 4 \<longrightarrow> last_command E hw (\<lambda>st. WEXITSTATUS st = 50) (calls s'))) \<and>
   (r = - 8 \<longrightarrow> (\<exists>s1 e s2. same s s1 \<and> setDnsmasqService E s1 = Inr (e, s2) \<and> e \<noteq> 0 \<and> calls s' = calls s2)) \<and>
   (r = - 3 \<longrightarrow> (\<exists>s1 e s2. same s s1 \<and> GenerateHostApConfFile E (wifi s) s1 = Inr (e, s2) \<and> e \<noteq> 0 \<and> calls s' = calls s2)) \<and>
   (r = - 2 \<longrightarrow> \<not> in_range (stored_range (wifi s)) (unat (channelNumber (wifi s)))) \<and>
   (r = - 1 \<longrightarrow> hd (ssid (wifi s)) = NUL)"

lemma system_last:
  "system E c s = (st, s') \<Longrightarrow> calls s' = calls s @ [System c] \<and> last_command E c (\<lambda>x. x = st) (calls s')"
  by (auto simp: system_def ask_def last_command_def)

lemma last_command_mono: "last_command E c P cs \<Longrightarrow> (\<And>x. P x \<Longrightarrow> Q x) \<Longrightarrow> last_command E c Q cs"
  by (auto simp: last_command_def)

lemma same_iface: "same s s' \<Longrightarrow> iface s' = iface s"
  using same_deref [of s s'] same_fields(1) [of s s'] by (simp add: iface_def)

lemma calls_status [simp]: "calls (set_status st s) = calls s"
  by (simp add: set_status_def)

lemma hostapd_cause:
  assumes "start_hostapd E t = Inr (r, s')" "r \<noteq> 0" "same s t"
  shows "start_cause E r s s'"
proof -
  obtain s1 s2 g s3 where pre: "check_and_resolve_conflicts_with_NM E t = Inr s1"
    "check_if_firewalld_running_and_allow_dhcp_traffic E s1 = Inr s2" "GenerateHostApConfFile E (wifi s2) s2 = Inr (g, s3)"
    using assms(1) by (auto simp: start_hostapd_def)
  have e2: "same s s2" by (rule same_firewalld [OF pre(2) same_NM [OF pre(1) assms(3)]])
  note w2 = same_fields(1) [OF e2]
  have e3: "same s s3" by (rule same_generate [OF pre(3) e2])
  obtain i where i: "iface s = Inr i" using pre(1) same_iface [OF assms(3)]
    by (auto simp: check_and_resolve_conflicts_with_NM_def)
  have i3: "iface s3 = Inr i" using i same_iface [OF e3] by simp
  show ?thesis
  proof (cases "g = 0")
    case False
    with assms(1) pre have "r = - 3" "s' = set_status Status_fail s3" by (auto simp: start_hostapd_def start_failure_def)
    with pre(3) e2 False w2 i show ?thesis by (auto simp: start_cause_def Let_def)
  next
    case True
    let ?hw = "script_cmd E COMMAND_WIFI_HW_START i" and ?ap = "script_cmd E COMMAND_WIFIAP_HOSTAPD_START i"
    obtain st s4 where s4: "system E ?hw s3 = (st, s4)" by fastforce
    obtain st' s5 where s5: "system E ?ap s4 = (st', s5)" by fastforce
    note l4 = system_last [OF s4] and l5 = system_last [OF s5]
    have rm: "calls (remove_file E WIFI_HOSTAPD_FILE s5) = calls s5 @ [Remove WIFI_HOSTAPD_FILE]"
      by (simp add: remove_file_def ask_def Let_def split_beta)
    have nz: "start_event_thread E s5 = Inr (r, s') \<Longrightarrow> r = 0" by (auto simp: start_event_thread_def Let_def split: option.splits)
    from assms(1,2) pre True i3 s4 s5 consider
      "r = - 7" "\<not> WIFEXITED st' \<or> WEXITSTATUS st' \<noteq> 0" "s' = set_status Status_fail (remove_file E WIFI_HOSTAPD_FILE s5)"
    | "r = - 4" "WEXITSTATUS st = 50" "s' = set_status Status_fail s4"
    | "r = - 5" "WEXITSTATUS st = 100" "s' = set_status Status_fail s4"
    | "r = - 6" "WEXITSTATUS st \<notin> {0, 50, 100}" "s' = set_status Status_fail s4"
      by (auto simp: start_hostapd_def start_failure_def Let_def split: if_splits dest: nz)
    then show ?thesis
      by cases (use i l4 l5 rm in \<open>auto simp: start_cause_def Let_def butlast_append elim!: last_command_mono\<close>)
  qed
qed

lemma startAp_cause:
  assumes "startAp E s = Inr (r, s')" "r \<noteq> 0"
  shows "start_cause E r s s'"
proof -
  obtain c s1 where s1: "clean_left E s = Inr (c, s1)" using assms(1) by (auto simp: startAp_def)
  obtain l u where u: "config_left E s = (l, u)" by fastforce
  have eu: "same s u" using same_config_left [OF same_refl, of s E] u by simp
  have e1: "same s s1" using s1 u eu by (auto simp: clean_left_def Let_def split_beta system_def ask_def same_def split: if_splits)
  show ?thesis
  proof (cases c)
    case False
    with s1 u obtain i where iu: "iface u = Inr i" by (auto simp: clean_left_def split: if_splits)
    obtain st v where v: "system E (script_cmd E COMMAND_WIFIAP_HOSTAPD_STOP i) u = (st, v)" by fastforce
    have i: "iface u = Inr i" "system E (script_cmd E COMMAND_WIFIAP_HOSTAPD_STOP i) u = (st, s1)"
      "\<not> (WIFEXITED st \<and> WEXITSTATUS st = 0)" using s1 u iu v False by (auto simp: clean_left_def Let_def split: if_splits)
    have "last_command E (script_cmd E COMMAND_WIFIAP_HOSTAPD_STOP i) (\<lambda>st. \<not> (WIFEXITED st \<and> WEXITSTATUS st = 0)) (calls s1)"
      using system_last [OF i(2)] i(3) by (auto elim: last_command_mono)
    moreover have "r = - 9" "calls s' = calls s1" using assms(1) s1 False by (auto simp: startAp_def start_failure_def)
    moreover have "iface s = Inr i" using i(1) same_iface [OF eu] by simp
    ultimately show ?thesis by (simp add: start_cause_def Let_def)
  next
    case True
    obtain e s2 where s2: "setDnsmasqService E s1 = Inr (e, s2)" using assms(1) s1 True by (auto simp: startAp_def)
    show ?thesis
    proof (cases "e = 0")
      case False
      with assms(1) s1 s2 True have "r = - 8" "calls s' = calls s2" by (auto simp: startAp_def start_failure_def)
      with s2 e1 False show ?thesis by (auto simp: start_cause_def Let_def split: sum.split)
    next
      case zero: True
      have e2: "same s s2" using setDnsmasqService_outcome [OF s2] zero same_trans [OF e1] by (simp add: dnsmasq_outcome_def)
      note w2 = same_fields(1) [OF e2]
      from assms(1) s1 s2 True zero w2 consider "r = - 1" "hd (ssid (wifi s)) = NUL"
        | "r = - 2" "channelNumber (wifi s) < MIN_CHANNEL_VALUE (wifi s) \<or> channelNumber (wifi s) > MAX_CHANNEL_VALUE (wifi s)"
        | "start_hostapd E s2 = Inr (r, s')"
        by (auto simp: startAp_def start_failure_def split: if_splits)
      then show ?thesis
        by cases (use hostapd_cause [OF _ assms(2) e2] in
          \<open>auto simp: start_cause_def Let_def in_range_def stored_range_def word_less_nat_alt split: sum.split\<close>)
    qed
  qed
qed

section \<open>Properties\<close>

text \<open>
  C26. With four valid addresses, \<open>setDnsmasqService\<close> orders the client range (the three exclusive ors are a
  swap) and refuses an access point address inside it before it runs anything. With the names set and every call
  successful an address outside is accepted; and when the commands do to the files what \<open>wifi_setup.sh\<close> does, the hosts file is
  the text of the parameters, and dnsmasq's that text followed by the line with the interface that the script appends.
\<close>

theorem setDnsmasqService_checks_the_range:
  assumes "inet_pton (ip_ap (wifi s)) = Some ap" "inet_pton (ip_start (wifi s)) = Some lo"
    "inet_pton (ip_stop (wifi s)) = Some hi" "inet_pton (ip_netmask (wifi s)) = Some nm"
  shows "if min lo hi \<le> ap \<and> ap \<le> max lo hi then setDnsmasqService E s = Inr (- 2, set_status Status_fail s)
    else calm E \<and> iface s = Inr i \<and> deref (hostName (wifi s)) s = Inr h \<and> deref (domainName (wifi s)) s = Inr d \<longrightarrow>
      (\<exists>s'. setDnsmasqService E s = Inr (0, s') \<and> (obedient E i \<longrightarrow>
        files s' HOSTS_FILE = Some (hosts_text (cstr (ip_ap (wifi s))) h) \<and>
        files s' DNSMASQ_FILE = Some (dnsmasq_text (cstr (ip_ap (wifi s))) (cstr (ip_start (wifi s))) (cstr (ip_stop (wifi s))) d @
          interface_line i)))"
  using setDnsmasqService_cases [OF assms, of E] address_arg_cidr [OF assms(1)]
    calm_run_dnsmasq [of E s i h d "take 127 (cstr (ip_ap (wifi s)) @ ''/'' @ show_int (toCidr (stack_junk E) (ip_netmask (wifi s))))"]
  by auto

text \<open>A state that can be started.\<close>

definition ip_buffer :: "string \<Rightarrow> char list" where
  "ip_buffer str = str @ replicate (16 - length str) NUL"

definition ready_service :: service where
  "ready_service = idle_service\<lparr>blocks := [0 \<mapsto> ''wlan0'', 1 \<mapsto> ''lan'', 2 \<mapsto> ''box''], brk := 3,
     wifi := sample_ap\<lparr>interfaceName := Some 0, domainName := Some 1, hostName := Some 2,
       ip_ap := ip_buffer ''192.168.5.1'', ip_start := ip_buffer ''192.168.5.100'',
       ip_stop := ip_buffer ''192.168.5.10'', ip_netmask := ip_buffer ''255.255.255.0''\<rparr>\<rparr>"

lemma ready_addresses:
  "inet_pton (ip_ap (wifi ready_service)) = Some 0xC0A80501"
  "inet_pton (ip_start (wifi ready_service)) = Some 0xC0A80564"
  "inet_pton (ip_stop (wifi ready_service)) = Some 0xC0A8050A"
  "inet_pton (ip_netmask (wifi ready_service)) = Some 0xFFFFFF00"
  by code_simp+

lemma ready_ok: "threads_ok ready_service" "startable ready_service" "calm calm_env"
proof -
  show "threads_ok ready_service"
    by (simp add: threads_ok_def ready_service_def idle_service_def)
  show "calm calm_env" by (rule calm_calm_env)
  have b: "buffer_ok 16 (ip_buffer ''192.168.5.1'')" "buffer_ok 16 (ip_buffer ''192.168.5.100'')"
    "buffer_ok 16 (ip_buffer ''192.168.5.10'')" "buffer_ok 16 (ip_buffer ''255.255.255.0'')" by code_simp+
  have "params_ok (wifi ready_service)"
    unfolding ready_service_def using params_ok_sample b by (simp add: params_ok_update)
  moreover have "addresses_ok (wifi ready_service)"
    unfolding addresses_ok_def ready_addresses by (simp add: min_def max_def)
  moreover have "names_set ready_service"
    by (simp add: names_set_def iface_def deref_def ready_service_def)
  moreover have "in_range (stored_range (wifi ready_service)) (unat (channelNumber (wifi ready_service)))"
    by (simp add: in_range_def stored_range_def ready_service_def sample_ap_def)
  ultimately show "startable ready_service" by (simp add: startable_def)
qed

lemma ready_names: "iface ready_service = Inr ''wlan0''" "deref (hostName (wifi ready_service)) ready_service = Inr ''box''"
  "deref (domainName (wifi ready_service)) ready_service = Inr ''lan''"
  by (simp_all add: iface_def deref_def ready_service_def)

text \<open>An environment in which every call succeeds and the commands for \<open>wlan0\<close> do to the files what the script does.\<close>

definition starts_with :: "string \<Rightarrow> string \<Rightarrow> bool" where
  "starts_with p c \<longleftrightarrow> take (length p) c = p"

definition script_env :: env where
  "script_env = calm_env\<lparr>effect := \<lambda>h c f.
     if starts_with (WIFI_SCRIPT calm_env @ '' '' @ COMMAND_DNSMASQ_RESTART @ '' wlan0'') c then script_files ''DNSMASQ_RESTART'' ''wlan0'' f
     else if starts_with (WIFI_SCRIPT calm_env @ '' '' @ COMMAND_WIFIAP_HOSTAPD_STOP @ '' wlan0'') c
     then script_files ''WIFIAP_HOSTAPD_STOP'' ''wlan0'' f
     else f\<rparr>"

lemma take_append_long: "length xs \<le> n \<Longrightarrow> take n (xs @ ys) = xs @ take (n - length xs) ys"
  by simp

lemma script_env: "calm script_env" "obedient script_env ''wlan0''"
proof -
  show "calm script_env" by (simp add: calm_def script_env_def calm_env_def)
  have s: "WIFI_SCRIPT script_env = ''/usr/wifiap/var/wifi_setup.sh''" "WIFI_SCRIPT calm_env = ''/usr/wifiap/var/wifi_setup.sh''"
    by (simp_all add: WIFI_SCRIPT_def script_env_def calm_env_def)
  have e: "effect script_env h c f = (if starts_with (''/usr/wifiap/var/wifi_setup.sh'' @ '' '' @ COMMAND_DNSMASQ_RESTART @ '' wlan0'') c
      then script_files ''DNSMASQ_RESTART'' ''wlan0'' f
      else if starts_with (''/usr/wifiap/var/wifi_setup.sh'' @ '' '' @ COMMAND_WIFIAP_HOSTAPD_STOP @ '' wlan0'') c
      then script_files ''WIFIAP_HOSTAPD_STOP'' ''wlan0'' f else f)" for h c f
    by (simp add: script_env_def s(2))
  have c1: "script_cmd script_env c ''wlan0'' = ''/usr/wifiap/var/wifi_setup.sh'' @ '' '' @ c @ '' wlan0''" if "length c < 100" for c
    using that unfolding script_cmd_def s(1) by (subst take_all) (simp_all add: PATH_MAX_def)
  have c2: "\<exists>b. script_cmd2 script_env c ''wlan0'' a = ''/usr/wifiap/var/wifi_setup.sh'' @ '' '' @ c @ '' wlan0'' @ b" if "length c < 100" for c a
    using that take_append_long [of "''/usr/wifiap/var/wifi_setup.sh'' @ '' '' @ c @ '' wlan0''" "PATH_MAX - 1" "'' '' @ a"]
    unfolding script_cmd2_def s(1) by (simp add: PATH_MAX_def)
  have cmd2: "effect script_env h (script_cmd2 script_env c ''wlan0'' a) f = script_files (tl c) ''wlan0'' f"
    if "c \<in> {COMMAND_WIFIAP_WLAN_UP, COMMAND_DNSMASQ_RESTART}" for h c a f
  proof -
    from that have "length c < 100" by (auto simp: command_defs)
    from c2 [OF this, of a] obtain b where "script_cmd2 script_env c ''wlan0'' a = ''/usr/wifiap/var/wifi_setup.sh'' @ '' '' @ c @ '' wlan0'' @ b"
      by blast
    with that show ?thesis by (auto simp: e command_defs script_files_def starts_with_def)
  qed
  show "obedient script_env ''wlan0''"
    unfolding obedient_def by (auto simp: cmd2) (auto simp: e c1 command_defs script_files_def starts_with_def)
qed

theorem setDnsmasqService_checks_the_range_witness:
  "\<exists>s'. setDnsmasqService script_env ready_service = Inr (0, s') \<and> files s' HOSTS_FILE = Some (''192.168.5.1 box'' @ [NL])"
proof -
  have "cstr (ip_ap (wifi ready_service)) = ''192.168.5.1''" by code_simp
  with setDnsmasqService_checks_the_range [OF ready_addresses, of script_env "''wlan0''" "''box''" "''lan''"] ready_names script_env
  show ?thesis by (auto simp: min_def max_def hosts_text_def)
qed





text \<open>
  C32. \<open>stop\<close> of a started access point, when nothing fails, cancels and joins the event thread, frees its
  object, sets the status stopped and replies success once. It leaves the pointer to the freed object: a second
  \<open>stop\<close> reads freed memory.
\<close>

theorem stop_twice_reads_freed_memory:
  assumes "threads_ok s" "wifiApThreadPtr s = Some a" "threadList s = [a]" "objects s a = Some t" "isJoinable t"
    "threadHandle t \<noteq> 0" "length (destructorList t) \<le> 1" "iface s = Inr i" "calm E" "calm F"
  shows "\<exists>s'. stop E s = Inr s' \<and> status (wifi s') = Status_stopped \<and> objects s' a = None \<and>
    replies (calls s') = replies (calls s) @ [(Success, None)] \<and> stop F s' = Inl Use_after_free"
proof -
  have sys: "\<exists>u. system G c v = (0, u) \<and> world.more u = world.more v \<and> replies (calls u) = replies (calls v)"
    if "calm G" for G c and v :: "'a service_scheme"
    using that by (simp add: system_def calm_ask)
  obtain s1 where s1: "system E (script_cmd E COMMAND_WIFIAP_HOSTAPD_STOP i) s = (0, s1)" "world.more s1 = world.more s"
    "replies (calls s1) = replies (calls s)" using sys [OF assms(9)] by blast
  obtain s2 where s2: "system E (script_cmd E COMMAND_WIFI_HW_STOP i) s1 = (0, s2)" "world.more s2 = world.more s1"
    "replies (calls s2) = replies (calls s1)" using sys [OF assms(9)] by blast
  have e: "same s s2" using s1(2) s2(2) by (simp add: same_def)
  note f = same_fields [OF e]
  have id: "threadId t = 1" using assms(1,3,4) by (auto simp: threads_ok_def)
  obtain s3 where s3: "cancelThread E 1 s2 = Inr (0, s3)" "threads_ok s3" "moves s2 s3" "threadList s3 = [a]" "objects s3 = objects s2"
    using calm_cancelThread [OF threads_ok_same [OF assms(1) e] assms(9), of a t] assms(3,4,6) f by auto
  obtain s4 where s4: "JoinThread E (call_destructor E) 1 s3 = Inr (0, s4)" "threads_ok s4" "threadList s4 = []"
    "objects s4 = (objects s3)(a := None)"
    using calm_JoinThread [OF s3(2) assms(9) s3(4) _ assms(6,5,7) quiet_destructor] s3(5) f(4) assms(4) by auto
  have keep: "wifi s4 = wifi s" "blocks s4 = blocks s" "wifiApThreadPtr s4 = Some a" "replies (calls s4) = replies (calls s)"
    using thread_silent(5) [OF s3(1)] thread_silent(7) [OF s4(1)] f assms(2) s1(3) s2(3) by simp_all
  let ?s' = "afb_req_reply E Success None (set_status Status_stopped s4)"
  have stop1: "stop E s = Inr ?s'"
    using assms(2,4,8) s1(1) s2(1) s3(1,5) s4(1) f id
    by (simp add: stop_def get_obj_def stop_done_def)
  have s': "wifiApThreadPtr ?s' = Some a" "objects ?s' a = None" "iface ?s' = Inr i"
    "replies (calls ?s') = replies (calls s) @ [(Success, None)]" "status (wifi ?s') = Status_stopped"
    using keep s4(4) assms(8) deref_cong [of ?s' s]
    by (simp_all add: afb_req_reply_def set_status_def ask_def iface_def)
  obtain u where u: "system F (script_cmd F COMMAND_WIFIAP_HOSTAPD_STOP i) ?s' = (0, u)" "world.more u = world.more ?s'"
    using sys [OF assms(10)] by blast
  obtain v where v: "system F (script_cmd F COMMAND_WIFI_HW_STOP i) u = (0, v)" "world.more v = world.more u"
    using sys [OF assms(10)] by blast
  have "same ?s' v" using u(2) v(2) by (simp add: same_def)
  from same_fields [OF this] s' have "wifiApThreadPtr v = Some a" "objects v a = None" by simp_all
  then have "stop F ?s' = Inl Use_after_free"
    using s'(3) u(1) v(1) by (simp add: stop_def get_obj_def)
  with stop1 s' show ?thesis by blast
qed

definition started_thread :: thread_Obj where
  "started_thread = new_thread\<lparr>isJoinable := True, attr_joinable := True, threadState := THREAD_STATE_RUNNING,
     threadHandle := 8, destructorList := [\<lparr>destructor = Some Ptr_threadDestructorFunc, d_context = WIFI_SCRIPT calm_env\<rparr>]\<rparr>"

definition started_service :: service where
  "started_service = idle_service\<lparr>objects := [7 \<mapsto> started_thread], next_obj := 8, threadList := [7],
     wifiApThreadPtr := Some 7\<rparr>"

theorem stop_twice_reads_freed_memory_witness:
  "\<exists>s'. stop calm_env started_service = Inr s' \<and> stop calm_env s' = Inl Use_after_free"
proof -
  have "threads_ok started_service" "wifiApThreadPtr started_service = Some 7" "threadList started_service = [7]"
    "objects started_service 7 = Some started_thread" "isJoinable started_thread" "threadHandle started_thread \<noteq> 0"
    "length (destructorList started_thread) \<le> 1" "iface started_service = Inr ''wlan0''"
    by (simp_all add: threads_ok_def started_service_def idle_service_def started_thread_def new_thread_def iface_def deref_def)
  from stop_twice_reads_freed_memory [OF this calm_calm_env calm_calm_env] show ?thesis by blast
qed

text \<open>
  C34. Whenever they return, \<open>start\<close> and \<open>stop\<close> have replied exactly once, and \<open>restart\<close> has not replied
  at all: its caller waits for ever.
\<close>

theorem restart_never_replies:
  "(start E s = Inr s1 \<longrightarrow> replied s s1) \<and> (stop E s = Inr s2 \<longrightarrow> replied s s2) \<and>
   (restart E s = Inr s3 \<longrightarrow> replies (calls s3) = replies (calls s))"
proof (intro conjI impI)
  assume "restart E s = Inr s3"
  moreover obtain l t where t: "config_left E s = (l, t)" by fastforce
  moreover have "silent s t" using silent_config_left [OF silent_refl, of s E] t by simp
  ultimately have "silent s s3"
    by (auto simp: restart_def Let_def split_beta split: if_splits
        intro!: silent_set_status silent_steps elim!: silent_startAp)
  then show "replies (calls s3) = replies (calls s)" by (simp add: silent_def)
qed (rule start_replied stop_replied; assumption)+

theorem restart_never_replies_witness:
  "\<exists>s'. restart calm_env idle_service = Inr s' \<and> replies (calls s') = []"
proof -
  have "restart calm_env idle_service = Inr (snd (config_left calm_env idle_service))"
    by (simp add: restart_def config_left_def checkFileExists_def fopen_r_def ask_def idle_service_def Let_def)
  moreover have "replies (calls idle_service) = []" by (simp add: idle_service_def)
  ultimately show ?thesis using restart_never_replies [of calm_env idle_service] by auto
qed

end
