(* ===== verification/Verbs.thy ===== *)
theory Verbs
  imports Service
begin

text \<open>
  The requests of \<open>src/wifiAp.c\<close>: how a parameter is read, the setters and getters behind the verbs, and the table
  of verbs. A parameter comes with what the framework says of it: its type, its raw text or byte, and the
  results of converting it. The request is the last argument's history of calls, where replies are recorded.
\<close>

section \<open>Parameters\<close>

datatype data_type = STRINGZ | BOOL | JSON | OTHER

text \<open>
  \<open>data_text\<close> and \<open>data_byte\<close> are what the raw pointer of the data points to; \<open>to_u32\<close> and \<open>to_json\<close> are the results of
  \<open>afb_req_param_convert\<close>, None when it fails.
\<close>

record param =
  data_type :: data_type
  data_text :: string
  data_byte :: bool
  to_u32 :: "32 word option"
  to_json :: "json option"

definition reply_invalid_params :: "env \<Rightarrow> 'a world_scheme \<Rightarrow> 'a world_scheme" where
  "reply_invalid_params E s = afb_req_reply E AFB_ERRNO_INVALID_REQUEST None s"

text \<open>Each reader gives the value, or None after having replied that the parameters are invalid.\<close>

definition get_single_jsonc :: "env \<Rightarrow> param list \<Rightarrow> 'a world_scheme \<Rightarrow> json option \<times> 'a world_scheme" where
  "get_single_jsonc E params s =
     (if length params = 1 \<and> to_json (hd params) \<noteq> None then (to_json (hd params), s)
      else (None, reply_invalid_params E s))"

definition json_object_get_string :: "env \<Rightarrow> json \<Rightarrow> string option" where
  "json_object_get_string E j =
     (case j of JNull \<Rightarrow> None | JString str \<Rightarrow> Some str | _ \<Rightarrow> Some (json_print E j))"

definition get_single_string :: "env \<Rightarrow> param list \<Rightarrow> 'a world_scheme \<Rightarrow> string option option \<times> 'a world_scheme" where
  "get_single_string E params s =
     (if length params = 1 \<and> data_type (hd params) = STRINGZ then (Some (Some (data_text (hd params))), s)
      else if length params = 1 \<and> to_json (hd params) \<noteq> None
      then (Some (json_object_get_string E (the (to_json (hd params)))), s)
      else (None, reply_invalid_params E s))"

definition get_single_boolean :: "env \<Rightarrow> param list \<Rightarrow> 'a world_scheme \<Rightarrow> bool option \<times> 'a world_scheme" where
  "get_single_boolean E params s =
     (let invalid = (None, reply_invalid_params E s) in
      if length params \<noteq> 1 then invalid
      else
        let p = hd params;
            textual = (data_type p = STRINGZ \<or> data_type p = JSON)
        in if data_type p = BOOL then (Some (data_byte p), s)
           else if textual \<and> cstr (data_text p) = ''true'' then (Some True, s)
           else if textual \<and> cstr (data_text p) = ''false'' then (Some False, s)
           else (case to_json p of
                   Some (JBool b) \<Rightarrow> (Some b, s)
                 | _ \<Rightarrow> invalid))"

text \<open>
  \<open>strtoul(str, &end, 10)\<close> with a 64-bit \<open>unsigned long\<close>: white space, a sign, digits; a minus sign negates
  modulo \<open>2^64\<close>, a number too large gives the largest one. Without digits the end is the start.
\<close>

definition strtoul :: "string \<Rightarrow> nat \<times> string" where
  "strtoul str =
     (let s1 = dropWhile is_space str;
          (neg, s2) = (case s1 of
              [] \<Rightarrow> (False, [])
            | c # t \<Rightarrow> if c = CHR ''-'' then (True, t) else if c = CHR ''+'' then (False, t)
                       else (False, c # t));
          ds = takeWhile is_digit s2;
          v = digits_val 0 ds
      in if ds = [] then (0, str)
         else (if v \<ge> 2 ^ 64 then 2 ^ 64 - 1 else if neg then (2 ^ 64 - v) mod 2 ^ 64 else v,
               dropWhile is_digit s2))"

definition json_object_get_uint64 :: "int \<Rightarrow> nat" where
  "json_object_get_uint64 i = nat i"

definition get_single_uint32 :: "env \<Rightarrow> param list \<Rightarrow> 'a world_scheme \<Rightarrow> 32 word option \<times> 'a world_scheme" where
  "get_single_uint32 E params s =
     (let invalid = (None, reply_invalid_params E s) in
      if length params \<noteq> 1 then invalid
      else
        let p = hd params; (v, rest) = strtoul (cstr (data_text p)) in
        if to_u32 p \<noteq> None then (to_u32 p, s)
        else if (data_type p = STRINGZ \<or> data_type p = JSON) \<and> rest = [] \<and> v \<le> 2 ^ 32 - 1
        then (Some (word_of_nat v), s)
        else (case to_json p of
                Some (JInt i) \<Rightarrow>
                  if json_object_get_uint64 i \<le> 2 ^ 32 - 1
                  then (Some (word_of_nat (json_object_get_uint64 i)), s) else invalid
              | _ \<Rightarrow> invalid))"

section \<open>Setters behind verbs\<close>

text \<open>A setter of the structure, run on the state.\<close>

definition on_wifi :: "(wifiApT \<Rightarrow> 'v \<Rightarrow> fault + (int \<times> wifiApT)) \<Rightarrow> 'v \<Rightarrow> 'a ap_scheme \<Rightarrow> fault + (int \<times> 'a ap_scheme)" where
  "on_wifi f v s = bindE (f (wifi s) v) (\<lambda>(r, w). Inr (r, s\<lparr>wifi := w\<rparr>))"

definition single_string_set ::
    "env \<Rightarrow> (string option \<Rightarrow> 'a ap_scheme \<Rightarrow> fault + (int \<times> 'a ap_scheme)) \<Rightarrow> param list \<Rightarrow> 'a ap_scheme \<Rightarrow>
       fault + 'a ap_scheme" where
  "single_string_set E set_it params s =
     (case get_single_string E params s of
        (None, s1) \<Rightarrow> Inr s1
      | (Some str, s1) \<Rightarrow>
          bindE (set_it str s1) (\<lambda>(sts, s2).
            let code = (if sts = WIFIAP_NO_ERROR then Success
                        else if sts = WIFIAP_ERROR_TOO_SMALL then AFB_ERRNO_INVALID_REQUEST
                        else if sts = WIFIAP_ERROR_TOO_LARGE then AFB_ERRNO_INVALID_REQUEST
                        else AFB_ERRNO_INTERNAL_ERROR)
            in Inr (afb_req_reply E code None s2)))"

definition single_uint32_set ::
    "env \<Rightarrow> (32 word \<Rightarrow> 'a ap_scheme \<Rightarrow> fault + (int \<times> 'a ap_scheme)) \<Rightarrow> param list \<Rightarrow> 'a ap_scheme \<Rightarrow>
       fault + 'a ap_scheme" where
  "single_uint32_set E set_it params s =
     (case get_single_uint32 E params s of
        (None, s1) \<Rightarrow> Inr s1
      | (Some v, s1) \<Rightarrow>
          bindE (set_it v s1) (\<lambda>(sts, s2).
            Inr (afb_req_reply E (if sts = WIFIAP_NO_ERROR then Success else AFB_USER_ERRNO (- sts)) None s2)))"

definition setHostName :: "env \<Rightarrow> param list \<Rightarrow> 'a service_scheme \<Rightarrow> fault + 'a service_scheme" where
  "setHostName E params s = single_string_set E (setHostNameParameter E) params s"

definition setDomainName :: "env \<Rightarrow> param list \<Rightarrow> 'a service_scheme \<Rightarrow> fault + 'a service_scheme" where
  "setDomainName E params s = single_string_set E (setDomainNameParameter E) params s"

definition setInterfaceName :: "env \<Rightarrow> param list \<Rightarrow> 'a service_scheme \<Rightarrow> fault + 'a service_scheme" where
  "setInterfaceName E params s = single_string_set E (setInterfaceNameParameter E) params s"

definition setSsid :: "env \<Rightarrow> param list \<Rightarrow> 'a service_scheme \<Rightarrow> fault + 'a service_scheme" where
  "setSsid E params s = single_string_set E (on_wifi setSsidParameter) params s"

definition setPassPhrase :: "env \<Rightarrow> param list \<Rightarrow> 'a service_scheme \<Rightarrow> fault + 'a service_scheme" where
  "setPassPhrase E params s = single_string_set E (on_wifi setPassPhraseParameter) params s"

definition setDiscoverable :: "env \<Rightarrow> param list \<Rightarrow> 'a service_scheme \<Rightarrow> fault + 'a service_scheme" where
  "setDiscoverable E params s =
     (case get_single_boolean E params s of
        (None, s1) \<Rightarrow> Inr s1
      | (Some b, s1) \<Rightarrow>
          bindE (on_wifi setDiscoverableParameter b s1) (\<lambda>(_, s2). Inr (afb_req_reply E Success None s2)))"

definition setIeeeStandard :: "env \<Rightarrow> param list \<Rightarrow> 'a service_scheme \<Rightarrow> fault + 'a service_scheme" where
  "setIeeeStandard E params s =
     (case get_single_uint32 E params s of
        (None, s1) \<Rightarrow> Inr s1
      | (Some v, s1) \<Rightarrow>
          bindE (on_wifi setIeeeStandardParameter v s1) (\<lambda>(sts, s2).
            Inr (afb_req_reply E (if sts = WIFIAP_NO_ERROR then Success else AFB_USER_ERRNO (- sts)) None s2)))"

definition setChannel :: "env \<Rightarrow> param list \<Rightarrow> 'a service_scheme \<Rightarrow> fault + 'a service_scheme" where
  "setChannel E params s = single_uint32_set E (on_wifi setChannelParameter) params s"

definition setSecurityProtocol :: "env \<Rightarrow> param list \<Rightarrow> 'a service_scheme \<Rightarrow> fault + 'a service_scheme" where
  "setSecurityProtocol E params s = single_string_set E (on_wifi setSecurityProtocolParameter) params s"

definition SetPreSharedKey :: "env \<Rightarrow> param list \<Rightarrow> 'a service_scheme \<Rightarrow> fault + 'a service_scheme" where
  "SetPreSharedKey E params s = single_string_set E (on_wifi setPreSharedKeyParameter) params s"

definition setCountryCode :: "env \<Rightarrow> param list \<Rightarrow> 'a service_scheme \<Rightarrow> fault + 'a service_scheme" where
  "setCountryCode E params s = single_string_set E (on_wifi setCountryCodeParameter) params s"

definition SetMaxNumberClients :: "env \<Rightarrow> param list \<Rightarrow> 'a service_scheme \<Rightarrow> fault + 'a service_scheme" where
  "SetMaxNumberClients E params s = single_uint32_set E (on_wifi setMaxNumberClients) params s"

definition setIpRange :: "env \<Rightarrow> param list \<Rightarrow> 'a service_scheme \<Rightarrow> fault + 'a service_scheme" where
  "setIpRange E params s =
     (case get_single_jsonc E params s of
        (None, s1) \<Rightarrow> Inr s1
      | (Some obj, s1) \<Rightarrow>
          (case unpack_ip E obj of
             None \<Rightarrow> Inr (afb_req_reply E AFB_ERRNO_INVALID_REQUEST None s1)
           | Some (ap, lo, hi, nm) \<Rightarrow>
               bindE (setIpRangeParameters (wifi s1) ap lo hi nm) (\<lambda>(sts, w).
                 Inr (afb_req_reply E (if sts = WIFIAP_NO_ERROR then Success else AFB_USER_ERRNO (- sts)) None
                       (s1\<lparr>wifi := w\<rparr>)))))"

section \<open>The other verbs\<close>

definition subscribe :: "env \<Rightarrow> param list \<Rightarrow> 'a service_scheme \<Rightarrow> fault + 'a service_scheme" where
  "subscribe E params s =
     (case get_single_string E params s of
        (None, s1) \<Rightarrow> Inr s1
      | (Some _, s1) \<Rightarrow>
          (let (sts, s2) = ask E Subscribe s1
           in Inr (afb_req_reply E (if sts < 0 then AFB_ERRNO_INTERNAL_ERROR else Success) None s2)))"

definition unsubscribe :: "env \<Rightarrow> param list \<Rightarrow> 'a service_scheme \<Rightarrow> fault + 'a service_scheme" where
  "unsubscribe E params s =
     (case get_single_string E params s of
        (None, s1) \<Rightarrow> Inr s1
      | (Some _, s1) \<Rightarrow>
          (let (sts, s2) = ask E Unsubscribe s1
           in Inr (afb_req_reply E (if sts < 0 then AFB_ERRNO_INTERNAL_ERROR else Success) None s2)))"

definition getIeeeStandard :: "env \<Rightarrow> 'a service_scheme \<Rightarrow> fault + 'a service_scheme" where
  "getIeeeStandard E s = Inr (reply_single_key_uint32 E ''stdMask'' (IeeeStdMask (wifi s)) s)"

text \<open>The loop that counts the stations in the output of \<open>iw\<close>; the pipe is never closed.\<close>

function count_stations :: "string \<Rightarrow> nat \<Rightarrow> nat" where
  "count_stations stream n =
     (case fgets (PATH_MAX - 1) stream of
        None \<Rightarrow> n
      | Some (line, rest) \<Rightarrow> count_stations rest (if strstr (cstr line) ''Station '' then n + 1 else n))"
  by pat_completeness auto
termination
  by (relation "measure (\<lambda>(stream, n). length stream)") (auto dest: fgets_progress)

declare count_stations.simps [simp del]

definition getAPnumberClients :: "env \<Rightarrow> 'a service_scheme \<Rightarrow> fault + 'a service_scheme" where
  "getAPnumberClients E s =
     bindE (iface s) (\<lambda>i.
       let cmd = take (PATH_MAX - 1) (''iw dev '' @ i @ '' station dump''); (pipe, s1) = popen E cmd s in
       case pipe of
         None \<Rightarrow> Inr (afb_req_reply E AFB_ERRNO_INVALID_REQUEST
                   (Some ''Failed to get the number of clients connected to an access point!'') s1)
       | Some stream \<Rightarrow>
           Inr (reply_single_key_uint32 E ''clients-number'' (word_of_nat (count_stations stream 0)) s1))"

definition info :: "env \<Rightarrow> 'a service_scheme \<Rightarrow> fault + 'a service_scheme" where
  "info E s = Inr (afb_req_reply E Success (Some (info_json E)) (snd (ask E (Create_data (info_json E)) s)))"

section \<open>The table\<close>

definition verbs :: "env \<Rightarrow> param list \<Rightarrow> (string \<times> ('a service_scheme \<Rightarrow> fault + 'a service_scheme)) list" where
  "verbs E params =
     [(''start'', start E), (''stop'', stop E), (''restart'', restart E),
      (''subscribe'', subscribe E params), (''unsubscribe'', unsubscribe E params),
      (''getIeeeStandard'', getIeeeStandard E), (''getAPclientsNumber'', getAPnumberClients E),
      (''getWifiApStatus'', getWifiApStatus E),
      (''setSsid'', setSsid E params), (''setInterfaceName'', setInterfaceName E params),
      (''setHostName'', setHostName E params), (''setDomainName'', setDomainName E params),
      (''setPassPhrase'', setPassPhrase E params), (''setDiscoverable'', setDiscoverable E params),
      (''setIeeeStandard'', setIeeeStandard E params), (''setChannel'', setChannel E params),
      (''setSecurityProtocol'', setSecurityProtocol E params), (''setPreSharedKey'', SetPreSharedKey E params),
      (''setIpRange'', setIpRange E params), (''setCountryCode'', setCountryCode E params),
      (''SetMaxNumberClients'', SetMaxNumberClients E params), (''info'', info E)]"

text \<open>A request for a verb of the table; the framework answers for the others.\<close>

definition request :: "env \<Rightarrow> string \<Rightarrow> param list \<Rightarrow> 'a service_scheme \<Rightarrow> fault + 'a service_scheme" where
  "request E name params s =
     (case map_of (verbs E params) name of None \<Rightarrow> Inr s | Some handler \<Rightarrow> handler s)"

section \<open>What every request keeps\<close>

text \<open>The parameters are validated and the names are owned: what holds between requests.\<close>

definition binding_ok :: "'a ap_scheme \<Rightarrow> bool" where
  "binding_ok s \<longleftrightarrow> names_ok s \<and> params_ok (wifi s)"

locale request_handler =
  fixes run :: "'q \<Rightarrow> 's \<Rightarrow> fault + 's"
    and inv :: "'s \<Rightarrow> bool"
  assumes keep: "inv s \<Longrightarrow> run q s = Inr s' \<Longrightarrow> inv s'"
begin

text \<open>Requests one after the other; the first fault ends the program.\<close>

lemma history: "inv s \<Longrightarrow> foldl (\<lambda>r q. bindE r (run q)) (Inr s) qs = Inr s' \<Longrightarrow> inv s'"
proof (induction qs arbitrary: s)
  case Nil
  then show ?case by simp
next
  case (Cons q qs)
  have inl: "foldl (\<lambda>r q. bindE r (run q)) (Inl e) qs = Inl e" for e
    by (induction qs) simp_all
  show ?case
  proof (cases "run q s")
    case (Inl e)
    with Cons.prems(2) inl show ?thesis by simp
  next
    case (Inr s1)
    with Cons keep [OF Cons.prems(1) Inr] show ?thesis by simp
  qed
qed

end

lemma names_ok_fields:
  assumes "interfaceName (wifi s') = interfaceName (wifi s)" "domainName (wifi s') = domainName (wifi s)"
    "hostName (wifi s') = hostName (wifi s)" "blocks s' = blocks s" "brk s' = brk s"
  shows "names_ok s' = names_ok s"
  using assms by (simp add: names_ok_def owned_by_def heap_ok_def name_ptrs_def)

lemma binding_ok_status:
  "wifi s' = (wifi s)\<lparr>status := st\<rparr> \<Longrightarrow> blocks s' = blocks s \<Longrightarrow> brk s' = brk s \<Longrightarrow> binding_ok s \<Longrightarrow> binding_ok s'"
  using names_ok_fields [of s' s] by (simp add: binding_ok_def params_ok_update)

lemma binding_ok_same: "wifi s' = wifi s \<Longrightarrow> blocks s' = blocks s \<Longrightarrow> brk s' = brk s \<Longrightarrow> binding_ok s' = binding_ok s"
  using names_ok_fields [of s' s] by (simp add: binding_ok_def)

lemma reply_fields [simp]:
  "wifi (afb_req_reply E st p s) = wifi s" "blocks (afb_req_reply E st p s) = blocks s"
  "brk (afb_req_reply E st p s) = brk s"
  by (simp_all add: afb_req_reply_def ask_def)

lemma binding_ok_reply [simp]: "binding_ok (afb_req_reply E st p s) = binding_ok s"
  by (rule binding_ok_same) simp_all

lemma binding_ok_ask [simp]: "binding_ok (snd (ask E c s)) = binding_ok s"
  by (rule binding_ok_same) (simp_all add: ask_def)

lemma binding_ok_json [simp]: "binding_ok (reply_json E n str s) = binding_ok s"
  by (simp add: reply_json_def split_beta Let_def)

lemma binding_ok_invalid [simp]: "binding_ok (reply_invalid_params E s) = binding_ok s"
  by (simp add: reply_invalid_params_def)

definition keeps_binding :: "('v \<Rightarrow> 'a ap_scheme \<Rightarrow> fault + (int \<times> 'a ap_scheme)) \<Rightarrow> bool" where
  "keeps_binding f \<longleftrightarrow> (\<forall>v s r s'. binding_ok s \<longrightarrow> f v s = Inr (r, s') \<longrightarrow> binding_ok s' \<and> silent s s')"

text \<open>The setters of the structure leave the names alone.\<close>

definition keeps_names :: "(wifiApT \<Rightarrow> 'v \<Rightarrow> fault + (int \<times> wifiApT)) \<Rightarrow> bool" where
  "keeps_names f \<longleftrightarrow> (\<forall>w v r w'. f w v = Inr (r, w') \<longrightarrow>
     interfaceName w' = interfaceName w \<and> domainName w' = domainName w \<and> hostName w' = hostName w)"

lemma setters_keep_names [inv_intros]:
  "keeps_names setSsidParameter" "keeps_names setPassPhraseParameter" "keeps_names setCountryCodeParameter"
  "keeps_names setIpApParameter" "keeps_names setIpStartParameter" "keeps_names setIpStopParameter"
  "keeps_names setIpNetMaskParameter" "keeps_names setSecurityProtocolParameter"
  "keeps_names setDiscoverableParameter" "keeps_names setMaxNumberClients"
  "keeps_names setIeeeStandardParameter" "keeps_names setChannelParameter" "keeps_names setPreSharedKeyParameter"
  unfolding keeps_names_def buffer_setter_defs setSecurityProtocolParameter_def setDiscoverableParameter_def
    setMaxNumberClients_def setIeeeStandardParameter_def setChannelParameter_def setPreSharedKeyParameter_def
  by (auto simp: Let_def split: if_splits option.splits)

lemma on_wifi_keeps:
  fixes f :: "wifiApT \<Rightarrow> 'v \<Rightarrow> fault + (int \<times> wifiApT)"
  assumes "keeps_params f" "keeps_names f"
  shows "keeps_binding (on_wifi f :: 'v \<Rightarrow> 'a ap_scheme \<Rightarrow> fault + (int \<times> 'a ap_scheme))"
  unfolding keeps_binding_def
proof (intro allI impI)
  fix v and s s' :: "'a ap_scheme" and r
  assume ok: "binding_ok s" and run: "on_wifi f v s = Inr (r, s')"
  then obtain w where w: "f (wifi s) v = Inr (r, w)" "s' = s\<lparr>wifi := w\<rparr>" by (auto simp: on_wifi_def)
  have "params_ok w" using keeps_paramsD [OF assms(1) _ w(1)] ok by (simp add: binding_ok_def)
  moreover have "names_ok s' = names_ok s"
    using assms(2) w by (intro names_ok_fields) (auto simp: keeps_names_def)
  ultimately show "binding_ok s' \<and> silent s s'" using ok w(2) by (simp add: binding_ok_def silent_def)
qed

lemma set_string_copy_silent: "set_string_copy E d src s = Inr (r, p, s') \<Longrightarrow> silent s s'"
  by (auto simp: set_string_copy_def strdup_def ask_def free_block_def silent_def Let_def split: option.splits if_splits)

lemma setInterfaceName_keeps:
  "keeps_binding (setInterfaceNameParameter E :: string option \<Rightarrow> 'a ap_scheme \<Rightarrow> fault + (int \<times> 'a ap_scheme))"
  unfolding keeps_binding_def
proof (intro allI impI)
  fix v r and s s' :: "'a ap_scheme"
  assume ok: "binding_ok s" and run: "setInterfaceNameParameter E v s = Inr (r, s')"
  with setInterfaceName_result [of s E v] have "names_ok s'"
    "wifi s' = (wifi s)\<lparr>interfaceName := interfaceName (wifi s')\<rparr>" by (auto simp: binding_ok_def)
  moreover have "silent s s'"
    using run by (auto simp: setInterfaceNameParameter_def silent_def dest!: set_string_copy_silent)
  ultimately show "binding_ok s' \<and> silent s s'"
    using ok params_ok_update(13) [of "wifi s"] by (metis binding_ok_def)
qed

lemma setDomainName_keeps:
  "keeps_binding (setDomainNameParameter E :: string option \<Rightarrow> 'a ap_scheme \<Rightarrow> fault + (int \<times> 'a ap_scheme))"
  unfolding keeps_binding_def
proof (intro allI impI)
  fix v r and s s' :: "'a ap_scheme"
  assume ok: "binding_ok s" and run: "setDomainNameParameter E v s = Inr (r, s')"
  with setDomainName_result [of s E v] have "names_ok s'"
    "wifi s' = (wifi s)\<lparr>domainName := domainName (wifi s')\<rparr>" by (auto simp: binding_ok_def)
  moreover have "silent s s'"
    using run by (auto simp: setDomainNameParameter_def silent_def dest!: set_string_copy_silent)
  ultimately show "binding_ok s' \<and> silent s s'"
    using ok params_ok_update(14) [of "wifi s"] by (metis binding_ok_def)
qed

lemma setHostName_keeps:
  "keeps_binding (setHostNameParameter E :: string option \<Rightarrow> 'a ap_scheme \<Rightarrow> fault + (int \<times> 'a ap_scheme))"
  unfolding keeps_binding_def
proof (intro allI impI)
  fix v r and s s' :: "'a ap_scheme"
  assume ok: "binding_ok s" and run: "setHostNameParameter E v s = Inr (r, s')"
  with setHostName_result [of s E v] have "names_ok s'"
    "wifi s' = (wifi s)\<lparr>hostName := hostName (wifi s')\<rparr>" by (auto simp: binding_ok_def)
  moreover have "silent s s'"
    using run by (auto simp: setHostNameParameter_def silent_def dest!: set_string_copy_silent)
  ultimately show "binding_ok s' \<and> silent s s'"
    using ok params_ok_update(15) [of "wifi s"] by (metis binding_ok_def)
qed

lemmas setters_keep =
  setInterfaceName_keeps setDomainName_keeps setHostName_keeps
  on_wifi_keeps [OF buffer_setters_keep(1) setters_keep_names(1)]
  on_wifi_keeps [OF buffer_setters_keep(2) setters_keep_names(2)]
  on_wifi_keeps [OF buffer_setters_keep(3) setters_keep_names(3)]
  on_wifi_keeps [OF setSecurityProtocol_keeps setters_keep_names(8)]
  on_wifi_keeps [OF setDiscoverable_keeps setters_keep_names(9)]
  on_wifi_keeps [OF setMaxNumberClients_keeps setters_keep_names(10)]
  on_wifi_keeps [OF setIeeeStandard_keeps setters_keep_names(11)]
  on_wifi_keeps [OF setChannel_keeps setters_keep_names(12)]
  on_wifi_keeps [OF setPreSharedKey_keeps setters_keep_names(13)]

text \<open>Reading a parameter: a value and nothing said, or a reply and no value.\<close>

lemma get_single_jsonc_cases:
  "get_single_jsonc E ps s = (v, s') \<Longrightarrow> (v \<noteq> None \<and> s' = s) \<or> (v = None \<and> s' = reply_invalid_params E s)"
  by (auto simp: get_single_jsonc_def split: if_splits)

lemma get_single_string_cases:
  "get_single_string E ps s = (v, s') \<Longrightarrow> (v \<noteq> None \<and> s' = s) \<or> (v = None \<and> s' = reply_invalid_params E s)"
  by (auto simp: get_single_string_def split: if_splits)

lemma get_single_boolean_cases:
  "get_single_boolean E ps s = (v, s') \<Longrightarrow> (v \<noteq> None \<and> s' = s) \<or> (v = None \<and> s' = reply_invalid_params E s)"
  by (auto simp: get_single_boolean_def Let_def split: if_splits option.splits json.splits)

lemma get_single_uint32_cases:
  "get_single_uint32 E ps s = (v, s') \<Longrightarrow> (v \<noteq> None \<and> s' = s) \<or> (v = None \<and> s' = reply_invalid_params E s)"
  by (auto simp: get_single_uint32_def Let_def split_beta split: if_splits option.splits json.splits)

text \<open>A handled request keeps the state well-formed and has been answered once.\<close>

definition handles :: "('a service_scheme \<Rightarrow> fault + 'a service_scheme) \<Rightarrow> bool" where
  "handles h \<longleftrightarrow> (\<forall>s s'. h s = Inr s' \<longrightarrow> (binding_ok s \<longrightarrow> binding_ok s' \<and> replied s s'))"

lemma handlesD: "handles h \<Longrightarrow> h s = Inr s' \<Longrightarrow> binding_ok s \<Longrightarrow> binding_ok s' \<and> replied s s'"
  by (simp add: handles_def)

lemma replied_invalid: "replied s (reply_invalid_params E s)"
  by (simp add: reply_invalid_params_def replied_reply)

lemma single_string_set_handles:
  assumes "keeps_binding f"
  shows "handles (\<lambda>s. single_string_set E f ps s)"
  unfolding handles_def
proof (intro allI impI)
  fix s s' :: "'a service_scheme"
  assume run: "single_string_set E f ps s = Inr s'" and ok: "binding_ok s"
  obtain v s1 where g: "get_single_string E ps s = (v, s1)" by fastforce
  from get_single_string_cases [OF g] show "binding_ok s' \<and> replied s s'"
    using run g ok assms replied_invalid [of s E]
    by (auto simp: single_string_set_def keeps_binding_def Let_def intro!: replied_reply)
qed

lemma single_uint32_set_handles:
  assumes "keeps_binding f"
  shows "handles (\<lambda>s. single_uint32_set E f ps s)"
  unfolding handles_def
proof (intro allI impI)
  fix s s' :: "'a service_scheme"
  assume run: "single_uint32_set E f ps s = Inr s'" and ok: "binding_ok s"
  obtain v s1 where g: "get_single_uint32 E ps s = (v, s1)" by fastforce
  from get_single_uint32_cases [OF g] show "binding_ok s' \<and> replied s s'"
    using run g ok assms replied_invalid [of s E]
    by (auto simp: single_uint32_set_def keeps_binding_def intro!: replied_reply)
qed

lemma setDiscoverable_handles: "handles (setDiscoverable E ps)"
  unfolding handles_def
proof (intro allI impI)
  fix s s' :: "'a service_scheme"
  assume run: "setDiscoverable E ps s = Inr s'" and ok: "binding_ok s"
  obtain v s1 where g: "get_single_boolean E ps s = (v, s1)" by fastforce
  have "keeps_binding (on_wifi setDiscoverableParameter :: bool \<Rightarrow> 'a service_scheme \<Rightarrow> _)"
    by (rule setters_keep(8))
  with get_single_boolean_cases [OF g] show "binding_ok s' \<and> replied s s'"
    using run g ok replied_invalid [of s E]
    by (auto simp: setDiscoverable_def keeps_binding_def intro!: replied_reply)
qed

lemma setIeeeStandard_single: "setIeeeStandard E ps s = single_uint32_set E (on_wifi setIeeeStandardParameter) ps s"
  by (simp add: setIeeeStandard_def single_uint32_set_def)

lemma setIpRange_handles: "handles (setIpRange E ps)"
  unfolding handles_def
proof (intro allI impI)
  fix s s' :: "'a service_scheme"
  assume run: "setIpRange E ps s = Inr s'" and ok: "binding_ok s"
  obtain v s1 where g: "get_single_jsonc E ps s = (v, s1)" by fastforce
  have range: "binding_ok (s\<lparr>wifi := w\<rparr>)" if "setIpRangeParameters (wifi s) a b c d = Inr (r, w)" for a b c d r w
  proof -
    have w: "w = (wifi s)\<lparr>ip_ap := ip_ap w, ip_start := ip_start w, ip_stop := ip_stop w, ip_netmask := ip_netmask w\<rparr>"
      using setIpRangeParameters_result [OF that] ok by (simp add: binding_ok_def params_ok_def)
    have "names_ok (s\<lparr>wifi := w\<rparr>) = names_ok s"
      by (intro names_ok_fields; simp; subst w; simp)
    with setIpRange_keeps [OF _ that] ok show ?thesis by (simp add: binding_ok_def)
  qed
  from get_single_jsonc_cases [OF g] show "binding_ok s' \<and> replied s s'"
    using run g ok replied_invalid [of s E]
    by (auto simp: setIpRange_def silent_def split: option.splits prod.splits intro!: replied_reply range)
qed

section \<open>The verbs that drive the service\<close>

text \<open>
  Steps that change no parameter but the status, leave the heap of names alone, do not lose the pointer to the event
  thread, set the status to started only with such a pointer, and leave no freed object in the list of threads.
\<close>

definition kept :: "'a service_scheme \<Rightarrow> 'a service_scheme \<Rightarrow> bool" where
  "kept s s' \<longleftrightarrow> (\<exists>st. wifi s' = (wifi s)\<lparr>status := st\<rparr>) \<and> blocks s' = blocks s \<and> brk s' = brk s \<and>
     (wifiApThreadPtr s \<noteq> None \<longrightarrow> wifiApThreadPtr s' \<noteq> None) \<and>
     (status (wifi s') = Status_started \<longrightarrow> status (wifi s) = Status_started \<or> wifiApThreadPtr s' \<noteq> None) \<and>
     (registry_ok s \<longrightarrow> registry_ok s')"

lemma registry_ok_fields [simp]:
  "registry_ok (s\<lparr>calls := h\<rparr>) = registry_ok s" "registry_ok (s\<lparr>wifi := w\<rparr>) = registry_ok s"
  "registry_ok (u\<lparr>wifiApThreadPtr := a\<rparr>) = registry_ok u" "registry_ok (u\<lparr>IwThreadPipePtr := p\<rparr>) = registry_ok u"
  "registry_ok (u\<lparr>clients := c\<rparr>) = registry_ok u"
  by (rule registry_ok_cong; simp)+

lemma tame_destructor: "tame (call_destructor E)"
  unfolding tame_def
proof (intro allI impI)
  fix f c and s s1 :: "'a service_scheme"
  assume "call_destructor E f c s = Inr s1"
  then show "registry_frame s s1"
    by (cases f) (auto simp: threadDestructorFunc_def registry_frame_def system_def ask_def split_beta Let_def split: option.splits)
qed

lemma kept_binding: "kept s s' \<Longrightarrow> binding_ok s \<Longrightarrow> binding_ok s'"
  by (auto simp: kept_def intro: binding_ok_status)

lemma kept_refl [simp]: "kept s s"
  by (auto simp: kept_def intro: exI [of _ "status (wifi s)"])

lemma kept_trans: "kept s t \<Longrightarrow> kept t u \<Longrightarrow> kept s u"
  by (auto simp: kept_def)

lemma kept_same: "same s t \<Longrightarrow> kept s t"
  using same_fields [of s t] registry_ok_cong [of t s] by (auto simp: kept_def intro: exI [of _ "status (wifi s)"])

lemma kept_status: "kept s t \<Longrightarrow> st \<noteq> Status_started \<Longrightarrow> kept s (set_status st t)"
  by (auto simp: kept_def set_status_def)

lemma kept_plain:
  "wifi t = wifi s \<Longrightarrow> blocks t = blocks s \<Longrightarrow> brk t = brk s \<Longrightarrow> wifiApThreadPtr t = wifiApThreadPtr s \<Longrightarrow>
     (registry_ok s \<Longrightarrow> registry_ok t) \<Longrightarrow> kept s t"
  by (auto simp: kept_def intro: exI [of _ "status (wifi s)"])

lemma kept_thread: "(wifi t, blocks t, brk t, wifiApThreadPtr t, clients t, replies (calls t)) =
    (wifi s, blocks s, brk s, wifiApThreadPtr s, clients s, replies (calls s)) \<Longrightarrow>
    (registry_ok s \<Longrightarrow> registry_ok t) \<Longrightarrow> kept s t"
  by (simp add: kept_plain)

lemma kept_start_event_thread:
  assumes "start_event_thread E t = Inr (r, s')"
  shows "kept t s'"
proof -
  from assms(1) obtain a s1 i r3 s3 j r4 s4 k r5 s5 where run:
    "CreateThread E ''WifiApThread'' Ptr_WifiApThreadMainFunc (interfaceName (wifi t)) t = Inr (Some a, s1)"
    "setThreadJoinable E i (s1\<lparr>wifiApThreadPtr := Some a\<rparr>) = Inr (r3, s3)"
    "addDestructorToThread E j (Some Ptr_threadDestructorFunc) (WIFI_SCRIPT E) s3 = Inr (r4, s4)"
    "startThread E k s4 = Inr (r5, s5)" "s' = set_status Status_started s5"
    by (auto simp: start_event_thread_def Let_def split: option.splits)
  from thread_silent(4) [OF run(1)] thread_silent(1) [OF run(2)] thread_silent(2) [OF run(3)]
    thread_silent(3) [OF run(4)]
  have "wifi s5 = wifi t \<and> blocks s5 = blocks t \<and> brk s5 = brk t \<and> wifiApThreadPtr s5 = Some a" by simp
  moreover have "registry_ok t \<Longrightarrow> registry_ok s5"
    using registry_CreateThread [OF run(1)] registry_setThreadJoinable [OF run(2)] registry_addDestructor [OF run(3)]
      registry_startThread [OF run(4)] by simp
  ultimately show ?thesis unfolding run(5) by (auto simp: kept_def set_status_def)
qed

lemma kept_start_failure: "start_failure c t = Inr (r, s') \<Longrightarrow> kept s t \<Longrightarrow> kept s s'"
  by (auto simp: start_failure_def intro: kept_status)

lemma kept_start_hostapd:
  assumes "start_hostapd E t = Inr (r, s')"
  shows "kept t s'"
proof -
  from assms(1) obtain s1 s2 g s3 where pre: "check_and_resolve_conflicts_with_NM E t = Inr s1"
    "check_if_firewalld_running_and_allow_dhcp_traffic E s1 = Inr s2" "GenerateHostApConfFile E (wifi s2) s2 = Inr (g, s3)"
    by (auto simp: start_hostapd_def)
  have s3: "same t s3"
    by (rule same_generate [OF pre(3) same_firewalld [OF pre(2) same_NM [OF pre(1) same_refl]]])
  have sys: "same t (snd (system E c s3))" "same t (snd (system E d (snd (system E c s3))))"
    "same t (remove_file E p (snd (system E d (snd (system E c s3)))))" for c d p
    using s3 by (simp_all add: same_steps)
  note fails = kept_start_failure [OF _ kept_same [OF s3]] kept_start_failure [OF _ kept_same [OF sys(1)]]
    kept_start_failure [OF _ kept_same [OF sys(3)]]
  have ev: "kept t v" if "start_event_thread E (snd (system E d (snd (system E c s3)))) = Inr (q, v)" for c d q v
    by (rule kept_trans [OF kept_same [OF sys(2)] kept_start_event_thread [OF that]])
  from assms(1) pre show ?thesis
    by (auto simp: start_hostapd_def Let_def split_beta split: if_splits intro: fails ev)
qed

lemma kept_startAp:
  assumes "startAp E s = Inr (r, s')"
  shows "kept s s'"
proof -
  obtain c s1 where s1: "clean_left E s = Inr (c, s1)" using assms by (auto simp: startAp_def)
  have q1: "same s s1"
    using s1 same_config_left [OF same_refl, of s E]
    by (auto simp: clean_left_def split_beta Let_def intro: same_steps split: if_splits)
  show ?thesis
  proof (cases c)
    case False
    with assms(1) s1 kept_same [OF q1] show ?thesis by (auto simp: startAp_def elim!: kept_start_failure)
  next
    case True
    obtain e s2 where s2: "setDnsmasqService E s1 = Inr (e, s2)" using assms(1) s1 True by (auto simp: startAp_def)
    from setDnsmasqService_outcome [OF s2] have q2: "kept s s2"
      using kept_same [OF q1] kept_same [of s1] kept_trans [of s s1]
      by (auto simp: dnsmasq_outcome_def intro!: kept_status split: if_splits)
    with assms(1) s1 s2 True show ?thesis
      by (auto simp: startAp_def split: if_splits elim!: kept_start_failure dest!: kept_start_hostapd
          elim: kept_trans)
  qed
qed

lemma kept_reply: "kept s t \<Longrightarrow> kept s (afb_req_reply E st p t)"
  by (simp add: kept_def afb_req_reply_def ask_def)

lemma kept_start: "start E s = Inr s' \<Longrightarrow> kept s s'"
  by (auto simp: start_def split: if_splits intro!: kept_reply dest: kept_startAp)

lemma kept_restart:
  assumes "restart E s = Inr s'"
  shows "kept s s'"
proof -
  obtain l t where t: "config_left E s = (l, t)" by fastforce
  have q: "same s t" using same_config_left [OF same_refl, of s E] t by simp
  have sys: "kept s (snd (system E c t))" for c by (rule kept_same [OF same_steps(1) [OF q]])
  have st: "kept s u" if "startAp E (snd (system E c t)) = Inr (r, u)" for c r u
    by (rule kept_trans [OF sys kept_startAp [OF that]])
  from assms t kept_same [OF q] sys st show ?thesis
    by (auto simp: restart_def split_beta Let_def split: if_splits intro!: kept_status)
qed

lemma kept_stop_end:
  "stop_failed E c t = Inr s' \<Longrightarrow> kept s t \<Longrightarrow> kept s s'" "stop_done E t = Inr s' \<Longrightarrow> kept s t \<Longrightarrow> kept s s'"
  by (auto simp: stop_failed_def stop_done_def intro!: kept_reply kept_status)

lemma kept_stop:
  assumes "stop E s = Inr s'"
  shows "kept s s'"
proof -
  obtain i where i: "iface s = Inr i" using assms by (auto simp: stop_def)
  obtain st s1 where s1: "system E (script_cmd E COMMAND_WIFIAP_HOSTAPD_STOP i) s = (st, s1)" by fastforce
  obtain st' s2 where s2: "system E (script_cmd E COMMAND_WIFI_HW_STOP i) s1 = (st', s2)" by fastforce
  have q1: "same s s1" using same_steps(1) [OF same_refl, of s E] s1 by (metis snd_conv)
  have q2: "same s s2" using same_steps(1) [OF q1, of E] s2 by (metis snd_conv)
  have cancel: "kept s t" if "cancelThread E k s2 = Inr (r, t)" for k r t
    by (rule kept_trans [OF kept_same [OF q2] kept_thread [OF thread_silent(5) [OF that] registry_cancelThread [OF that]]])
  have join: "kept s u" if "cancelThread E k s2 = Inr (r, t)" "JoinThread E (call_destructor E) l t = Inr (r', u)" for k r t l r' u
    by (rule kept_trans [OF cancel [OF that(1)] kept_thread [OF thread_silent(7) [OF that(2)]
      registry_JoinThread [OF tame_destructor that(2)]]])
  from assms i s1 s2 show ?thesis
    by (auto simp: stop_def split: if_splits option.splits
        intro: kept_stop_end kept_same [OF q1] kept_same [OF q2] cancel join)
qed

lemma start_handles: "handles (start E)" "handles (stop E)"
  using kept_binding [OF kept_start] kept_binding [OF kept_stop] start_replied stop_replied
  by (auto simp: handles_def)

lemma queries_handle:
  "handles (getWifiApStatus E)" "handles (getIeeeStandard E)" "handles (info E)"
  by (auto simp: handles_def getWifiApStatus_def getIeeeStandard_def info_def reply_single_key_string_def
      reply_single_key_uint32_def intro!: replied_json replied_reply silent_ask)

lemma getAPnumberClients_handles: "handles (getAPnumberClients E :: 'a service_scheme \<Rightarrow> _)"
  unfolding handles_def
proof (intro allI impI)
  fix s s' :: "'a service_scheme"
  assume run: "getAPnumberClients E s = Inr s'" and ok: "binding_ok s"
  have pipe: "silent s (snd (popen E c s)) \<and> binding_ok (snd (popen E c s))" for c
    using ok binding_ok_same [of "snd (popen E c s)" s] by (simp add: popen_def ask_def silent_def)
  with run show "binding_ok s' \<and> replied s s'"
    by (auto simp: getAPnumberClients_def Let_def split_beta reply_single_key_uint32_def
        intro!: replied_json replied_reply split: option.splits)
qed

lemma subscription_handles:
  assumes "replies [c] = []"
  shows "handles (\<lambda>s. case get_single_string E ps s of
        (None, s1) \<Rightarrow> Inr s1
      | (Some _, s1) \<Rightarrow>
          (let (sts, s2) = ask E c s1
           in Inr (afb_req_reply E (if sts < 0 then AFB_ERRNO_INTERNAL_ERROR else Success) None s2)))"
  unfolding handles_def
proof (intro allI impI)
  fix s s' :: "'a service_scheme"
  assume run: "(case get_single_string E ps s of
        (None, s1) \<Rightarrow> Inr s1
      | (Some _, s1) \<Rightarrow>
          (let (sts, s2) = ask E c s1
           in Inr (afb_req_reply E (if sts < 0 then AFB_ERRNO_INTERNAL_ERROR else Success) None s2))) =
      (Inr s' :: fault + 'a service_scheme)" and ok: "binding_ok s"
  obtain v s1 where g: "get_single_string E ps s = (v, s1)" by fastforce
  from get_single_string_cases [OF g] show "binding_ok s' \<and> replied s s'"
    using run g ok replied_invalid [of s E] assms
    by (auto simp: split_beta Let_def intro!: replied_reply silent_ask)
qed

lemma subscribe_handles: "handles (subscribe E ps)" "handles (unsubscribe E ps)"
  using subscription_handles [of Subscribe E ps] subscription_handles [of Unsubscribe E ps]
  by (simp_all add: subscribe_def [abs_def] unsubscribe_def [abs_def])

lemma setters_handle:
  "handles (setHostName E ps)" "handles (setDomainName E ps)" "handles (setInterfaceName E ps)"
  "handles (setSsid E ps)" "handles (setPassPhrase E ps)" "handles (setSecurityProtocol E ps)"
  "handles (SetPreSharedKey E ps)" "handles (setCountryCode E ps)"
  "handles (setChannel E ps)" "handles (SetMaxNumberClients E ps)" "handles (setIeeeStandard E ps)"
  unfolding setHostName_def [abs_def] setDomainName_def [abs_def] setInterfaceName_def [abs_def] setSsid_def [abs_def]
    setPassPhrase_def [abs_def] setSecurityProtocol_def [abs_def] SetPreSharedKey_def [abs_def]
    setCountryCode_def [abs_def] setChannel_def [abs_def] SetMaxNumberClients_def [abs_def]
    setIeeeStandard_single [abs_def]
  by (rule single_string_set_handles single_uint32_set_handles, rule setters_keep)+

lemmas verbs_handle = setters_handle subscribe_handles queries_handle getAPnumberClients_handles start_handles
  setDiscoverable_handles setIpRange_handles

lemma verbs_cases:
  assumes "map_of (verbs E ps) name = Some h"
  shows "(name = ''restart'' \<and> h = restart E) \<or> (name \<noteq> ''restart'' \<and> handles h)"
  using assms unfolding verbs_def by (auto simp: verbs_handle split: if_splits)

lemma request_keeps:
  assumes "binding_ok s" "request E name ps s = Inr s'"
  shows "binding_ok s'"
proof (cases "map_of (verbs E ps) name :: ('a service_scheme \<Rightarrow> fault + 'a service_scheme) option")
  case None
  with assms show ?thesis by (simp add: request_def)
next
  case (Some h)
  with assms verbs_cases [OF Some] show ?thesis
    by (auto simp: request_def dest: handlesD intro: kept_binding [OF kept_restart])
qed

text \<open>Requests as the environment, the verb and the parameters; any sequence of them keeps the state well-formed.\<close>

definition ask_verb :: "env \<times> string \<times> param list \<Rightarrow> 'a service_scheme \<Rightarrow> fault + 'a service_scheme" where
  "ask_verb q s = (case q of (E, name, ps) \<Rightarrow> request E name ps s)"

definition requests :: "(env \<times> string \<times> param list) list \<Rightarrow> 'a service_scheme \<Rightarrow> fault + 'a service_scheme" where
  "requests qs s = foldl (\<lambda>r q. bindE r (ask_verb q)) (Inr s) qs"

interpretation verb: request_handler ask_verb binding_ok
  by unfold_locales (auto simp: ask_verb_def intro: request_keeps)

lemma requests_keep: "binding_ok s \<Longrightarrow> requests qs s = Inr s' \<Longrightarrow> binding_ok s'"
  unfolding requests_def by (rule verb.history)

end
