(* ===== verification/Requests.thy ===== *)
theory Requests
  imports Verbs
begin

text \<open>
  What the verbs of \<open>src/wifiAp.c\<close> guarantee, seen from a client: which requests always return, what the
  numbers and texts in requests and replies mean, and how the effect of one request shows in the reply to another.
\<close>

section \<open>Verbs that always return\<close>

definition returns :: "('v \<Rightarrow> 'a ap_scheme \<Rightarrow> fault + (int \<times> 'a ap_scheme)) \<Rightarrow> bool" where
  "returns f \<longleftrightarrow> (\<forall>v s. binding_ok s \<longrightarrow> (\<exists>r s'. f v s = Inr (r, s')))"

definition answers :: "('a service_scheme \<Rightarrow> fault + 'a service_scheme) \<Rightarrow> bool" where
  "answers h \<longleftrightarrow> (\<forall>s. binding_ok s \<longrightarrow> (\<exists>s'. h s = Inr s'))"

lemma on_wifi_returns:
  "(\<And>w v. buffers_ok w \<Longrightarrow> \<exists>r w'. f w v = Inr (r, w')) \<Longrightarrow> returns (on_wifi f)"
  by (auto simp: returns_def on_wifi_def binding_ok_def params_ok_def)

lemma setters_return:
  "returns (setInterfaceNameParameter E)" "returns (setDomainNameParameter E)" "returns (setHostNameParameter E)"
  "returns (on_wifi setSsidParameter)" "returns (on_wifi setPassPhraseParameter)"
  "returns (on_wifi setCountryCodeParameter)" "returns (on_wifi setSecurityProtocolParameter)"
  "returns (on_wifi setDiscoverableParameter)" "returns (on_wifi setMaxNumberClients)"
  "returns (on_wifi setIeeeStandardParameter)" "returns (on_wifi setChannelParameter)"
proof -
  show "returns (setInterfaceNameParameter E)" "returns (setDomainNameParameter E)" "returns (setHostNameParameter E)"
    using setInterfaceName_result setDomainName_result setHostName_result
    by (fastforce simp: returns_def binding_ok_def)+
  show "returns (on_wifi setSsidParameter)" by (rule on_wifi_returns) (use ssid.result in blast)
  show "returns (on_wifi setPassPhraseParameter)" by (rule on_wifi_returns) (use pass.result in blast)
  show "returns (on_wifi setCountryCodeParameter)" by (rule on_wifi_returns) (use country.result in blast)
  show "returns (on_wifi setMaxNumberClients)" by (rule on_wifi_returns) (use maxclients.result in blast)
  show "returns (on_wifi setIeeeStandardParameter)" by (rule on_wifi_returns) (use ieee.result in blast)
  show "returns (on_wifi setSecurityProtocolParameter)" "returns (on_wifi setDiscoverableParameter)"
    by (rule on_wifi_returns; auto simp: setSecurityProtocolParameter_def setDiscoverableParameter_def split: option.split)+
  show "returns (on_wifi setChannelParameter)"
    by (rule on_wifi_returns) (auto simp: setChannelParameter_def Let_def)
qed

lemma single_sets_answer:
  "returns f \<Longrightarrow> answers (\<lambda>s. single_string_set E f ps s)"
  "returns g \<Longrightarrow> answers (\<lambda>s. single_uint32_set E g ps s)"
proof -
  assume f: "returns f"
  show "answers (\<lambda>s. single_string_set E f ps s)"
    unfolding answers_def
  proof (intro allI impI)
    fix s :: "'a service_scheme"
    assume ok: "binding_ok s"
    obtain v s1 where g: "get_single_string E ps s = (v, s1)" by fastforce
    then show "\<exists>s'. single_string_set E f ps s = Inr s'"
      using get_single_string_cases [OF g] f ok
      by (cases v) (fastforce simp: single_string_set_def returns_def Let_def)+
  qed
next
  assume f: "returns g"
  show "answers (\<lambda>s. single_uint32_set E g ps s)"
    unfolding answers_def
  proof (intro allI impI)
    fix s :: "'b service_scheme"
    assume ok: "binding_ok s"
    obtain v s1 where g: "get_single_uint32 E ps s = (v, s1)" by fastforce
    then show "\<exists>s'. single_uint32_set E g ps s = Inr s'"
      using get_single_uint32_cases [OF g] f ok
      by (cases v) (fastforce simp: single_uint32_set_def returns_def Let_def)+
  qed
qed

lemma setDiscoverable_answers: "answers (setDiscoverable E ps)"
  by (auto simp: answers_def setDiscoverable_def on_wifi_def setDiscoverableParameter_def split: option.splits prod.splits)

lemma verbs_answer:
  "answers (setHostName E ps)" "answers (setDomainName E ps)" "answers (setInterfaceName E ps)"
  "answers (setSsid E ps)" "answers (setPassPhrase E ps)" "answers (setSecurityProtocol E ps)"
  "answers (setCountryCode E ps)" "answers (setChannel E ps)" "answers (SetMaxNumberClients E ps)"
  "answers (setIeeeStandard E ps)"
  unfolding setHostName_def [abs_def] setDomainName_def [abs_def] setInterfaceName_def [abs_def] setSsid_def [abs_def]
    setPassPhrase_def [abs_def] setSecurityProtocol_def [abs_def] setCountryCode_def [abs_def]
    setChannel_def [abs_def] SetMaxNumberClients_def [abs_def] setIeeeStandard_single [abs_def]
  by (rule single_sets_answer, rule setters_return)+

lemma queries_answer:
  "answers (getWifiApStatus E)" "answers (getIeeeStandard E)" "answers (info E)"
  "answers (subscribe E ps)" "answers (unsubscribe E ps)"
  by (auto simp: answers_def getWifiApStatus_def getIeeeStandard_def info_def subscribe_def unsubscribe_def
      split_beta split: option.splits prod.splits)

definition safe_verbs :: "string list" where
  "safe_verbs = [''subscribe'', ''unsubscribe'', ''getIeeeStandard'', ''getWifiApStatus'', ''setSsid'',
     ''setInterfaceName'', ''setHostName'', ''setDomainName'', ''setPassPhrase'', ''setDiscoverable'',
     ''setIeeeStandard'', ''setChannel'', ''setSecurityProtocol'', ''setCountryCode'', ''SetMaxNumberClients'', ''info'']"

lemma safe_verb_handler:
  assumes "name \<in> set safe_verbs"
  shows "\<exists>h. map_of (verbs E ps :: (string \<times> ('a service_scheme \<Rightarrow> fault + 'a service_scheme)) list) name = Some h \<and> answers h \<and> handles h"
proof -
  have "list_all (\<lambda>name. \<exists>h. map_of (verbs E ps :: (string \<times> ('a service_scheme \<Rightarrow> fault + 'a service_scheme)) list) name = Some h \<and> answers h \<and> handles h) safe_verbs"
    unfolding safe_verbs_def verbs_def list.pred_inject
    by (intro conjI TrueI; simp add: verbs_answer queries_answer setDiscoverable_answers verbs_handle)
  with assms show ?thesis by (simp add: list_all_iff)
qed

section \<open>Every request\<close>

text \<open>
  Between requests the state is well-formed: the parameters are validated, the heap holds exactly the three
  names, and any sequence of requests of any clients, with any environment, keeps it so. Every verb of the
  table but \<open>restart\<close> has replied exactly once when it returns.
\<close>

lemma requests_keep_the_binding:
  fixes s s1 s2 :: "'a service_scheme"
  assumes "binding_ok s"
  shows "(requests qs s = Inr s1 \<longrightarrow> binding_ok s1) \<and>
    (request E name ps s = Inr s2 \<and> name \<noteq> ''restart'' \<and> name \<in> set (map fst (verbs E ps :: (string \<times> ('a service_scheme \<Rightarrow> fault + 'a service_scheme)) list)) \<longrightarrow>
       replied s s2)"
proof (intro conjI impI)
  show "requests qs s = Inr s1 \<Longrightarrow> binding_ok s1" by (rule requests_keep [OF assms])
next
  assume run: "request E name ps s = Inr s2 \<and> name \<noteq> ''restart'' \<and> name \<in> set (map fst (verbs E ps :: (string \<times> ('a service_scheme \<Rightarrow> fault + 'a service_scheme)) list))"
  then obtain h where h: "map_of (verbs E ps :: (string \<times> ('a service_scheme \<Rightarrow> fault + 'a service_scheme)) list) name = Some h"
    by (metis image_set weak_map_of_SomeI map_of_eq_None_iff not_None_eq)
  with run verbs_cases [OF h] assms show "replied s s2" by (auto simp: request_def dest: handlesD)
qed

text \<open>
  What three verbs need of their request: \<open>getAPclientsNumber\<close> an interface name, and the two that copy with \<open>utf8_Copy\<close> texts, within the
  lengths, that do not end inside a character that would fit.
\<close>

definition key_read :: "string option \<Rightarrow> bool" where
  "key_read v = (case v of None \<Rightarrow> False | Some str \<Rightarrow> strlen str \<le> 64 \<longrightarrow> \<not> overreads (cstr str) 65)"

definition range_read :: "string list \<Rightarrow> bool" where
  "range_read xs \<longleftrightarrow> (list_all (\<lambda>x. 1 \<le> strlen x \<and> strlen x \<le> 15) xs \<longrightarrow> list_all (\<lambda>x. \<not> overreads (cstr x) 16) xs)"

definition request_sound :: "env \<Rightarrow> string \<Rightarrow> param list \<Rightarrow> 'a service_scheme \<Rightarrow> bool" where
  "request_sound E name ps s =
     (if name = ''getAPclientsNumber'' then interfaceName (wifi s) \<noteq> None
      else if name = ''setPreSharedKey'' then (case fst (get_single_string E ps s) of None \<Rightarrow> True | Some v \<Rightarrow> key_read v)
      else if name = ''setIpRange''
      then (case fst (get_single_jsonc E ps s) of None \<Rightarrow> True | Some obj \<Rightarrow>
              (case unpack_ip E obj of None \<Rightarrow> True | Some (ap, lo, hi, nm) \<Rightarrow> range_read [ap, lo, hi, nm]))
      else True)"

lemma key_returns:
  assumes "buffers_ok w"
  shows "(\<exists>r w'. setPreSharedKeyParameter w v = Inr (r, w')) \<longleftrightarrow> key_read v"
proof (cases v)
  case (Some str)
  have "65 \<le> length (presharedKey w)" using assms by (simp add: buffers_ok_def buffer_ok_def)
  with utf8_Copy_overreads [of "cstr str" 65 "presharedKey w"] show ?thesis
    by (auto simp: Some setPreSharedKeyParameter_def key_read_def split: if_splits)
qed (simp add: setPreSharedKeyParameter_def key_read_def)

lemma copy_ip_returns: "buffer_ok 16 b \<Longrightarrow> (\<exists>b'. copy_ip b str = Inr b') \<longleftrightarrow> \<not> overreads (cstr str) 16"
  using utf8_Copy_overreads [of "cstr str" 16 b] by (auto simp: copy_ip_def buffer_ok_def split: if_splits)

lemma range_returns:
  assumes "buffers_ok w"
  shows "(\<exists>r w'. setIpRangeParameters w a b c d = Inr (r, w')) \<longleftrightarrow> range_read [a, b, c, d]"
proof -
  have bufs: "buffer_ok 16 (ip_ap w)" "buffer_ok 16 (ip_start w)" "buffer_ok 16 (ip_stop w)" "buffer_ok 16 (ip_netmask w)"
    using assms by (simp_all add: buffers_ok_def)
  note r = copy_ip_returns [OF bufs(1), of a] copy_ip_returns [OF bufs(2), of b]
    copy_ip_returns [OF bufs(3), of c] copy_ip_returns [OF bufs(4), of d]
  have bind: "(\<exists>r w'. bindE m f = Inr (r, w')) \<longleftrightarrow> (\<exists>x. m = Inr x \<and> (\<exists>r w'. f x = Inr (r, w')))" for m :: "fault + 'x" and f :: "'x \<Rightarrow> fault + int \<times> wifiApT"
    by (cases m) simp_all
  show ?thesis
  proof (cases "list_all (\<lambda>x. 1 \<le> strlen x \<and> strlen x \<le> 15) [a, b, c, d]")
    case True
    then have "range_read [a, b, c, d] \<longleftrightarrow> (\<exists>x. copy_ip (ip_ap w) a = Inr x) \<and> (\<exists>x. copy_ip (ip_start w) b = Inr x) \<and>
        (\<exists>x. copy_ip (ip_stop w) c = Inr x) \<and> (\<exists>x. copy_ip (ip_netmask w) d = Inr x)"
      unfolding r by (simp add: range_read_def)
    with True show ?thesis by (auto simp: setIpRangeParameters_def bind)
  next
    case False
    then have "range_read [a, b, c, d]" unfolding range_read_def by blast
    with False show ?thesis by (auto simp: setIpRangeParameters_def Let_def)
  qed
qed

lemma three_verbs_return:
  assumes "binding_ok s" "name \<in> {''getAPclientsNumber'', ''setPreSharedKey'', ''setIpRange''}"
  shows "(\<exists>s'. request E name ps s = Inr s') \<longleftrightarrow> request_sound E name ps s"
proof -
  have w: "buffers_ok (wifi s)" using assms(1) by (simp add: binding_ok_def params_ok_def)
  consider "name = ''getAPclientsNumber''" | "name = ''setPreSharedKey''" | "name = ''setIpRange''" using assms(2) by blast
  then show ?thesis
  proof cases
    case 1
    have "(\<exists>i. iface s = Inr i) \<longleftrightarrow> interfaceName (wifi s) \<noteq> None"
    proof (cases "interfaceName (wifi s)")
      case (Some p)
      then have "p \<in> dom (blocks s)"
        using assms(1) by (auto simp: binding_ok_def names_ok_def owned_by_def name_ptrs_def)
      with Some show ?thesis by (auto simp: iface_def deref_def)
    qed (simp add: iface_def deref_def)
    moreover have "\<exists>s'. getAPnumberClients E s = Inr s'" if i: "iface s = Inr i" for i
    proof -
      obtain pipe s1 where "popen E (take (PATH_MAX - 1) (''iw dev '' @ i @ '' station dump'')) s = (pipe, s1)" by fastforce
      with i show ?thesis by (cases pipe) (simp_all add: getAPnumberClients_def)
    qed
    moreover have "request E name ps s = getAPnumberClients E s" by (simp add: 1 request_def verbs_def)
    moreover have "\<exists>i. iface s = Inr i" if "getAPnumberClients E s = Inr s'" for s'
      using that by (auto simp: getAPnumberClients_def)
    ultimately show ?thesis using 1 by (auto simp: request_sound_def)
  next
    case 2
    obtain v s1 where v: "get_single_string E ps s = (v, s1)" by fastforce
    have "(\<exists>s'. request E name ps s = Inr s') \<longleftrightarrow> (case v of None \<Rightarrow> True | Some x \<Rightarrow> \<exists>r w'. setPreSharedKeyParameter (wifi s) x = Inr (r, w'))"
      using get_single_string_cases [OF v]
      by (cases v; cases "setPreSharedKeyParameter (wifi s) (the v)")
        (auto simp: 2 request_def verbs_def SetPreSharedKey_def single_string_set_def v on_wifi_def)
    then show ?thesis by (cases v) (simp_all add: 2 request_sound_def v key_returns [OF w])
  next
    case 3
    obtain v s1 where v: "get_single_jsonc E ps s = (v, s1)" by fastforce
    have "wifi s1 = wifi s" if "v \<noteq> None" using get_single_jsonc_cases [OF v] that by auto
    then have "(\<exists>s'. request E name ps s = Inr s') \<longleftrightarrow> (case v of None \<Rightarrow> True | Some obj \<Rightarrow>
        (case unpack_ip E obj of None \<Rightarrow> True | Some (a, b, c, d) \<Rightarrow> \<exists>r w'. setIpRangeParameters (wifi s) a b c d = Inr (r, w')))"
      by (cases v; auto simp: 3 request_def verbs_def setIpRange_def v split: option.splits)
    then show ?thesis by (simp add: 3 request_sound_def v range_returns [OF w] split: option.split)
  qed
qed

lemma three_verbs_handle:
  assumes "name \<in> {''getAPclientsNumber'', ''setPreSharedKey'', ''setIpRange''}"
    "binding_ok s" "request E name ps s = Inr s'"
  shows "binding_ok s' \<and> replied s s'"
proof -
  obtain h :: "'a service_scheme \<Rightarrow> fault + 'a service_scheme" where h: "map_of (verbs E ps) name = Some h"
    using assms(1) by (auto simp: verbs_def)
  with assms show ?thesis using verbs_cases [OF h] by (auto simp: request_def dest: handlesD)
qed

text \<open>
  C10. Every verb of the table but \<open>start\<close>, \<open>stop\<close> and \<open>restart\<close>, on a well-formed state, for all parameters and all answers
  of the environment: the request returns, keeps the state well-formed and has replied exactly once, with three
  exceptions, which are exactly the requests that fault: \<open>getAPclientsNumber\<close> without an interface name; \<open>setPreSharedKey\<close> with a NULL
  text, or a text of at most 64 bytes that ends inside a character that would fit the buffer; and \<open>setIpRange\<close> with four texts of 1 to 15 bytes one of
  which ends so.
\<close>

theorem safe_verbs_always_reply:
  fixes s :: "'a service_scheme"
  assumes "binding_ok s" "name \<in> set (map fst (verbs E ps :: (string \<times> ('a service_scheme \<Rightarrow> fault + 'a service_scheme)) list))"
    "name \<notin> {''start'', ''stop'', ''restart''}"
  shows "if request_sound E name ps s then \<exists>s'. request E name ps s = Inr s' \<and> binding_ok s' \<and> replied s s'
    else \<exists>e. request E name ps s = Inl e"
proof (cases "name \<in> {''getAPclientsNumber'', ''setPreSharedKey'', ''setIpRange''}")
  case True
  show ?thesis
    using three_verbs_return [OF assms(1) True, of E ps] three_verbs_handle [OF True assms(1), of E ps]
    by (cases "request E name ps s") auto
next
  case False
  with assms(2,3) have n: "name \<in> set safe_verbs" by (auto simp: verbs_def safe_verbs_def)
  from safe_verb_handler [OF this] obtain h :: "'a service_scheme \<Rightarrow> fault + 'a service_scheme"
    where h: "map_of (verbs E ps) name = Some h" "answers h" "handles h" by blast
  from h(2) assms(1) obtain s' where "h s = Inr s'" unfolding answers_def by blast
  with h assms(1) have "request E name ps s = Inr s' \<and> binding_ok s' \<and> replied s s'" by (auto simp: request_def dest: handlesD)
  with False show ?thesis by (auto simp: request_sound_def)
qed

section \<open>Numbers in requests and replies\<close>

definition text_param :: "string \<Rightarrow> param" where
  "text_param str = \<lparr>data_type = STRINGZ, data_text = str, data_byte = False, to_u32 = None, to_json = None\<rparr>"

lemma read_text: "get_single_string E [text_param str] s = (Some (Some str), s)"
  by (simp add: get_single_string_def text_param_def)

lemma strtoul_decimal: "n < 2 ^ 64 \<Longrightarrow> strtoul (show_nat n) = (n, [])"
proof -
  assume n: "n < 2 ^ 64"
  obtain c s where cs: "show_nat n = c # s" using show_nat_Cons by blast
  have "is_digit c" using show_nat_digits [of n] cs by simp
  then have c: "c \<noteq> CHR ''-''" "c \<noteq> CHR ''+''" "\<not> is_space c"
    using digit_not_sign by blast+
  have tw: "takeWhile is_digit (show_nat n) = show_nat n" "dropWhile is_digit (show_nat n) = []"
    using takeWhile_all_append [OF show_nat_digits, of n "[]"] by simp_all
  have "dropWhile is_space (show_nat n) = show_nat n" using c(3) by (simp add: cs)
  moreover have "(case show_nat n of [] \<Rightarrow> (False, [])
      | x # t \<Rightarrow> if x = CHR ''-'' then (True, t) else if x = CHR ''+'' then (False, t)
                 else (False, x # t)) = (False, show_nat n)"
    using c(1,2) by (simp add: cs)
  moreover have "show_nat n \<noteq> []" by (simp add: cs)
  moreover have "\<not> n \<ge> 2 ^ 64" using n by simp
  ultimately show ?thesis
    unfolding strtoul_def Let_def by (simp only: prod.case tw digits_val_show_nat if_False)
qed

lemma strtoul_minus: "0 < n \<Longrightarrow> n < 2 ^ 64 \<Longrightarrow> strtoul (CHR ''-'' # show_nat n) = (2 ^ 64 - n, [])"
proof -
  assume n: "0 < n" "n < 2 ^ 64"
  have tw: "takeWhile is_digit (show_nat n) = show_nat n" "dropWhile is_digit (show_nat n) = []"
    using takeWhile_all_append [OF show_nat_digits, of n "[]"] by simp_all
  have sp: "dropWhile is_space (CHR ''-'' # show_nat n) = CHR ''-'' # show_nat n" by (simp add: is_space_def)
  have ne: "show_nat n \<noteq> []" using show_nat_Cons [of n] by auto
  have w: "\<not> n \<ge> 2 ^ 64" "(2 ^ 64 - n) mod 2 ^ 64 = 2 ^ 64 - n" using n by simp_all
  from ne w show ?thesis
    unfolding strtoul_def Let_def sp list.case by (simp only: prod.case tw digits_val_show_nat if_True if_False refl)
qed

lemma number_of_text:
  assumes "strtoul (cstr str) = (v, [])" "v \<le> 2 ^ 32 - 1"
  shows "get_single_uint32 E [text_param str] s = (Some (word_of_nat v), s)"
  using assms by (simp add: get_single_uint32_def text_param_def Let_def)

lemma number_text: "get_single_uint32 E [text_param (show_nat (unat n))] s = (Some n, s)"
proof -
  have "unat n < 2 ^ 32" using unsigned_less [of n] by simp
  then show ?thesis
    using number_of_text [of "show_nat (unat n)" "unat n"] strtoul_decimal [of "unat n"]
    by (simp add: cstr_id [OF show_nat_no_NUL])
qed

text \<open>
  C28. A number sent as a decimal text, which the framework itself converts neither to a number nor to JSON, is read back as itself, for every 32-bit number; and the reader takes more
  than that: the empty text is 0, and a minus sign followed by \<open>2^64 - n\<close> is \<open>n\<close>.
\<close>

theorem get_single_uint32_reads_decimals:
  "get_single_uint32 E [text_param (show_nat (unat n))] s = (Some n, s) \<and>
   get_single_uint32 E [text_param []] s = (Some 0, s) \<and>
   (n \<noteq> 0 \<longrightarrow> get_single_uint32 E [text_param (CHR ''-'' # show_nat (2 ^ 64 - unat n))] s = (Some n, s))"
proof (intro conjI impI)
  show "get_single_uint32 E [text_param (show_nat (unat n))] s = (Some n, s)" by (rule number_text)
  have b: "unat n < 2 ^ 32" using unsigned_less [of n] by simp
  show "get_single_uint32 E [text_param []] s = (Some 0, s)"
    using number_of_text [of "[]" 0] by (simp add: strtoul_def)
  assume "n \<noteq> 0"
  then have p: "0 < unat n" by (simp add: unat_gt_0)
  have "cstr (CHR ''-'' # show_nat m) = CHR ''-'' # show_nat m" for m
    using show_nat_no_NUL [of m] by (intro cstr_id) auto
  moreover have "2 ^ 64 - (2 ^ 64 - unat n) = unat n" using b by simp
  moreover have "strtoul (CHR ''-'' # show_nat (2 ^ 64 - unat n)) = (2 ^ 64 - (2 ^ 64 - unat n), [])"
    using p b by (intro strtoul_minus) simp_all
  ultimately show "get_single_uint32 E [text_param (CHR ''-'' # show_nat (2 ^ 64 - unat n))] s = (Some n, s)"
    using number_of_text [of "CHR ''-'' # show_nat (2 ^ 64 - unat n)" "unat n"] b by simp
qed

theorem get_single_uint32_reads_decimals_witness:
  "get_single_uint32 calm_env [text_param (CHR ''-'' # show_nat (2 ^ 64 - unat (11 :: 32 word)))] idle_service =
     (Some 11, idle_service)"
  using get_single_uint32_reads_decimals [of calm_env 11 idle_service] by simp


section \<open>What one request writes and another reads\<close>

lemma json_reply_calm:
  "calm E \<Longrightarrow> 0 < length str \<Longrightarrow> length str < n \<Longrightarrow>
     reply_json E n str s = s\<lparr>calls := calls s @ [Create_data str, Reply Success (Some str)]\<rparr>"
  by (simp add: reply_json_def calm_ask afb_req_reply_def)

lemma show_nat_length: "n < 10 ^ k \<Longrightarrow> 0 < k \<Longrightarrow> length (show_nat n) \<le> k"
proof (induction k arbitrary: n)
  case (Suc k)
  show ?case
  proof (cases "n < 10")
    case True
    then show ?thesis by (subst show_nat.simps) simp
  next
    case False
    with Suc.prems have "n div 10 < 10 ^ k" "0 < k" by (auto intro: gr0I)
    with Suc.IH False show ?thesis by (subst show_nat.simps) simp
  qed
qed simp

definition uint32_reply :: "string \<Rightarrow> 32 word \<Rightarrow> string" where
  "uint32_reply key val = ''{'' @ QUOTE @ key @ QUOTE @ '':'' @ show_nat (unat val) @ ''}''"

lemma calm_uint32_reply:
  assumes "calm E" "length key \<le> 84"
  shows "reply_single_key_uint32 E key val s =
    s\<lparr>calls := calls s @ [Create_data (uint32_reply key val), Reply Success (Some (uint32_reply key val))]\<rparr>"
proof -
  have "unat val < 2 ^ 32" using unsigned_less [of val] by simp
  also have "(2 :: nat) ^ 32 \<le> 10 ^ 10" by simp
  finally have "unat val < 10 ^ 10" .
  then have "length (show_nat (unat val)) \<le> 10" by (rule show_nat_length) simp
  with assms show ?thesis
    unfolding reply_single_key_uint32_def uint32_reply_def by (intro json_reply_calm) simp_all
qed

text \<open>
  What \<open>setIeeeStandard\<close> accepts, \<open>getIeeeStandard\<close> gives back: when the framework works, a request with the
  decimal text of a valid mask is answered with success, and the next \<open>getIeeeStandard\<close> replies the JSON object with exactly that
  number; an invalid mask is refused with its own error code and the old mask stays.
\<close>

lemma IeeeStandard_reads_back:
  assumes "calm E" "binding_ok s"
  shows "\<exists>s1 s2. request E ''setIeeeStandard'' [text_param (show_nat (unat m))] s = Inr s1 \<and>
    request E ''getIeeeStandard'' [] s1 = Inr s2 \<and>
    replies (calls s2) = replies (calls s) @
      [(if mask_ok m then Success else AFB_USER_ERRNO (- mask_check m), None),
       (Success, Some (uint32_reply ''stdMask'' (if mask_ok m then m else IeeeStdMask (wifi s))))]"
proof -
  have "buffers_ok (wifi s)" using assms(2) by (simp add: binding_ok_def params_ok_def)
  then obtain w where w: "setIeeeStandardParameter (wifi s) m = Inr (mask_check m, w)"
    "IeeeStdMask w = (if mask_check m = 0 then m else IeeeStdMask (wifi s))"
    using ieee.result by blast
  define t where "t = afb_req_reply E (if mask_check m = 0 then Success else AFB_USER_ERRNO (- mask_check m)) None (s\<lparr>wifi := w\<rparr>)"
  have t: "request E ''setIeeeStandard'' [text_param (show_nat (unat m))] s = Inr t"
    by (simp add: request_def verbs_def setIeeeStandard_def number_text on_wifi_def w(1) t_def)
  have "wifi t = w" "replies (calls t) = replies (calls s) @ [(if mask_check m = 0 then Success else AFB_USER_ERRNO (- mask_check m), None)]"
    by (simp_all add: t_def afb_req_reply_def)
  moreover have "request E ''getIeeeStandard'' [] t = Inr (t\<lparr>calls := calls t @
      [Create_data (uint32_reply ''stdMask'' (IeeeStdMask (wifi t))), Reply Success (Some (uint32_reply ''stdMask'' (IeeeStdMask (wifi t))))]\<rparr>)"
    by (simp add: request_def verbs_def getIeeeStandard_def calm_uint32_reply [OF assms(1)])
  ultimately show ?thesis using t w(2) mask_check_0 [of m] by auto
qed


lemma ready_binding: "binding_ok ready_service"
proof -
  have "names_ok ready_service"
    by (auto simp: names_ok_def owned_by_def heap_ok_def name_ptrs_def ready_service_def split: if_splits)
  moreover have "params_ok (wifi ready_service)" using ready_ok(2) by (simp add: startable_def)
  ultimately show ?thesis by (simp add: binding_ok_def)
qed

lemma IeeeStandard_reads_back_example:
  "\<exists>s1 s2. request calm_env ''setIeeeStandard'' [text_param (show_nat (unat (0x14 :: 32 word)))] ready_service = Inr s1 \<and>
    request calm_env ''getIeeeStandard'' [] s1 = Inr s2 \<and>
    replies (calls s2) = [(Success, None), (Success, Some (''{'' @ QUOTE @ ''stdMask'' @ QUOTE @ '':20}''))]"
proof -
  have m: "mask_ok 0x14" by code_simp
  have r: "replies (calls ready_service) = []" by (simp add: ready_service_def idle_service_def)
  have t: "uint32_reply ''stdMask'' 0x14 = ''{'' @ QUOTE @ ''stdMask'' @ QUOTE @ '':20}''"
    by (simp add: uint32_reply_def) code_simp
  from IeeeStandard_reads_back [OF calm_calm_env ready_binding, of "0x14"] show ?thesis
    by (simp only: m r t if_True append_Nil)
qed

theorem safe_verbs_always_reply_witness:
  "(\<exists>s'. request calm_env ''setCountryCode'' [] ready_service = Inr s' \<and> binding_ok s' \<and> replied ready_service s') \<and>
   (\<exists>s'. request calm_env ''setPreSharedKey'' [text_param ''secret''] ready_service = Inr s' \<and> replied ready_service s') \<and>
   (\<exists>e. request calm_env ''setPreSharedKey'' [text_param [CHR ''a'', CHR 0xC3]] ready_service = Inl e)"
proof -
  have o: "\<not> overreads (cstr ''secret'') 65" "strlen ''secret'' \<le> 64" "overreads (cstr [CHR ''a'', CHR 0xC3]) 65"
    "strlen [CHR ''a'', CHR 0xC3] \<le> 64" by code_simp+
  have v: "name \<in> set (map fst (verbs calm_env ps :: (string \<times> (service \<Rightarrow> fault + service)) list))"
    if "name \<in> {''setCountryCode'', ''setPreSharedKey''}" for name ps
    using that by (auto simp: verbs_def)
  have g: "request_sound calm_env ''setCountryCode'' [] ready_service"
    "request_sound calm_env ''setPreSharedKey'' [text_param ''secret''] ready_service"
    "\<not> request_sound calm_env ''setPreSharedKey'' [text_param [CHR ''a'', CHR 0xC3]] ready_service"
    using o by (simp_all add: request_sound_def get_single_string_def text_param_def key_read_def del: cstr_Cons cstr_id)
  from safe_verbs_always_reply [OF ready_binding v, of "''setCountryCode''" "[]"] g(1)
    safe_verbs_always_reply [OF ready_binding v, of "''setPreSharedKey''" "[text_param ''secret'']"] g(2)
    safe_verbs_always_reply [OF ready_binding v, of "''setPreSharedKey''" "[text_param [CHR ''a'', CHR 0xC3]]"] g(3)
  show ?thesis by force
qed

lemma requests_keep_the_binding_example:
  "\<exists>s'. requests [(calm_env, ''setCountryCode'', [])] ready_service = Inr s' \<and> binding_ok s'"
proof -
  have "\<exists>s'. requests [(calm_env, ''setCountryCode'', [])] ready_service = Inr s'"
    by (simp add: requests_def ask_verb_def request_def verbs_def setCountryCode_def single_string_set_def
        get_single_string_def)
  with requests_keep_the_binding [OF ready_binding] show ?thesis by blast
qed

section \<open>From a request to the access point\<close>

lemma startable_params:
  assumes "startable s" "params_ok (wifi s1)" "blocks s1 = blocks s"
    and "interfaceName (wifi s1) = interfaceName (wifi s)" "hostName (wifi s1) = hostName (wifi s)"
    "domainName (wifi s1) = domainName (wifi s)"
    and "ip_ap (wifi s1) = ip_ap (wifi s)" "ip_start (wifi s1) = ip_start (wifi s)"
    "ip_stop (wifi s1) = ip_stop (wifi s)" "ip_netmask (wifi s1) = ip_netmask (wifi s)"
    and "stored_range (wifi s1) = stored_range (wifi s)" "channelNumber (wifi s1) = channelNumber (wifi s)"
  shows "startable s1"
proof -
  have d: "deref p s1 = deref p s" for p by (rule deref_cong [OF assms(3)])
  show ?thesis using assms by (simp add: startable_def names_set_def addresses_ok_def iface_def d)
qed

lemma threads_ok_reply [simp]: "threads_ok (afb_req_reply E st p s) = threads_ok s"
  by (simp add: afb_req_reply_def)

lemma threads_ok_wifi [simp]: "threads_ok (s\<lparr>wifi := w\<rparr>) = threads_ok s"
  by (simp add: threads_ok_def)

lemma replies_reply [simp]: "replies (calls (afb_req_reply E st p s)) = replies (calls s) @ [(st, p)]"
  by (simp add: afb_req_reply_def)

text \<open>
  An SSID a client sets is the SSID the access point is started with: on a state that can be started, a
  request \<open>setSsid\<close> with a text of 1 to 32 bytes and no line feed is answered with success, the \<open>start\<close> that
  follows too when every call succeeds and the platform commands do to the files what \<open>wifi_setup.sh\<close> does, and a reader of the generated hostapd.conf finds exactly that text under \<open>ssid\<close>.
\<close>

lemma ssid_reaches_hostapd:
  assumes "calm E" "threads_ok s" "startable s" "status (wifi s) \<noteq> Status_started" "one_line (wifi s)" "iface s = Inr i" "obedient E i"
    and "1 \<le> strlen str" "strlen str \<le> 32" "NL \<notin> set (cstr str)"
  shows "\<exists>s1 s2 conf. request E ''setSsid'' [text_param str] s = Inr s1 \<and> request E ''start'' [] s1 = Inr s2 \<and>
    replies (calls s2) = replies (calls s) @ [(Success, None), (Success, None)] \<and>
    files s2 WIFI_HOSTAPD_FILE = Some conf \<and> setting conf ''ssid'' = Some (cstr str)"
proof -
  have ok: "params_ok (wifi s)" using assms(3) by (simp add: startable_def)
  then have "buffer_ok 33 (ssid (wifi s))" by (simp add: params_ok_def buffers_ok_def)
  with set_buffer_accept [of 1 32 "Some str" "ssid (wifi s)"] assms(8,9) obtain b where
    b: "set_buffer (ssid (wifi s)) (Some str) 1 32 = Inr (0, b)" "cstr b = cstr str" "buffer_ok 33 b"
    by (auto simp: length_check_0)
  define w where "w = (wifi s)\<lparr>ssid := b\<rparr>"
  define s1 where "s1 = afb_req_reply E Success None (s\<lparr>wifi := w\<rparr>)"
  have set: "setSsidParameter (wifi s) (Some str) = Inr (0, w)"
    by (simp only: setSsidParameter_def b(1) bindE_simps prod.case w_def)
  have run1: "request E ''setSsid'' [text_param str] s = Inr s1"
    by (simp add: request_def verbs_def setSsid_def single_string_set_def get_single_string_def text_param_def
        on_wifi_def set s1_def)
  have ok1: "params_ok w" unfolding w_def
    using params_ok_update(1) [OF ok b(3)] b(2) assms(8) by (simp add: strlen_def)
  then have "startable s1"
    by (intro startable_params [OF assms(3)]) (simp_all add: s1_def w_def stored_range_def)
  moreover have "threads_ok s1" "status (wifi s1) \<noteq> Status_started" using assms(2,4) by (simp_all add: s1_def w_def)
  moreover have i1: "iface s1 = iface s" by (simp add: iface_def s1_def w_def) (rule deref_cong, simp)
  ultimately obtain s2 where s2: "start E s1 = Inr s2" "replies (calls s2) = replies (calls s1) @ [(Success, None)]"
    "files s2 WIFI_HOSTAPD_FILE = Some (hostapd_conf (wifi s1))"
    using calm_start [OF assms(1), of s1] assms(6,7) by (auto simp: i1)
  have "one_line w" using assms(5,10) b(2) by (simp add: one_line_def w_def)
  then have "setting (hostapd_conf w) ''ssid'' = Some (cstr str)" by (simp add: setting_ssid w_def b(2))
  with run1 s2 show ?thesis by (simp add: request_def verbs_def s1_def)
qed

lemma ssid_reaches_hostapd_example:
  "\<exists>s1 s2 conf. request script_env ''setSsid'' [text_param ''cafe''] ready_service = Inr s1 \<and>
    request script_env ''start'' [] s1 = Inr s2 \<and>
    files s2 WIFI_HOSTAPD_FILE = Some conf \<and> setting conf ''ssid'' = Some ''cafe''"
proof -
  have "status (wifi ready_service) \<noteq> Status_started" "one_line (wifi ready_service)"
    by (simp_all add: ready_service_def sample_ap_def zero_wifi_def one_line_def cstr_append_no_NUL cstr_def)
  moreover have "1 \<le> strlen ''cafe''" "strlen ''cafe'' \<le> 32" "NL \<notin> set (cstr ''cafe'')" "cstr ''cafe'' = ''cafe''"
    by (simp_all add: strlen_def)
  ultimately show ?thesis
    using ssid_reaches_hostapd [OF script_env(1) ready_ok(1,2) _ _ ready_names(1) script_env(2), of "''cafe''"] by metis
qed

text \<open>
  C37. A new standard is not checked against the channel. On a state that can be started and is not, with every call successful,
  \<open>setIeeeStandard\<close> with the decimal text of any valid mask (a text, which the framework does not convert to a number or to JSON) is
  answered with success, and so is the \<open>start\<close> that follows: the status is started with the old channel, also where the
  documentation does not have that channel for the new standard; and when the platform commands do to the files what
  \<open>wifi_setup.sh\<close> does, hostapd.conf is the text of the new standard with the old channel.
\<close>

theorem standard_keeps_stale_channel:
  assumes "calm E" "threads_ok s" "startable s" "status (wifi s) \<noteq> Status_started" "mask_ok m" "iface s = Inr i"
  shows "\<exists>s1 s2. request E ''setIeeeStandard'' [text_param (show_nat (unat m))] s = Inr s1 \<and>
    request E ''start'' [] s1 = Inr s2 \<and> status (wifi s2) = Status_started \<and>
    replies (calls s2) = replies (calls s) @ [(Success, None), (Success, None)] \<and>
    IeeeStdMask (wifi s2) = m \<and> channelNumber (wifi s2) = channelNumber (wifi s) \<and>
    (obedient E i \<longrightarrow> files s2 WIFI_HOSTAPD_FILE = Some (hostapd_conf ((wifi s)\<lparr>IeeeStdMask := m\<rparr>)))"
proof -
  define s1 where "s1 = afb_req_reply E Success None (s\<lparr>wifi := (wifi s)\<lparr>IeeeStdMask := m\<rparr>\<rparr>)"
  have run1: "request E ''setIeeeStandard'' [text_param (show_nat (unat m))] s = Inr s1"
    using assms(5) by (simp add: request_def verbs_def setIeeeStandard_def number_text on_wifi_def
        setIeeeStandardParameter_eq mask_check_0 [THEN iffD2] s1_def)
  have "params_ok (wifi s)" using assms(3) by (simp add: startable_def)
  then have "startable s1"
    using assms(5) by (intro startable_params [OF assms(3)]) (simp_all add: s1_def params_ok_update stored_range_def)
  moreover have "threads_ok s1" "status (wifi s1) \<noteq> Status_started" using assms(2,4) by (simp_all add: s1_def)
  moreover have i1: "iface s1 = iface s" by (simp add: iface_def s1_def) (rule deref_cong, simp)
  ultimately obtain s2 where s2: "start E s1 = Inr s2" "replies (calls s2) = replies (calls s1) @ [(Success, None)]"
    "status (wifi s2) = Status_started" "obedient E i \<longrightarrow> files s2 WIFI_HOSTAPD_FILE = Some (hostapd_conf (wifi s1))"
    using calm_start [OF assms(1), of s1] assms(6) by (auto simp: i1)
  from kept_start [OF s2(1)] have "IeeeStdMask (wifi s2) = m" "channelNumber (wifi s2) = channelNumber (wifi s)"
    by (auto simp: kept_def s1_def)
  with run1 s2 show ?thesis by (simp add: request_def verbs_def s1_def)
qed

text \<open>A state ready to start on channel 100 of 802.11a.\<close>

definition ready_5GHz :: service where
  "ready_5GHz = ready_service\<lparr>wifi := (wifi ready_service)\<lparr>IeeeStdMask := 1, channelNumber := 100,
     MIN_CHANNEL_VALUE := 7, MAX_CHANNEL_VALUE := 196\<rparr>\<rparr>"

theorem standard_keeps_stale_channel_witness:
  "\<exists>s1 s2. request script_env ''setIeeeStandard'' [text_param (show_nat (unat (4 :: 32 word)))] ready_5GHz = Inr s1 \<and>
    request script_env ''start'' [] s1 = Inr s2 \<and> status (wifi s2) = Status_started \<and>
    \<not> in_range (doc_range 4) (unat (channelNumber (wifi s2)))"
proof -
  have st: "startable ready_service" by (rule ready_ok)
  have m: "mask_ok 1" "mask_ok 4" by code_simp+
  have "channel_ok (wifi ready_5GHz)" by (simp add: channel_ok_def ready_5GHz_def stored_range_def)
  with m st have "params_ok (wifi ready_5GHz)"
    by (simp add: startable_def params_ok_def buffers_ok_def ready_5GHz_def)
  with st have s: "startable ready_5GHz"
    by (simp add: startable_def names_set_def iface_def ready_5GHz_def addresses_ok_def in_range_def stored_range_def)
  have t: "threads_ok ready_5GHz" "status (wifi ready_5GHz) \<noteq> Status_started"
    using ready_ok(1) by (simp_all add: ready_5GHz_def ready_service_def sample_ap_def zero_wifi_def)
  have i: "iface ready_5GHz = Inr ''wlan0''" using ready_names(1) by (simp add: iface_def ready_5GHz_def)
  have c: "\<not> in_range (doc_range 4) (unat (channelNumber (wifi ready_5GHz)))"
    by (simp add: ready_5GHz_def in_range_def doc_range_def)
  from standard_keeps_stale_channel [OF script_env(1) t(1) s t(2) m(2) i] c show ?thesis by metis
qed


section \<open>Queries\<close>

definition string_reply :: "string \<Rightarrow> string \<Rightarrow> string" where
  "string_reply key val = ''{'' @ QUOTE @ key @ QUOTE @ '':'' @ QUOTE @ val @ QUOTE @ ''}''"

lemma calm_status:
  "calm E \<Longrightarrow> \<exists>s'. getWifiApStatus E s = Inr s' \<and>
     replies (calls s') = replies (calls s) @ [(Success, Some (string_reply ''status'' (status_text (status (wifi s)))))]"
  by (cases "status (wifi s)")
    (simp_all add: getWifiApStatus_def reply_single_key_string_def string_reply_def [symmetric] json_reply_calm,
     simp_all add: json_reply_calm string_reply_def)

definition stop_ended :: "env \<Rightarrow> 'a service_scheme \<Rightarrow> bool" where
  "stop_ended E s' \<longleftrightarrow> (\<exists>t. s' = afb_req_reply E Success None (set_status Status_stopped t)) \<or>
     (\<exists>t c. s' = afb_req_reply E (AFB_USER_ERRNO c) None (set_status Status_fail t))"

lemma stop_outcome:
  assumes "stop E s = Inr s'"
  shows "stop_ended E s'"
proof -
  have ends: "stop_failed E c t = Inr s' \<Longrightarrow> stop_ended E s'" "stop_done E t = Inr s' \<Longrightarrow> stop_ended E s'" for c t
    by (auto simp: stop_failed_def stop_done_def stop_ended_def)
  obtain i where i: "iface s = Inr i" using assms by (auto simp: stop_def)
  obtain st s1 where s1: "system E (script_cmd E COMMAND_WIFIAP_HOSTAPD_STOP i) s = (st, s1)" by fastforce
  obtain st' s2 where s2: "system E (script_cmd E COMMAND_WIFI_HW_STOP i) s1 = (st', s2)" by fastforce
  from assms i s1 s2 show ?thesis
    by (auto simp: stop_def split: if_splits option.splits intro: ends)
qed

text \<open>
  C22. The status a client asks for agrees with the last reply: after a \<open>start\<close> that replied success
  it is \<open>started\<close>, after a \<open>stop\<close> that replied success it is \<open>stopped\<close>, and after either of them replied an
  error it is \<open>failure\<close>, whatever the environment answered in between.
\<close>

theorem status_follows_the_replies:
  assumes "threads_ok s" "calm F"
  shows "(start E s = Inr s1 \<longrightarrow> (\<exists>st p s2. replies (calls s1) = replies (calls s) @ [(st, p)] \<and> getWifiApStatus F s1 = Inr s2 \<and>
      replies (calls s2) = replies (calls s1) @
        [(Success, Some (string_reply ''status'' (if st = Success then ''started'' else ''failure'')))])) \<and>
    (stop E s = Inr s1 \<longrightarrow> (\<exists>st p s2. replies (calls s1) = replies (calls s) @ [(st, p)] \<and> getWifiApStatus F s1 = Inr s2 \<and>
      replies (calls s2) = replies (calls s1) @
        [(Success, Some (string_reply ''status'' (if st = Success then ''stopped'' else ''failure'')))]))"
proof -
  have ask: "\<exists>s2. getWifiApStatus F s1 = Inr s2 \<and> replies (calls s2) = replies (calls s1) @ [(Success, Some (string_reply ''status'' str))]"
    if "status_text (status (wifi s1)) = str" for str
    using calm_status [OF assms(2), of s1] that by auto
  have start: "\<exists>st p. replies (calls s1) = replies (calls s) @ [(st, p)] \<and>
      status (wifi s1) = (if st = Success then Status_started else Status_fail)" if run: "start E s = Inr s1"
  proof (cases "status (wifi s) = Status_started")
    case True
    with run show ?thesis by (auto simp: start_def)
  next
    case False
    then obtain r t where t: "startAp E s = Inr (r, t)"
      "s1 = (if r = 0 then afb_req_reply E Success None t else afb_req_reply E (AFB_USER_ERRNO (- r)) (Some (start_error_text r)) t)"
      using run by (auto simp: start_def split: if_splits)
    from silent_startAp [OF t(1) silent_refl] startAp_outcome [OF assms(1) t(1)] t(2) show ?thesis
      by (auto simp: silent_def start_succeeded_def start_failed_def)
  qed
  have stop: "\<exists>st p. replies (calls s1) = replies (calls s) @ [(st, p)] \<and>
      status (wifi s1) = (if st = Success then Status_stopped else Status_fail)" if run: "stop E s = Inr s1"
    using stop_replied [OF run] stop_outcome [OF run] by (auto simp: replied_def stop_ended_def)
  show ?thesis
    using start stop ask [of "''started''"] ask [of "''stopped''"] ask [of "''failure''"]
    by (auto split: if_splits) blast+
qed

theorem status_follows_the_replies_witness:
  "\<exists>s1 s2 st p. start calm_env ready_service = Inr s1 \<and> replies (calls s1) = [(st, p)] \<and> getWifiApStatus calm_env s1 = Inr s2 \<and>
     (Success, Some (string_reply ''status'' (if st = Success then ''started'' else ''failure''))) \<in> set (replies (calls s2))"
proof -
  have "status (wifi ready_service) \<noteq> Status_started"
    by (simp add: ready_service_def sample_ap_def zero_wifi_def)
  from calm_start [OF ready_ok(3,1,2) this] obtain s1 where s1: "start calm_env ready_service = Inr s1" by blast
  have "replies (calls ready_service) = []" by (simp add: ready_service_def idle_service_def)
  with status_follows_the_replies [OF ready_ok(1) calm_calm_env, of calm_env s1] s1 show ?thesis by fastforce
qed

lemma count_stations_lines:
  "count_stations stream n = n + length (filter (\<lambda>l. strstr (cstr l) ''Station '') (stream_lines stream))"
proof (induction stream n rule: count_stations.induct)
  case (1 stream n)
  show ?case
  proof (cases "fgets (PATH_MAX - 1) stream")
    case None
    then show ?thesis by (subst count_stations.simps, subst stream_lines.simps) simp
  next
    case (Some v)
    obtain l rest where v: "v = (l, rest)" by fastforce
    from Some v 1 [OF Some v [symmetric]] show ?thesis
      by (subst count_stations.simps, subst stream_lines.simps) simp
  qed
qed

text \<open>
  \<open>getAPclientsNumber\<close> replies with the number of lines of the output of \<open>iw dev <interface> station dump\<close>
  that contain \<open>Station\<close> and a space, modulo \<open>2^32\<close>; it makes no other call, so the pipe it opened is never closed.
\<close>

lemma getAPnumberClients_counts_lines:
  assumes "calm E" "iface s = Inr i"
  shows "let cmd = take (PATH_MAX - 1) (''iw dev '' @ i @ '' station dump'');
      n = length (filter (\<lambda>l. strstr (cstr l) ''Station '') (stream_lines (stdout_of E (calls s) cmd)));
      text = uint32_reply ''clients-number'' (word_of_nat n)
    in \<exists>s'. request E ''getAPclientsNumber'' ps s = Inr s' \<and>
         calls s' = calls s @ [Popen cmd, Create_data text, Reply Success (Some text)]"
  unfolding Let_def
  by (simp add: request_def verbs_def getAPnumberClients_def assms(2) Let_def popen_def calm_ask [OF assms(1)]
      calm_uint32_reply [OF assms(1)] count_stations_lines)

definition dump_env :: env where
  "dump_env = calm_env\<lparr>stdout_of := \<lambda>_ _. concat (map (\<lambda>l. l @ [NL])
     [''Station 02:00:00:00:01:00 (on wlan0)'', ''signal: -30 dBm'', ''Station 02:00:00:00:02:00 (on wlan0)''])\<rparr>"

lemma getAPnumberClients_counts_lines_example:
  "\<exists>s'. request dump_env ''getAPclientsNumber'' [] ready_service = Inr s' \<and>
     last (calls s') = Reply Success (Some (uint32_reply ''clients-number'' 2))"
proof -
  let ?ls = "[''Station 02:00:00:00:01:00 (on wlan0)'', ''signal: -30 dBm'', ''Station 02:00:00:00:02:00 (on wlan0)'']"
  have c: "calm dump_env" by (simp add: calm_def dump_env_def calm_env_def)
  have i: "iface ready_service = Inr ''wlan0''" by (simp add: iface_def deref_def ready_service_def)
  have "stdout_of dump_env h q = concat (map (\<lambda>l. l @ [NL]) ?ls)" for h q by (simp add: dump_env_def)
  moreover have "stream_lines (concat (map (\<lambda>l. l @ [NL]) ?ls)) = map (\<lambda>l. l @ [NL]) ?ls"
    by (rule stream_lines_short) (simp add: PATH_MAX_def)
  ultimately have l: "stream_lines (stdout_of dump_env h q) = map (\<lambda>l. l @ [NL]) ?ls" for h q by simp
  have n: "length (filter (\<lambda>l. strstr (cstr l) ''Station '') (map (\<lambda>l. l @ [NL]) ?ls)) = 2" by code_simp
  from getAPnumberClients_counts_lines [OF c i, of "[]"] show ?thesis unfolding Let_def l n by fastforce
qed

section \<open>Null\<close>

definition null_param :: param where
  "null_param = \<lparr>data_type = JSON, data_text = ''null'', data_byte = False, to_u32 = None, to_json = Some JNull\<rparr>"

text \<open>
  A JSON null is refused by the text setters with an internal error, and nothing changes; only \<open>setPreSharedKey\<close>
  passes the NULL pointer to \<open>strlen\<close>.
\<close>

lemma null_text_parameter:
  "(name \<in> set [''setSsid'', ''setPassPhrase'', ''setCountryCode'', ''setSecurityProtocol'', ''setHostName'',
       ''setDomainName'', ''setInterfaceName''] \<longrightarrow>
      request E name [null_param] s = Inr (afb_req_reply E AFB_ERRNO_INTERNAL_ERROR None s)) \<and>
   request E ''setPreSharedKey'' [null_param] s = Inl Null_deref"
proof -
  have g: "get_single_string E [null_param] s = (Some None, s)"
    by (simp add: get_single_string_def null_param_def json_object_get_string_def)
  have r: "single_string_set E f [null_param] s = Inr (afb_req_reply E AFB_ERRNO_INTERNAL_ERROR None s)"
    if "f None s = Inr (- 1, s)" for f
    using that by (simp add: single_string_set_def g)
  have "list_all (\<lambda>name. request E name [null_param] s = Inr (afb_req_reply E AFB_ERRNO_INTERNAL_ERROR None s))
     [''setSsid'', ''setPassPhrase'', ''setCountryCode'', ''setSecurityProtocol'', ''setHostName'',
       ''setDomainName'', ''setInterfaceName'']"
    unfolding request_def verbs_def list.pred_inject
    by (intro conjI TrueI; simp add: setSsid_def setPassPhrase_def setCountryCode_def setSecurityProtocol_def setHostName_def
        setDomainName_def setInterfaceName_def; rule r; simp add: on_wifi_def buffer_setter_defs set_buffer_def
        setSecurityProtocolParameter_def setHostNameParameter_def setDomainNameParameter_def
        setInterfaceNameParameter_def set_string_copy_def)
  moreover have "request E ''setPreSharedKey'' [null_param] s = Inl Null_deref"
    by (simp add: request_def verbs_def SetPreSharedKey_def single_string_set_def g on_wifi_def setPreSharedKeyParameter_def)
  ultimately show ?thesis unfolding list_all_iff by blast
qed

lemma null_text_parameter_example:
  "request calm_env ''setHostName'' [null_param] ready_service =
     Inr (afb_req_reply calm_env AFB_ERRNO_INTERNAL_ERROR None ready_service)"
  using null_text_parameter [of "''setHostName''" calm_env ready_service] by simp

section \<open>The verbs of the documentation\<close>

text \<open>
  The verbs that \<open>src/src/info.json\<close> lists, which is what the verb \<open>info\<close> replies with. They are all in the table, and the table
  has two more.
\<close>

definition documented_verbs :: "string list" where
  "documented_verbs =
     [''info'', ''start'', ''stop'', ''setSsid'', ''setInterfaceName'', ''setHostName'', ''setDomainName'', ''setPassPhrase'',
      ''setDiscoverable'', ''setIeeeStandard'', ''setChannel'', ''getIeeeStandard'', ''setSecurityProtocol'',
      ''setPreSharedKey'', ''setIpRange'', ''setCountryCode'', ''subscribe'', ''unsubscribe'', ''SetMaxNumberClients'',
      ''getAPclientsNumber'']"

lemma undocumented_verbs:
  "set documented_verbs \<subseteq> set (map fst (verbs E ps)) \<and>
   filter (\<lambda>v. v \<notin> set documented_verbs) (map fst (verbs E ps)) = [''restart'', ''getWifiApStatus'']"
  by (simp add: verbs_def documented_verbs_def)

end
