(* ===== verification/Init.thy ===== *)
theory Init
  imports Requests
begin

text \<open>
  The initialisation of the binding (\<open>createWifiApData\<close> and \<open>binding_ctl\<close> of \<open>src/wifiAp.c\<close>): the
  structure filled from the JSON configuration through the table of setters, its release when a value is
  missing or refused, and the control function called by the framework.
\<close>

section \<open>JSON values\<close>

text \<open>The functions of json-c that the initialisation uses, by their documentation.\<close>

definition json_object_object_get_ex :: "json \<Rightarrow> string \<Rightarrow> json option" where
  "json_object_object_get_ex j key = (case j of JObject kvs \<Rightarrow> map_of kvs key | _ \<Rightarrow> None)"

text \<open>Numbers outside the 64-bit range are given as the nearest end of it.\<close>

definition json_object_get_int64 :: "int \<Rightarrow> int" where
  "json_object_get_int64 i = max (- (2 ^ 63)) (min i (2 ^ 63 - 1))"

section \<open>The structure from a configuration\<close>

text \<open>The union of \<open>descs\<close>: a setter for a string, an unsigned number or a boolean.\<close>

datatype 's setter =
    Set_s "string option \<Rightarrow> 's \<Rightarrow> fault + (int \<times> 's)"
  | Set_u "32 word \<Rightarrow> 's \<Rightarrow> fault + (int \<times> 's)"
  | Set_b "bool \<Rightarrow> 's \<Rightarrow> fault + (int \<times> 's)"

text \<open>The table: key, whether it is mandatory, and setter. The key \<open>preSharedKey\<close> has the setter of the passphrase.\<close>

definition descs :: "env \<Rightarrow> (string \<times> bool \<times> 'a ap_scheme setter) list" where
  "descs E =
     [(''interfaceName'', True, Set_s (setInterfaceNameParameter E)),
      (''domaine_name'', True, Set_s (setDomainNameParameter E)),
      (''hostname'', True, Set_s (setHostNameParameter E)),
      (''ssid'', True, Set_s (on_wifi setSsidParameter)),
      (''passphrase'', True, Set_s (on_wifi setPassPhraseParameter)),
      (''preSharedKey'', False, Set_s (on_wifi setPassPhraseParameter)),
      (''countryCode'', True, Set_s (on_wifi setCountryCodeParameter)),
      (''securityProtocol'', True, Set_s (on_wifi setSecurityProtocolParameter)),
      (''ip_ap'', True, Set_s (on_wifi setIpApParameter)),
      (''ip_start'', True, Set_s (on_wifi setIpStartParameter)),
      (''ip_stop'', True, Set_s (on_wifi setIpStopParameter)),
      (''ip_netmask'', True, Set_s (on_wifi setIpNetMaskParameter)),
      (''discoverable'', True, Set_b (on_wifi setDiscoverableParameter)),
      (''maxNumberClient'', True, Set_u (on_wifi setMaxNumberClients)),
      (''IeeeStdMask'', True, Set_u (on_wifi setIeeeStandardParameter)),
      (''channelNumber'', True, Set_u (on_wifi setChannelParameter))]"

text \<open>
  Setting one value: None when its type is not the one expected, otherwise what the setter returns. A number
  outside the unsigned 32-bit range does not reach the setter.
\<close>

definition set_value :: "'s setter \<Rightarrow> json \<Rightarrow> 's \<Rightarrow> fault + (int option \<times> 's)" where
  "set_value f val s =
     (case f of
        Set_s set_s \<Rightarrow>
          (case val of
             JString str \<Rightarrow> bindE (set_s (Some str) s) (\<lambda>(sts, s'). Inr (Some sts, s'))
           | _ \<Rightarrow> Inr (None, s))
      | Set_b set_b \<Rightarrow>
          (case val of
             JBool b \<Rightarrow> bindE (set_b b s) (\<lambda>(sts, s'). Inr (Some sts, s'))
           | _ \<Rightarrow> Inr (None, s))
      | Set_u set_u \<Rightarrow>
          (case val of
             JInt i \<Rightarrow>
               (let x = json_object_get_int64 i in
                if x < 0 then Inr (Some WIFIAP_ERROR_TOO_SMALL, s)
                else if x > 2 ^ 32 - 1 then Inr (Some WIFIAP_ERROR_TOO_LARGE, s)
                else bindE (set_u (word_of_int x) s) (\<lambda>(sts, s'). Inr (Some sts, s')))
           | _ \<Rightarrow> Inr (None, s)))"

text \<open>The loop, with the number of errors.\<close>

fun set_all :: "json \<Rightarrow> (string \<times> bool \<times> 's setter) list \<Rightarrow> nat \<Rightarrow> 's \<Rightarrow> fault + (nat \<times> 's)" where
  "set_all obj [] err s = Inr (err, s)"
| "set_all obj ((key, mandatory, f) # ds) err s =
     (case json_object_object_get_ex obj key of
        None \<Rightarrow> set_all obj ds (if mandatory then err + 1 else err) s
      | Some val \<Rightarrow>
          bindE (set_value f val s) (\<lambda>(r, s'). set_all obj ds (if r = Some WIFIAP_NO_ERROR then err else err + 1) s'))"

text \<open>
  The structure of the state is the one allocated here. The result tells whether it is handed over; otherwise
  its names and itself have been freed.
\<close>

definition createWifiApData :: "env \<Rightarrow> json \<Rightarrow> 'a ap_scheme \<Rightarrow> fault + (bool \<times> 'a ap_scheme)" where
  "createWifiApData E obj s =
     (let (r, s1) = ask E Calloc s in
      if r \<noteq> 0 then Inr (False, s1)
      else
        bindE (set_all obj (descs E) 0 (s1\<lparr>wifi := zero_wifi\<rparr>)) (\<lambda>(err, s2).
          let (sts, s3) = (if err = 0 then ask E (New_event ''client-state'') s2 else (- 1, s2)) in
          if err = 0 \<and> sts \<ge> 0 then Inr (True, s3)
          else
            bindE (free_block (interfaceName (wifi s3)) s3) (\<lambda>s4.
            bindE (free_block (domainName (wifi s4)) s4) (\<lambda>s5.
            bindE (free_block (hostName (wifi s5)) s5) (\<lambda>s6. Inr (False, s6))))))"

section \<open>The control function\<close>

datatype afb_ctlid = afb_ctlid_Init | afb_ctlid_other

text \<open>\<open>root\<close> is what \<open>json_object_from_file\<close> reads from the configuration file, None when it fails.\<close>

definition startAtInit :: "json \<Rightarrow> bool" where
  "startAtInit config = (json_object_object_get_ex config ''startAtInit'' = Some (JBool True))"

definition binding_ctl :: "env \<Rightarrow> json option \<Rightarrow> afb_ctlid \<Rightarrow> 'a service_scheme \<Rightarrow> fault + (int \<times> 'a service_scheme)" where
  "binding_ctl E root ctlid s =
     (case ctlid of
        afb_ctlid_other \<Rightarrow> Inr (0, s)
      | afb_ctlid_Init \<Rightarrow>
          (case root of
             None \<Rightarrow> Inr (- 1, s)
           | Some r \<Rightarrow>
               (case json_object_object_get_ex r ''config'' of
                  None \<Rightarrow> Inr (- 1, s)
                | Some config \<Rightarrow>
                    bindE (createWifiApData E config s) (\<lambda>(created, s1).
                      if \<not> created then Inr (- 1, s1)
                      else if startAtInit config
                      then bindE (startAp E s1) (\<lambda>(sts, s2). Inr (if sts < 0 then - 1 else 0, s2))
                      else Inr (0, s1)))))"

section \<open>Every configuration is handled\<close>

text \<open>While the structure is being filled: the heap holds exactly its names and the buffers are terminated.\<close>

definition filling :: "'a ap_scheme \<Rightarrow> bool" where
  "filling s \<longleftrightarrow> names_ok s \<and> buffers_ok (wifi s)"

definition fills :: "('v \<Rightarrow> 'a ap_scheme \<Rightarrow> fault + (int \<times> 'a ap_scheme)) \<Rightarrow> bool" where
  "fills f \<longleftrightarrow> (\<forall>v s. filling s \<longrightarrow> (\<exists>r s'. f v s = Inr (r, s') \<and> filling s'))"

lemma on_wifi_fills:
  fixes f :: "wifiApT \<Rightarrow> 'v \<Rightarrow> fault + (int \<times> wifiApT)"
  assumes "keeps_names f" "\<And>w v. buffers_ok w \<Longrightarrow> \<exists>r w'. f w v = Inr (r, w') \<and> buffers_ok w'"
  shows "fills (on_wifi f :: 'v \<Rightarrow> 'a ap_scheme \<Rightarrow> _)"
  unfolding fills_def
proof (intro allI impI)
  fix v and s :: "'a ap_scheme"
  assume ok: "filling s"
  with assms(2) obtain r w where w: "f (wifi s) v = Inr (r, w)" "buffers_ok w" by (meson filling_def)
  have "names_ok (s\<lparr>wifi := w\<rparr>) = names_ok s"
    using assms(1) w(1) by (intro names_ok_fields) (auto simp: keeps_names_def)
  with ok w show "\<exists>r s'. on_wifi f v s = Inr (r, s') \<and> filling s'"
    by (auto simp: on_wifi_def filling_def)
qed

lemma buffers_ok_names:
  "buffers_ok (w\<lparr>interfaceName := p\<rparr>) = buffers_ok w" "buffers_ok (w\<lparr>domainName := p\<rparr>) = buffers_ok w"
  "buffers_ok (w\<lparr>hostName := p\<rparr>) = buffers_ok w"
  by (simp_all add: buffers_ok_def)

lemma name_setters_fill:
  "fills (setInterfaceNameParameter E)" "fills (setDomainNameParameter E)" "fills (setHostNameParameter E)"
  unfolding fills_def filling_def
  by (metis buffers_ok_names(1) setInterfaceName_result, metis buffers_ok_names(2) setDomainName_result,
      metis buffers_ok_names(3) setHostName_result)

lemma setters_fill:
  "fills (on_wifi setSsidParameter)" "fills (on_wifi setPassPhraseParameter)" "fills (on_wifi setCountryCodeParameter)"
  "fills (on_wifi setIpApParameter)" "fills (on_wifi setIpStartParameter)" "fills (on_wifi setIpStopParameter)"
  "fills (on_wifi setIpNetMaskParameter)" "fills (on_wifi setSecurityProtocolParameter)"
  "fills (on_wifi setDiscoverableParameter)" "fills (on_wifi setMaxNumberClients)"
  "fills (on_wifi setIeeeStandardParameter)" "fills (on_wifi setChannelParameter)"
proof -
  note f = on_wifi_fills [OF setters_keep_names(1)] on_wifi_fills [OF setters_keep_names(2)]
    on_wifi_fills [OF setters_keep_names(3)] on_wifi_fills [OF setters_keep_names(4)]
    on_wifi_fills [OF setters_keep_names(5)] on_wifi_fills [OF setters_keep_names(6)]
    on_wifi_fills [OF setters_keep_names(7)] on_wifi_fills [OF setters_keep_names(10)]
    on_wifi_fills [OF setters_keep_names(11)]
  show "fills (on_wifi setSsidParameter)" by (rule f(1)) (use ssid.result in blast)
  show "fills (on_wifi setPassPhraseParameter)" by (rule f(2)) (use pass.result in blast)
  show "fills (on_wifi setCountryCodeParameter)" by (rule f(3)) (use country.result in blast)
  show "fills (on_wifi setIpApParameter)" by (rule f(4)) (use ipap.result in blast)
  show "fills (on_wifi setIpStartParameter)" by (rule f(5)) (use ipstart.result in blast)
  show "fills (on_wifi setIpStopParameter)" by (rule f(6)) (use ipstop.result in blast)
  show "fills (on_wifi setIpNetMaskParameter)" by (rule f(7)) (use ipmask.result in blast)
  show "fills (on_wifi setMaxNumberClients)" by (rule f(8)) (use maxclients.result in blast)
  show "fills (on_wifi setIeeeStandardParameter)" by (rule f(9)) (use ieee.result in blast)
  show "fills (on_wifi setSecurityProtocolParameter)"
    by (rule on_wifi_fills [OF setters_keep_names(8)])
      (auto simp: setSecurityProtocolParameter_def buffers_ok_def split: option.split)
  show "fills (on_wifi setDiscoverableParameter)"
    by (rule on_wifi_fills [OF setters_keep_names(9)]) (auto simp: setDiscoverableParameter_def buffers_ok_def)
  show "fills (on_wifi setChannelParameter)"
    by (rule on_wifi_fills [OF setters_keep_names(12)]) (auto simp: setChannelParameter_def buffers_ok_def Let_def)
qed

text \<open>A setter of any of the three kinds, and a table of them.\<close>

definition setter_fills :: "'a ap_scheme setter \<Rightarrow> bool" where
  "setter_fills f = (case f of Set_s g \<Rightarrow> fills g | Set_u g \<Rightarrow> fills g | Set_b g \<Rightarrow> fills g)"

lemma set_value_fills:
  assumes "setter_fills f" "filling s"
  shows "\<exists>r s'. set_value f val s = Inr (r, s') \<and> filling s'"
proof (cases f)
  case (Set_s g)
  with assms have g: "\<exists>r s'. g v s = Inr (r, s') \<and> filling s'" for v by (simp add: setter_fills_def fills_def)
  show ?thesis
  proof (cases val)
    case (JString str)
    with g [of "Some str"] Set_s show ?thesis by (auto simp: set_value_def)
  qed (use Set_s assms in \<open>simp_all add: set_value_def\<close>)
next
  case (Set_u g)
  with assms have g: "\<exists>r s'. g v s = Inr (r, s') \<and> filling s'" for v by (simp add: setter_fills_def fills_def)
  show ?thesis
  proof (cases val)
    case (JInt i)
    with g [of "word_of_int (json_object_get_int64 i)"] Set_u assms show ?thesis by (auto simp: set_value_def Let_def)
  qed (use Set_u assms in \<open>simp_all add: set_value_def\<close>)
next
  case (Set_b g)
  with assms have g: "\<exists>r s'. g v s = Inr (r, s') \<and> filling s'" for v by (simp add: setter_fills_def fills_def)
  show ?thesis
  proof (cases val)
    case (JBool b)
    with g [of b] Set_b show ?thesis by (auto simp: set_value_def)
  qed (use Set_b assms in \<open>simp_all add: set_value_def\<close>)
qed

lemma set_all_fills:
  "list_all (\<lambda>(_, _, f). setter_fills f) ds \<Longrightarrow> filling s \<Longrightarrow>
     \<exists>n s'. set_all obj ds err s = Inr (n, s') \<and> filling s'"
proof (induction obj ds err s rule: set_all.induct)
  case (2 obj key mandatory f ds err s)
  show ?case
  proof (cases "json_object_object_get_ex obj key")
    case None
    with 2 show ?thesis by simp
  next
    case (Some val)
    obtain r s1 where s1: "set_value f val s = Inr (r, s1)" "filling s1"
      using set_value_fills [of f s val] "2.prems" by auto
    with 2 Some show ?thesis by simp
  qed
qed simp

lemma descs_fill: "list_all (\<lambda>(_, _, f). setter_fills f) (descs E)"
  unfolding descs_def list.pred_inject setter_fills_def
  by (intro conjI TrueI; simp add: name_setters_fill setters_fill)

lemma free_names:
  assumes "names_ok s"
  shows "\<exists>s'. bindE (free_block (interfaceName (wifi s)) s) (\<lambda>s4.
      bindE (free_block (domainName (wifi s4)) s4) (\<lambda>s5.
      bindE (free_block (hostName (wifi s5)) s5) (\<lambda>s6. Inr (False, s6)))) = Inr (False, s') \<and>
    blocks s' = Map.empty \<and> calls s' = calls s \<and> files s' = files s"
proof -
  have d: "distinct (somes (name_ptrs (wifi s)))" "dom (blocks s) = set (somes (name_ptrs (wifi s)))"
    using assms by (simp_all add: names_ok_def owned_by_def)
  have e: "x \<notin> dom (blocks s) \<Longrightarrow> blocks s x = None" for x by blast
  show ?thesis
    using d
    by (cases "interfaceName (wifi s)"; cases "domainName (wifi s)"; cases "hostName (wifi s)")
      (auto simp: free_block_def name_ptrs_def fun_eq_iff e split: if_splits)
qed

lemma zero_filling: "blocks s = Map.empty \<Longrightarrow> filling (s\<lparr>wifi := zero_wifi\<rparr>)"
  by (simp add: filling_def names_ok_def owned_by_def heap_ok_def name_ptrs_def zero_wifi_def buffers_ok_zero [unfolded zero_wifi_def])

lemma createWifiApData_total:
  assumes "blocks s = Map.empty"
  shows "\<exists>created s'. createWifiApData E obj s = Inr (created, s') \<and>
    (if created then filling s' else blocks s' = Map.empty)"
proof (cases "answer E (calls s) Calloc = 0")
  case False
  with assms show ?thesis by (auto simp: createWifiApData_def ask_def intro: exI [of _ False])
next
  case True
  define s1 where "s1 = snd (ask E Calloc s)"
  have "filling (s1\<lparr>wifi := zero_wifi\<rparr>)" using assms by (intro zero_filling) (simp add: s1_def ask_def)
  from set_all_fills [OF descs_fill [of E] this, of obj 0] obtain n s2 where
    s2: "set_all obj (descs E) 0 (s1\<lparr>wifi := zero_wifi\<rparr>) = Inr (n, s2)" "filling s2" by blast
  define s3 where "s3 = (if n = 0 then snd (ask E (New_event ''client-state'') s2) else s2)"
  have "wifi s3 = wifi s2" "blocks s3 = blocks s2" "brk s3 = brk s2" by (simp_all add: s3_def ask_def)
  with s2(2) names_ok_fields [of s3 s2] have s3: "filling s3" by (simp add: filling_def)
  then have "names_ok s3" by (simp add: filling_def)
  from free_names [OF this] s3 True s2(1) show ?thesis
    by (cases "n = 0") (auto simp: createWifiApData_def split_beta Let_def s1_def [symmetric] s3_def)
qed

section \<open>What an accepted configuration leaves\<close>

lemma set_all_errors: "set_all obj ds err s = Inr (n, s') \<Longrightarrow> err \<le> n"
proof (induction obj ds err s rule: set_all.induct)
  case (2 obj key mandatory f ds err s)
  then show ?case by (fastforce split: option.splits if_splits)
qed simp

text \<open>Without errors, every mandatory key is there, has a value of its type, and its setter accepted it.\<close>

lemma set_all_accepted:
  assumes "set_all obj ((key, mandatory, f) # ds) 0 s = Inr (0, s')"
  shows "(json_object_object_get_ex obj key = None \<and> \<not> mandatory \<and> set_all obj ds 0 s = Inr (0, s')) \<or>
    (\<exists>val s1. json_object_object_get_ex obj key = Some val \<and> set_value f val s = Inr (Some 0, s1) \<and>
       set_all obj ds 0 s1 = Inr (0, s'))"
  using assms set_all_errors [of obj ds 1 _ 0 s'] by (auto split: option.splits if_splits)

lemma set_value_accepted:
  "set_value (Set_s g) val s = Inr (Some 0, s1) \<Longrightarrow> \<exists>str. val = JString str \<and> g (Some str) s = Inr (0, s1)"
  "set_value (Set_b h) val s = Inr (Some 0, s1) \<Longrightarrow> \<exists>b. val = JBool b \<and> h b s = Inr (0, s1)"
  "set_value (Set_u k) val s = Inr (Some 0, s1) \<Longrightarrow>
     \<exists>n. val = JInt (int n) \<and> n < 2 ^ 32 \<and> k (word_of_nat n) s = Inr (0, s1)"
proof -
  show "set_value (Set_s g) val s = Inr (Some 0, s1) \<Longrightarrow> \<exists>str. val = JString str \<and> g (Some str) s = Inr (0, s1)"
    by (cases val) (auto simp: set_value_def)
  show "set_value (Set_b h) val s = Inr (Some 0, s1) \<Longrightarrow> \<exists>b. val = JBool b \<and> h b s = Inr (0, s1)"
    by (cases val) (auto simp: set_value_def)
  assume u: "set_value (Set_u k) val s = Inr (Some 0, s1)"
  then obtain i where i: "val = JInt i" by (cases val) (auto simp: set_value_def)
  have c: "json_object_get_int64 i = i" if "0 \<le> json_object_get_int64 i" "json_object_get_int64 i \<le> 2 ^ 32 - 1"
    using that by (auto simp: json_object_get_int64_def max_def min_def split: if_splits)
  from u i have "0 \<le> json_object_get_int64 i" "json_object_get_int64 i \<le> 2 ^ 32 - 1"
    "k (word_of_int (json_object_get_int64 i)) s = Inr (0, s1)"
    by (auto simp: set_value_def Let_def split: if_splits)
  with c i show "\<exists>n. val = JInt (int n) \<and> n < 2 ^ 32 \<and> k (word_of_nat n) s = Inr (0, s1)"
    by (intro exI [of _ "nat i"]) (auto simp: nat_less_iff)
qed

declare set_all.simps [simp del]

text \<open>The steps of a run through the table of \<open>descs\<close> without errors, by position.\<close>

lemma descs_at [simp]:
  "length (descs E) = 16"
  "descs E ! 0 = (''interfaceName'', True, Set_s (setInterfaceNameParameter E))"
  "descs E ! 1 = (''domaine_name'', True, Set_s (setDomainNameParameter E))"
  "descs E ! 2 = (''hostname'', True, Set_s (setHostNameParameter E))"
  "descs E ! 3 = (''ssid'', True, Set_s (on_wifi setSsidParameter))"
  "descs E ! 4 = (''passphrase'', True, Set_s (on_wifi setPassPhraseParameter))"
  "descs E ! 5 = (''preSharedKey'', False, Set_s (on_wifi setPassPhraseParameter))"
  "descs E ! 6 = (''countryCode'', True, Set_s (on_wifi setCountryCodeParameter))"
  "descs E ! 7 = (''securityProtocol'', True, Set_s (on_wifi setSecurityProtocolParameter))"
  "descs E ! 8 = (''ip_ap'', True, Set_s (on_wifi setIpApParameter))"
  "descs E ! 9 = (''ip_start'', True, Set_s (on_wifi setIpStartParameter))"
  "descs E ! 10 = (''ip_stop'', True, Set_s (on_wifi setIpStopParameter))"
  "descs E ! 11 = (''ip_netmask'', True, Set_s (on_wifi setIpNetMaskParameter))"
  "descs E ! 12 = (''discoverable'', True, Set_b (on_wifi setDiscoverableParameter))"
  "descs E ! 13 = (''maxNumberClient'', True, Set_u (on_wifi setMaxNumberClients))"
  "descs E ! 14 = (''IeeeStdMask'', True, Set_u (on_wifi setIeeeStandardParameter))"
  "descs E ! 15 = (''channelNumber'', True, Set_u (on_wifi setChannelParameter))"
  by (simp_all add: descs_def)

lemma step_at:
  assumes "set_all obj (drop k ds) 0 s = Inr (0, s')" "k < length ds" "ds ! k = (key, mandatory, f)"
  shows "(json_object_object_get_ex obj key = None \<and> \<not> mandatory \<and> set_all obj (drop (Suc k) ds) 0 s = Inr (0, s')) \<or>
    (\<exists>val s1. json_object_object_get_ex obj key = Some val \<and> set_value f val s = Inr (Some 0, s1) \<and>
       set_all obj (drop (Suc k) ds) 0 s1 = Inr (0, s'))"
proof -
  have "drop k ds = (key, mandatory, f) # drop (Suc k) ds"
    using Cons_nth_drop_Suc [OF assms(2)] assms(3) by simp
  with assms(1) show ?thesis using set_all_accepted [of obj key mandatory f "drop (Suc k) ds" s s'] by simp
qed

lemma step_string:
  assumes "set_all obj (drop k ds) 0 s = Inr (0, s')" "k < length ds" "ds ! k = (key, True, Set_s g)"
  obtains str s1 where "json_object_object_get_ex obj key = Some (JString str)" "g (Some str) s = Inr (0, s1)"
    "set_all obj (drop (Suc k) ds) 0 s1 = Inr (0, s')"
  using step_at [OF assms] by (auto dest: set_value_accepted)

lemma step_wifi:
  assumes "set_all obj (drop k ds) 0 s = Inr (0, s')" "k < length ds" "ds ! k = (key, mandatory, Set_s (on_wifi g))"
  obtains (absent) "json_object_object_get_ex obj key = None" "\<not> mandatory" "set_all obj (drop (Suc k) ds) 0 s = Inr (0, s')"
    | (given) str w where "json_object_object_get_ex obj key = Some (JString str)" "g (wifi s) (Some str) = Inr (0, w)"
    "set_all obj (drop (Suc k) ds) 0 (s\<lparr>wifi := w\<rparr>) = Inr (0, s')"
  using step_at [OF assms] by (auto simp: on_wifi_def dest!: set_value_accepted)

lemma step_number:
  assumes "set_all obj (drop k ds) 0 s = Inr (0, s')" "k < length ds" "ds ! k = (key, True, Set_u (on_wifi g))"
  obtains n w where "json_object_object_get_ex obj key = Some (JInt (int n))" "n < 2 ^ 32"
    "g (wifi s) (word_of_nat n) = Inr (0, w)" "set_all obj (drop (Suc k) ds) 0 (s\<lparr>wifi := w\<rparr>) = Inr (0, s')"
  using step_at [OF assms] by (auto simp: on_wifi_def dest!: set_value_accepted)

lemma step_bool:
  assumes "set_all obj (drop k ds) 0 s = Inr (0, s')" "k < length ds" "ds ! k = (key, True, Set_b (on_wifi g))"
  obtains b w where "json_object_object_get_ex obj key = Some (JBool b)" "g (wifi s) b = Inr (0, w)"
    "set_all obj (drop (Suc k) ds) 0 (s\<lparr>wifi := w\<rparr>) = Inr (0, s')"
  using step_at [OF assms] by (auto simp: on_wifi_def dest!: set_value_accepted)

text \<open>What a setter has done when it reports success.\<close>

lemma set_buffer_success:
  "set_buffer b0 (Some str) lo hi = Inr (0, b) \<Longrightarrow> cstr b = cstr str \<and> lo \<le> strlen b \<and> strlen b \<le> hi"
  by (auto simp: set_buffer_def Let_def strlen_def split: if_splits)

lemma buffer_success:
  "bindE (set_buffer b0 (Some str) lo hi) (\<lambda>(r, b). Inr (r, upd b)) = Inr (0, w') \<Longrightarrow>
     \<exists>b. w' = upd b \<and> cstr b = cstr str \<and> lo \<le> strlen b \<and> strlen b \<le> hi"
  by (auto dest: set_buffer_success)

lemma buffer_setter_success:
  "setSsidParameter w (Some str) = Inr (0, w') \<Longrightarrow> \<exists>b. w' = w\<lparr>ssid := b\<rparr> \<and> cstr b = cstr str \<and> 1 \<le> strlen b"
  "setPassPhraseParameter w (Some str) = Inr (0, w') \<Longrightarrow>
     \<exists>b. w' = w\<lparr>passphrase := b\<rparr> \<and> cstr b = cstr str \<and> 8 \<le> strlen b"
  "setCountryCodeParameter w (Some str) = Inr (0, w') \<Longrightarrow>
     \<exists>b. w' = w\<lparr>countryCode := b\<rparr> \<and> cstr b = cstr str \<and> strlen b = 2"
  "setIpApParameter w (Some str) = Inr (0, w') \<Longrightarrow> \<exists>b. w' = w\<lparr>ip_ap := b\<rparr> \<and> cstr b = cstr str"
  "setIpStartParameter w (Some str) = Inr (0, w') \<Longrightarrow> \<exists>b. w' = w\<lparr>ip_start := b\<rparr> \<and> cstr b = cstr str"
  "setIpStopParameter w (Some str) = Inr (0, w') \<Longrightarrow> \<exists>b. w' = w\<lparr>ip_stop := b\<rparr> \<and> cstr b = cstr str"
  "setIpNetMaskParameter w (Some str) = Inr (0, w') \<Longrightarrow> \<exists>b. w' = w\<lparr>ip_netmask := b\<rparr> \<and> cstr b = cstr str"
  unfolding buffer_setter_defs by (drule buffer_success; metis le_antisym)+

lemma setter_success:
  "setSecurityProtocolParameter w (Some str) = Inr (0, w') \<Longrightarrow> \<exists>p. w' = w\<lparr>securityProtocol := p\<rparr> \<and>
     strcasecmp_eq str (case p of WIFI_AP_SECURITY_NONE \<Rightarrow> ''none'' | WIFI_AP_SECURITY_WPA2 \<Rightarrow> ''WPA2'')"
  "setDiscoverableParameter w d = Inr (r, w') \<Longrightarrow> w' = w\<lparr>discoverable := d\<rparr>"
  "setMaxNumberClients w n = Inr (0, w') \<Longrightarrow> w' = w\<lparr>maxNumberClient := n\<rparr> \<and> clients_check n = 0"
  "setIeeeStandardParameter w m = Inr (0, w') \<Longrightarrow> w' = w\<lparr>IeeeStdMask := m\<rparr> \<and> mask_ok m"
  unfolding setSecurityProtocolParameter_def setDiscoverableParameter_def setMaxNumberClients_eq setIeeeStandardParameter_eq
  by (auto simp: mask_check_0 split: if_splits)

lemma setChannel_success:
  assumes "setChannelParameter w c = Inr (0, w')" "mask_ok (IeeeStdMask w)"
  shows "w' = (load_range w)\<lparr>channelNumber := ucast c\<rparr> \<and> in_range (doc_range (IeeeStdMask w)) (unat c)"
  using assms by (auto simp: setChannelParameter_eq mask_ok_def Let_def range_check_0 split: if_splits)


text \<open>The structure holds what the configuration says under each key.\<close>

definition text_value :: "json \<Rightarrow> string \<Rightarrow> string \<Rightarrow> bool" where
  "text_value obj key str \<longleftrightarrow> (\<exists>v. json_object_object_get_ex obj key = Some (JString v) \<and> cstr v = str)"

definition number_value :: "json \<Rightarrow> string \<Rightarrow> nat \<Rightarrow> bool" where
  "number_value obj key n \<longleftrightarrow> json_object_object_get_ex obj key = Some (JInt (int n))"

definition passphrase_key :: "json \<Rightarrow> string" where
  "passphrase_key obj = (if json_object_object_get_ex obj ''preSharedKey'' = None then ''passphrase'' else ''preSharedKey'')"

definition values_stored :: "json \<Rightarrow> wifiApT \<Rightarrow> bool" where
  "values_stored obj w \<longleftrightarrow>
     text_value obj ''ssid'' (cstr (ssid w)) \<and> text_value obj (passphrase_key obj) (cstr (passphrase w)) \<and>
     text_value obj ''countryCode'' (cstr (countryCode w)) \<and>
     (\<exists>v. text_value obj ''securityProtocol'' v \<and>
        strcasecmp_eq v (case securityProtocol w of WIFI_AP_SECURITY_NONE \<Rightarrow> ''none'' | WIFI_AP_SECURITY_WPA2 \<Rightarrow> ''WPA2'')) \<and>
     text_value obj ''ip_ap'' (cstr (ip_ap w)) \<and> text_value obj ''ip_start'' (cstr (ip_start w)) \<and>
     text_value obj ''ip_stop'' (cstr (ip_stop w)) \<and> text_value obj ''ip_netmask'' (cstr (ip_netmask w)) \<and>
     json_object_object_get_ex obj ''discoverable'' = Some (JBool (discoverable w)) \<and>
     number_value obj ''maxNumberClient'' (unat (maxNumberClient w)) \<and>
     number_value obj ''IeeeStdMask'' (unat (IeeeStdMask w)) \<and> number_value obj ''channelNumber'' (unat (channelNumber w))"

text \<open>What the setters have checked.\<close>

definition values_checked :: "wifiApT \<Rightarrow> bool" where
  "values_checked w \<longleftrightarrow> 1 \<le> strlen (ssid w) \<and> 8 \<le> strlen (passphrase w) \<and> strlen (countryCode w) = 2 \<and>
     mask_ok (IeeeStdMask w) \<and> clients_check (maxNumberClient w) = 0 \<and> channel_ok w \<and>
     stored_range w = doc_range (IeeeStdMask w) \<and> in_range (stored_range w) (unat (channelNumber w))"

lemma strcasecmp_cstr: "strcasecmp_eq (cstr v) p = strcasecmp_eq v p"
  by (simp add: strcasecmp_eq_def cstr_def)

lemma unat_number: "n < 2 ^ 32 \<Longrightarrow> unat (word_of_nat n :: 32 word) = n"
  by (simp add: unat_of_nat take_bit_nat_eq_self)

lemma set_all_numbers:
  assumes "set_all obj (drop 12 (descs E)) 0 s = Inr (0, s')"
  obtains d n m w and c :: "32 word" where
    "w = (wifi s)\<lparr>discoverable := d, maxNumberClient := n, IeeeStdMask := m\<rparr>"
    "s' = s\<lparr>wifi := (load_range w)\<lparr>channelNumber := ucast c\<rparr>\<rparr>"
    "json_object_object_get_ex obj ''discoverable'' = Some (JBool d)"
    "number_value obj ''maxNumberClient'' (unat n)" "number_value obj ''IeeeStdMask'' (unat m)"
    "number_value obj ''channelNumber'' (unat c)" "clients_check n = 0" "mask_ok m" "in_range (doc_range m) (unat c)"
proof -
  obtain d w1 where d: "json_object_object_get_ex obj ''discoverable'' = Some (JBool d)"
    "setDiscoverableParameter (wifi s) d = Inr (0, w1)" and r13: "set_all obj (drop 13 (descs E)) 0 (s\<lparr>wifi := w1\<rparr>) = Inr (0, s')"
    by (rule step_bool [OF assms _ descs_at(14)]) simp_all
  obtain n w2 where n: "json_object_object_get_ex obj ''maxNumberClient'' = Some (JInt (int n))" "n < 2 ^ 32"
      "setMaxNumberClients w1 (word_of_nat n) = Inr (0, w2)"
    and r14: "set_all obj (drop 14 (descs E)) 0 (s\<lparr>wifi := w2\<rparr>) = Inr (0, s')"
    by (rule step_number [OF r13 _ descs_at(15)]) simp_all
  obtain m w3 where m: "json_object_object_get_ex obj ''IeeeStdMask'' = Some (JInt (int m))" "m < 2 ^ 32"
      "setIeeeStandardParameter w2 (word_of_nat m) = Inr (0, w3)"
    and r15: "set_all obj (drop 15 (descs E)) 0 (s\<lparr>wifi := w3\<rparr>) = Inr (0, s')"
    by (rule step_number [OF r14 _ descs_at(16)]) simp_all
  obtain c w4 where c: "json_object_object_get_ex obj ''channelNumber'' = Some (JInt (int c))" "c < 2 ^ 32"
      "setChannelParameter w3 (word_of_nat c) = Inr (0, w4)" "s' = s\<lparr>wifi := w4\<rparr>"
    by (rule step_number [OF r15 _ descs_at(17)]) (simp_all add: set_all.simps)
  note e = setter_success(2) [OF d(2)] setter_success(3) [OF n(3)] setter_success(4) [OF m(3)]
  have "mask_ok (IeeeStdMask w3)" using e(3) by simp
  from setChannel_success [OF c(3) this] e d(1) n(1) m(1) c(1,4) unat_number [OF n(2)] unat_number [OF m(2)] unat_number [OF c(2)]
  show thesis
    by (intro that [where w = w3 and d = d and n = "word_of_nat n" and m = "word_of_nat m" and c = "word_of_nat c"]) (simp_all add: number_value_def)
qed

lemma set_all_texts:
  assumes "set_all obj (drop 3 (descs E)) 0 s = Inr (0, s')"
  shows "\<exists>a p c pr i1 i2 i3 i4. set_all obj (drop 12 (descs E)) 0
      (s\<lparr>wifi := (wifi s)\<lparr>ssid := a, passphrase := p, countryCode := c, securityProtocol := pr, ip_ap := i1,
         ip_start := i2, ip_stop := i3, ip_netmask := i4\<rparr>\<rparr>) = Inr (0, s') \<and>
    text_value obj ''ssid'' (cstr a) \<and> text_value obj (passphrase_key obj) (cstr p) \<and>
    text_value obj ''countryCode'' (cstr c) \<and> (\<exists>v. text_value obj ''securityProtocol'' v \<and>
        strcasecmp_eq v (case pr of WIFI_AP_SECURITY_NONE \<Rightarrow> ''none'' | WIFI_AP_SECURITY_WPA2 \<Rightarrow> ''WPA2'')) \<and>
    text_value obj ''ip_ap'' (cstr i1) \<and> text_value obj ''ip_start'' (cstr i2) \<and> text_value obj ''ip_stop'' (cstr i3) \<and>
    text_value obj ''ip_netmask'' (cstr i4) \<and> 1 \<le> strlen a \<and> 8 \<le> strlen p \<and> strlen c = 2"
proof -
  obtain a where a: "set_all obj (drop 4 (descs E)) 0 (s\<lparr>wifi := (wifi s)\<lparr>ssid := a\<rparr>\<rparr>) = Inr (0, s')"
    "text_value obj ''ssid'' (cstr a)" "1 \<le> strlen a"
    by (rule step_wifi [OF assms _ descs_at(5)]) (auto simp: text_value_def dest!: buffer_setter_success(1))
  obtain q where q: "set_all obj (drop 5 (descs E)) 0 (s\<lparr>wifi := (wifi s)\<lparr>ssid := a, passphrase := q\<rparr>\<rparr>) = Inr (0, s')"
    "text_value obj ''passphrase'' (cstr q)" "8 \<le> strlen q"
    by (rule step_wifi [OF a(1) _ descs_at(6)]) (auto simp: text_value_def dest!: buffer_setter_success(2))
  obtain p where p: "set_all obj (drop 6 (descs E)) 0 (s\<lparr>wifi := (wifi s)\<lparr>ssid := a, passphrase := p\<rparr>\<rparr>) = Inr (0, s')"
    "text_value obj (passphrase_key obj) (cstr p)" "8 \<le> strlen p"
    by (rule step_wifi [OF q(1) _ descs_at(7)])
      (use q in \<open>auto simp: text_value_def passphrase_key_def dest!: buffer_setter_success(2)\<close>)
  obtain c where c: "set_all obj (drop 7 (descs E)) 0
      (s\<lparr>wifi := (wifi s)\<lparr>ssid := a, passphrase := p, countryCode := c\<rparr>\<rparr>) = Inr (0, s')"
    "text_value obj ''countryCode'' (cstr c)" "strlen c = 2"
    by (rule step_wifi [OF p(1) _ descs_at(8)]) (auto simp: text_value_def dest!: buffer_setter_success(3))
  obtain pr v where pr: "set_all obj (drop 8 (descs E)) 0
      (s\<lparr>wifi := (wifi s)\<lparr>ssid := a, passphrase := p, countryCode := c, securityProtocol := pr\<rparr>\<rparr>) = Inr (0, s')"
    "text_value obj ''securityProtocol'' (cstr v)"
    "strcasecmp_eq v (case pr of WIFI_AP_SECURITY_NONE \<Rightarrow> ''none'' | WIFI_AP_SECURITY_WPA2 \<Rightarrow> ''WPA2'')"
    by (rule step_wifi [OF c(1) _ descs_at(9)]) (auto simp: text_value_def dest!: setter_success(1))
  obtain i1 where i1: "set_all obj (drop 9 (descs E)) 0
      (s\<lparr>wifi := (wifi s)\<lparr>ssid := a, passphrase := p, countryCode := c, securityProtocol := pr, ip_ap := i1\<rparr>\<rparr>) = Inr (0, s')"
    "text_value obj ''ip_ap'' (cstr i1)"
    by (rule step_wifi [OF pr(1) _ descs_at(10)]) (auto simp: text_value_def dest!: buffer_setter_success(4))
  obtain i2 where i2: "set_all obj (drop 10 (descs E)) 0
      (s\<lparr>wifi := (wifi s)\<lparr>ssid := a, passphrase := p, countryCode := c, securityProtocol := pr, ip_ap := i1,
         ip_start := i2\<rparr>\<rparr>) = Inr (0, s')" "text_value obj ''ip_start'' (cstr i2)"
    by (rule step_wifi [OF i1(1) _ descs_at(11)]) (auto simp: text_value_def dest!: buffer_setter_success(5))
  obtain i3 where i3: "set_all obj (drop 11 (descs E)) 0
      (s\<lparr>wifi := (wifi s)\<lparr>ssid := a, passphrase := p, countryCode := c, securityProtocol := pr, ip_ap := i1,
         ip_start := i2, ip_stop := i3\<rparr>\<rparr>) = Inr (0, s')" "text_value obj ''ip_stop'' (cstr i3)"
    by (rule step_wifi [OF i2(1) _ descs_at(12)]) (auto simp: text_value_def dest!: buffer_setter_success(6))
  obtain i4 where i4: "set_all obj (drop 12 (descs E)) 0
      (s\<lparr>wifi := (wifi s)\<lparr>ssid := a, passphrase := p, countryCode := c, securityProtocol := pr, ip_ap := i1,
         ip_start := i2, ip_stop := i3, ip_netmask := i4\<rparr>\<rparr>) = Inr (0, s')" "text_value obj ''ip_netmask'' (cstr i4)"
    by (rule step_wifi [OF i3(1) _ descs_at(13)]) (auto simp: text_value_def dest!: buffer_setter_success(7))
  from pr(3) have "strcasecmp_eq (cstr v) (case pr of WIFI_AP_SECURITY_NONE \<Rightarrow> ''none'' | WIFI_AP_SECURITY_WPA2 \<Rightarrow> ''WPA2'')"
    by (simp add: strcasecmp_cstr)
  with a(2,3) p(2,3) c(2,3) pr(2) i1(2) i2(2) i3(2) i4 show ?thesis by blast
qed

lemma set_string_copy_others:
  assumes "set_string_copy E dest src s = Inr (r, p, s')" "heap_ok s" "blocks s a = Some str" "dest \<noteq> Some a"
  shows "blocks s' a = Some str"
proof -
  have "a \<noteq> brk s" using assms(2,3) by (auto simp: heap_ok_def)
  with assms show ?thesis
    by (auto simp: set_string_copy_def strdup_def ask_def free_block_def Let_def split: option.splits if_splits)
qed

lemma deref_others:
  assumes "set_string_copy E dest src s = Inr (r, p, s')" "heap_ok s" "deref q s = Inr str" "dest \<noteq> q"
  shows "deref q s' = Inr str"
  using assms set_string_copy_others [OF assms(1,2)] by (auto simp: deref_def split: option.splits)

lemma distinct_names:
  assumes "names_ok s"
  shows "interfaceName (wifi s) = Some a \<Longrightarrow> domainName (wifi s) \<noteq> Some a \<and> hostName (wifi s) \<noteq> Some a"
    and "domainName (wifi s) = Some a \<Longrightarrow> hostName (wifi s) \<noteq> Some a"
proof -
  have d: "distinct (somes (name_ptrs (wifi s)))" using assms by (simp add: names_ok_def owned_by_def)
  show "interfaceName (wifi s) = Some a \<Longrightarrow> domainName (wifi s) \<noteq> Some a \<and> hostName (wifi s) \<noteq> Some a"
    using d by (cases "domainName (wifi s)"; cases "hostName (wifi s)") (auto simp: name_ptrs_def)
  show "domainName (wifi s) = Some a \<Longrightarrow> hostName (wifi s) \<noteq> Some a"
    using d by (cases "interfaceName (wifi s)"; cases "hostName (wifi s)") (auto simp: name_ptrs_def)
qed

text \<open>Setting one name leaves the texts of the others alone.\<close>

lemma setName_others:
  assumes "names_ok s"
  shows "setDomainNameParameter E v s = Inr (r, s') \<Longrightarrow> deref (interfaceName (wifi s)) s = Inr i \<Longrightarrow>
      deref (interfaceName (wifi s)) s' = Inr i"
    and "setHostNameParameter E v s = Inr (r, s') \<Longrightarrow> deref (interfaceName (wifi s)) s = Inr i \<Longrightarrow>
      deref (interfaceName (wifi s)) s' = Inr i"
    and "setHostNameParameter E v s = Inr (r, s') \<Longrightarrow> deref (domainName (wifi s)) s = Inr i \<Longrightarrow>
      deref (domainName (wifi s)) s' = Inr i"
proof -
  have heap: "heap_ok s" using assms by (simp add: names_ok_def owned_by_def)
  have ne: "deref (interfaceName (wifi s)) s = Inr i \<Longrightarrow> domainName (wifi s) \<noteq> interfaceName (wifi s) \<and> hostName (wifi s) \<noteq> interfaceName (wifi s)"
    "deref (domainName (wifi s)) s = Inr i \<Longrightarrow> hostName (wifi s) \<noteq> domainName (wifi s)"
    using distinct_names [OF assms] by (cases "interfaceName (wifi s)"; cases "domainName (wifi s)"; force simp: deref_def)+
  show "setDomainNameParameter E v s = Inr (r, s') \<Longrightarrow> deref (interfaceName (wifi s)) s = Inr i \<Longrightarrow> deref (interfaceName (wifi s)) s' = Inr i"
    using ne(1) deref_others [OF _ heap] by (auto simp: setDomainNameParameter_def)
  show "setHostNameParameter E v s = Inr (r, s') \<Longrightarrow> deref (interfaceName (wifi s)) s = Inr i \<Longrightarrow> deref (interfaceName (wifi s)) s' = Inr i"
    using ne(1) deref_others [OF _ heap] by (auto simp: setHostNameParameter_def)
  show "setHostNameParameter E v s = Inr (r, s') \<Longrightarrow> deref (domainName (wifi s)) s = Inr i \<Longrightarrow> deref (domainName (wifi s)) s' = Inr i"
    using ne(2) deref_others [OF _ heap] by (auto simp: setHostNameParameter_def)
qed

lemma set_all_names:
  assumes "set_all obj (descs E) 0 s = Inr (0, s')" "names_ok s"
  obtains i d h t where "set_all obj (drop 3 (descs E)) 0 t = Inr (0, s')" "names_ok t"
    "text_value obj ''interfaceName'' i" "text_value obj ''domaine_name'' d" "text_value obj ''hostname'' h"
    "deref (interfaceName (wifi t)) t = Inr i" "deref (domainName (wifi t)) t = Inr d" "deref (hostName (wifi t)) t = Inr h"
    "wifi t = (wifi s)\<lparr>interfaceName := interfaceName (wifi t), domainName := domainName (wifi t), hostName := hostName (wifi t)\<rparr>"
proof -
  have "set_all obj (drop 0 (descs E)) 0 s = Inr (0, s')" using assms(1) by simp
  then obtain i s1 where i: "json_object_object_get_ex obj ''interfaceName'' = Some (JString i)"
    "setInterfaceNameParameter E (Some i) s = Inr (0, s1)" "set_all obj (drop 1 (descs E)) 0 s1 = Inr (0, s')"
    by (rule step_string [OF _ _ descs_at(2)]) simp_all
  obtain d s2 where d: "json_object_object_get_ex obj ''domaine_name'' = Some (JString d)"
    "setDomainNameParameter E (Some d) s1 = Inr (0, s2)" "set_all obj (drop 2 (descs E)) 0 s2 = Inr (0, s')"
    by (rule step_string [OF i(3) _ descs_at(3)]) (simp_all add: numeral_2_eq_2)
  obtain h s3 where h: "json_object_object_get_ex obj ''hostname'' = Some (JString h)"
    "setHostNameParameter E (Some h) s2 = Inr (0, s3)" "set_all obj (drop 3 (descs E)) 0 s3 = Inr (0, s')"
    by (rule step_string [OF d(3) _ descs_at(4)]) simp_all
  from setInterfaceName_result [OF assms(2), of E "Some i"] i(2)
  have s1: "names_ok s1" "wifi s1 = (wifi s)\<lparr>interfaceName := interfaceName (wifi s1)\<rparr>"
    "deref (interfaceName (wifi s1)) s1 = Inr (cstr i)" by auto
  from setDomainName_result [OF s1(1), of E "Some d"] d(2)
  have s2: "names_ok s2" "wifi s2 = (wifi s1)\<lparr>domainName := domainName (wifi s2)\<rparr>"
    "deref (domainName (wifi s2)) s2 = Inr (cstr d)" by auto
  from setHostName_result [OF s2(1), of E "Some h"] h(2)
  have s3: "names_ok s3" "wifi s3 = (wifi s2)\<lparr>hostName := hostName (wifi s3)\<rparr>"
    "deref (hostName (wifi s3)) s3 = Inr (cstr h)" by auto
  have e2: "interfaceName (wifi s2) = interfaceName (wifi s1)" using arg_cong [OF s2(2), of interfaceName] by simp
  note i2 = setName_others(1) [OF s1(1) d(2) s1(3)]
  have i3: "deref (interfaceName (wifi s1)) s3 = Inr (cstr i)"
    using setName_others(2) [OF s2(1) h(2)] i2 e2 by simp
  note d3 = setName_others(3) [OF s2(1) h(2) s2(3)]
  obtain p1 p2 p3 where "wifi s1 = (wifi s)\<lparr>interfaceName := p1\<rparr>" "wifi s2 = (wifi s1)\<lparr>domainName := p2\<rparr>"
    "wifi s3 = (wifi s2)\<lparr>hostName := p3\<rparr>"
    using s1(2) s2(2) s3(2) by blast
  then have w: "interfaceName (wifi s3) = interfaceName (wifi s1)" "domainName (wifi s3) = domainName (wifi s2)"
    "wifi s3 = (wifi s)\<lparr>interfaceName := interfaceName (wifi s3), domainName := domainName (wifi s3), hostName := hostName (wifi s3)\<rparr>"
    by simp_all
  show thesis
    using i(1) d(1) h(1,3) s3(1,3) i3 d3 w by (intro that [of s3 "cstr i" "cstr d" "cstr h"]) (auto simp: text_value_def)
qed

definition names_stored :: "json \<Rightarrow> 'a ap_scheme \<Rightarrow> bool" where
  "names_stored obj s \<longleftrightarrow>
     (\<exists>i. text_value obj ''interfaceName'' i \<and> deref (interfaceName (wifi s)) s = Inr i) \<and>
     (\<exists>d. text_value obj ''domaine_name'' d \<and> deref (domainName (wifi s)) s = Inr d) \<and>
     (\<exists>h. text_value obj ''hostname'' h \<and> deref (hostName (wifi s)) s = Inr h)"

lemma load_range_fields:
  "ssid (load_range w) = ssid w" "passphrase (load_range w) = passphrase w" "countryCode (load_range w) = countryCode w"
  "securityProtocol (load_range w) = securityProtocol w" "ip_ap (load_range w) = ip_ap w"
  "ip_start (load_range w) = ip_start w" "ip_stop (load_range w) = ip_stop w" "ip_netmask (load_range w) = ip_netmask w"
  "discoverable (load_range w) = discoverable w" "maxNumberClient (load_range w) = maxNumberClient w"
  "IeeeStdMask (load_range w) = IeeeStdMask w" "interfaceName (load_range w) = interfaceName w"
  "domainName (load_range w) = domainName w" "hostName (load_range w) = hostName w"
  "presharedKey (load_range w) = presharedKey w" "status (load_range w) = status w"
  by (simp_all add: load_range_def)

lemma set_all_result:
  assumes run: "set_all obj (descs E) 0 (s\<lparr>wifi := zero_wifi\<rparr>) = Inr (0, s')" and ok: "names_ok (s\<lparr>wifi := zero_wifi\<rparr>)"
  shows "names_stored obj s' \<and> values_stored obj (wifi s') \<and> values_checked (wifi s') \<and>
    status (wifi s') = Status_init \<and> cstr (presharedKey (wifi s')) = []"
proof -
  obtain i d h t where t: "set_all obj (drop 3 (descs E)) 0 t = Inr (0, s')"
    "text_value obj ''interfaceName'' i" "text_value obj ''domaine_name'' d" "text_value obj ''hostname'' h"
    "deref (interfaceName (wifi t)) t = Inr i" "deref (domainName (wifi t)) t = Inr d" "deref (hostName (wifi t)) t = Inr h"
    "wifi t = zero_wifi\<lparr>interfaceName := interfaceName (wifi t), domainName := domainName (wifi t), hostName := hostName (wifi t)\<rparr>"
    by (rule set_all_names [OF run ok]) simp
  from set_all_texts [OF t(1)] obtain a p c pr i1 i2 i3 i4 where x: "set_all obj (drop 12 (descs E)) 0
      (t\<lparr>wifi := (wifi t)\<lparr>ssid := a, passphrase := p, countryCode := c, securityProtocol := pr, ip_ap := i1,
         ip_start := i2, ip_stop := i3, ip_netmask := i4\<rparr>\<rparr>) = Inr (0, s')"
    "text_value obj ''ssid'' (cstr a)" "text_value obj (passphrase_key obj) (cstr p)"
    "text_value obj ''countryCode'' (cstr c)" "\<exists>v. text_value obj ''securityProtocol'' v \<and>
        strcasecmp_eq v (case pr of WIFI_AP_SECURITY_NONE \<Rightarrow> ''none'' | WIFI_AP_SECURITY_WPA2 \<Rightarrow> ''WPA2'')"
    "text_value obj ''ip_ap'' (cstr i1)" "text_value obj ''ip_start'' (cstr i2)" "text_value obj ''ip_stop'' (cstr i3)"
    "text_value obj ''ip_netmask'' (cstr i4)" "1 \<le> strlen a" "8 \<le> strlen p" "strlen c = 2"
    by blast
  obtain w ch where w: "s' = t\<lparr>wifi := (load_range w)\<lparr>channelNumber := ucast (ch :: 32 word)\<rparr>\<rparr>"
    "ssid w = a" "passphrase w = p" "countryCode w = c" "securityProtocol w = pr" "ip_ap w = i1" "ip_start w = i2"
    "ip_stop w = i3" "ip_netmask w = i4" "interfaceName w = interfaceName (wifi t)" "domainName w = domainName (wifi t)"
    "hostName w = hostName (wifi t)" "presharedKey w = presharedKey (wifi t)" "status w = status (wifi t)"
    "json_object_object_get_ex obj ''discoverable'' = Some (JBool (discoverable w))"
    "number_value obj ''maxNumberClient'' (unat (maxNumberClient w))" "number_value obj ''IeeeStdMask'' (unat (IeeeStdMask w))"
    "number_value obj ''channelNumber'' (unat ch)" "clients_check (maxNumberClient w) = 0" "mask_ok (IeeeStdMask w)"
    "in_range (doc_range (IeeeStdMask w)) (unat ch)"
    by (rule set_all_numbers [OF x(1)]) (auto simp: that)
  have z: "presharedKey (wifi t) = replicate 65 NUL" "status (wifi t) = Status_init"
    by (subst t(8), simp add: zero_wifi_def)+
  note ch = channel_ok_accept [OF w(21)]
  have r: "stored_range (w'\<lparr>channelNumber := n\<rparr>) = stored_range w'" for w' n by (simp add: stored_range_def)
  have n: "names_stored obj s'" using t(2-7) w(1,10-12) by (auto simp: names_stored_def load_range_fields)
  have v: "values_stored obj (wifi s')"
    using x(2-9) w ch by (simp add: values_stored_def load_range_fields)
  have c: "values_checked (wifi s')"
    using x(10-12) w ch by (simp add: values_checked_def load_range_fields r stored_range_load)
  have "cstr (replicate 65 NUL) = []" by (simp add: cstr_def)
  with n v c w(1,13,14) z show ?thesis by (simp add: load_range_fields)
qed

section \<open>Which configurations are accepted\<close>

definition valid_text :: "json \<Rightarrow> string \<Rightarrow> nat \<Rightarrow> nat \<Rightarrow> bool" where
  "valid_text obj key lo hi \<longleftrightarrow>
     (case json_object_object_get_ex obj key of Some (JString v) \<Rightarrow> lo \<le> strlen v \<and> strlen v \<le> hi | _ \<Rightarrow> False)"

definition valid_name :: "json \<Rightarrow> string \<Rightarrow> bool" where
  "valid_name obj key \<longleftrightarrow> (case json_object_object_get_ex obj key of Some (JString v) \<Rightarrow> cstr v \<noteq> [] | _ \<Rightarrow> False)"

definition valid_protocol :: "json \<Rightarrow> bool" where
  "valid_protocol obj \<longleftrightarrow>
     (case json_object_object_get_ex obj ''securityProtocol'' of
        Some (JString v) \<Rightarrow> strcasecmp_eq v ''none'' \<or> strcasecmp_eq v ''WPA2'' | _ \<Rightarrow> False)"

definition valid_flag :: "json \<Rightarrow> bool" where
  "valid_flag obj \<longleftrightarrow> (case json_object_object_get_ex obj ''discoverable'' of Some (JBool b) \<Rightarrow> True | _ \<Rightarrow> False)"

definition number_of :: "json \<Rightarrow> string \<Rightarrow> nat" where
  "number_of obj key = (case json_object_object_get_ex obj key of Some (JInt i) \<Rightarrow> nat i | _ \<Rightarrow> 0)"

definition valid_number :: "json \<Rightarrow> string \<Rightarrow> bool" where
  "valid_number obj key \<longleftrightarrow>
     (case json_object_object_get_ex obj key of Some (JInt i) \<Rightarrow> 0 \<le> i \<and> i < 2 ^ 32 | _ \<Rightarrow> False)"

definition valid_config :: "json \<Rightarrow> bool" where
  "valid_config obj \<longleftrightarrow>
     valid_name obj ''interfaceName'' \<and> valid_name obj ''domaine_name'' \<and> valid_name obj ''hostname'' \<and>
     valid_text obj ''ssid'' 1 32 \<and> valid_text obj ''passphrase'' 8 63 \<and>
     (json_object_object_get_ex obj ''preSharedKey'' = None \<or> valid_text obj ''preSharedKey'' 8 63) \<and>
     valid_text obj ''countryCode'' 2 2 \<and> valid_protocol obj \<and>
     valid_text obj ''ip_ap'' 1 15 \<and> valid_text obj ''ip_start'' 1 15 \<and> valid_text obj ''ip_stop'' 1 15 \<and>
     valid_text obj ''ip_netmask'' 1 15 \<and> valid_flag obj \<and>
     valid_number obj ''maxNumberClient'' \<and> clients_check (word_of_nat (number_of obj ''maxNumberClient'')) = 0 \<and>
     valid_number obj ''IeeeStdMask'' \<and> mask_ok (word_of_nat (number_of obj ''IeeeStdMask'')) \<and>
     valid_number obj ''channelNumber'' \<and>
     in_range (doc_range (word_of_nat (number_of obj ''IeeeStdMask''))) (number_of obj ''channelNumber'')"

text \<open>A step of the table that cannot fail, from any state while the structure is being filled.\<close>

definition step_accepts :: "json \<Rightarrow> string \<times> bool \<times> 'a ap_scheme setter \<Rightarrow> bool" where
  "step_accepts obj d \<longleftrightarrow> (case d of (key, mandatory, f) \<Rightarrow>
     (json_object_object_get_ex obj key = None \<and> \<not> mandatory) \<or>
     (\<exists>val. json_object_object_get_ex obj key = Some val \<and>
        (\<forall>s. filling s \<longrightarrow> (\<exists>s'. set_value f val s = Inr (Some 0, s') \<and> filling s'))))"

lemma set_all_append:
  "set_all obj (ds @ ds') err s = bindE (set_all obj ds err s) (\<lambda>(err', s'). set_all obj ds' err' s')"
proof (induction obj ds err s rule: set_all.induct)
  case (1 obj err s)
  then show ?case by (simp add: set_all.simps)
next
  case (2 obj key mandatory f ds err s)
  show ?case
  proof (cases "json_object_object_get_ex obj key")
    case None
    with "2.IH"(1) show ?thesis by (simp add: set_all.simps)
  next
    case (Some val)
    with "2.IH"(2) show ?thesis by (cases "set_value f val s") (auto simp: set_all.simps split: prod.split)
  qed
qed

lemma set_all_accepts:
  "list_all (step_accepts obj) ds \<Longrightarrow> filling s \<Longrightarrow> \<exists>s'. set_all obj ds 0 s = Inr (0, s') \<and> filling s'"
proof (induction ds arbitrary: s)
  case Nil
  then show ?case by (simp add: set_all.simps)
next
  case (Cons d ds)
  obtain key m f where d: "d = (key, m, f)" by (cases d)
  from Cons.prems(1) d consider "json_object_object_get_ex obj key = None" "\<not> m"
    | val s1 where "json_object_object_get_ex obj key = Some val" "set_value f val s = Inr (Some 0, s1)" "filling s1"
    using Cons.prems(2) by (auto simp: step_accepts_def)
  then show ?case
  proof cases
    case 1
    with Cons d show ?thesis by (simp add: set_all.simps)
  next
    case 2
    with Cons d show ?thesis by (simp add: set_all.simps)
  qed
qed

lemma on_wifi_accepts:
  assumes "keeps_names f" "\<And>w. buffers_ok w \<Longrightarrow> \<exists>w'. f w v = Inr (0, w') \<and> buffers_ok w'" "filling s"
  shows "\<exists>s'. on_wifi f v s = Inr (0, s') \<and> filling s'"
proof -
  from assms(2,3) obtain w where w: "f (wifi s) v = Inr (0, w)" "buffers_ok w" by (meson filling_def)
  have "names_ok (s\<lparr>wifi := w\<rparr>) = names_ok s"
    using assms(1) w(1) by (intro names_ok_fields) (auto simp: keeps_names_def)
  with assms(3) w show ?thesis by (auto simp: on_wifi_def filling_def)
qed

lemma text_step_accepts:
  assumes "keeps_names f" "\<And>w v. buffers_ok w \<Longrightarrow> length_check lo hi v = 0 \<Longrightarrow> \<exists>w'. f w v = Inr (0, w') \<and> P w w' v \<and> buffers_ok w'"
    and "json_object_object_get_ex obj key = None \<and> \<not> m \<or> valid_text obj key lo hi"
  shows "step_accepts obj (key, m, Set_s (on_wifi f :: _ \<Rightarrow> 'a ap_scheme \<Rightarrow> _))"
proof (cases "json_object_object_get_ex obj key = None \<and> \<not> m")
  case False
  with assms(3) obtain v where v: "json_object_object_get_ex obj key = Some (JString v)" "lo \<le> strlen v" "strlen v \<le> hi"
    by (auto simp: valid_text_def split: option.splits json.splits)
  have "\<exists>s'. set_value (Set_s (on_wifi f)) (JString v) s = Inr (Some 0, s') \<and> filling s'" if "filling s" for s :: "'a ap_scheme"
    using on_wifi_accepts [OF assms(1) _ that, of "Some v"] assms(2) [of _ "Some v"] v
    by (fastforce simp: set_value_def length_check_0)
  with v show ?thesis by (auto simp: step_accepts_def)
qed (auto simp: step_accepts_def)

lemma name_accepts:
  fixes s :: "'a ap_scheme"
  assumes "calm E" "filling s" "cstr v \<noteq> []"
  shows "\<exists>s'. setInterfaceNameParameter E (Some v) s = Inr (0, s') \<and> filling s'"
    "\<exists>s'. setDomainNameParameter E (Some v) s = Inr (0, s') \<and> filling s'"
    "\<exists>s'. setHostNameParameter E (Some v) s = Inr (0, s') \<and> filling s'"
proof -
  have a: "set_string_copy E dest (Some v) s = Inr (r, p, s') \<Longrightarrow> r = 0" for dest r p s'
    using assms(1,3) by (auto simp: set_string_copy_def strdup_def calm_ask)
  note f = name_setters_fill [of E, unfolded fills_def, rule_format, OF assms(2), of "Some v"]
  show "\<exists>s'. setInterfaceNameParameter E (Some v) s = Inr (0, s') \<and> filling s'"
    using f(1) a by (fastforce simp: setInterfaceNameParameter_def)
  show "\<exists>s'. setDomainNameParameter E (Some v) s = Inr (0, s') \<and> filling s'"
    using f(2) a by (fastforce simp: setDomainNameParameter_def)
  show "\<exists>s'. setHostNameParameter E (Some v) s = Inr (0, s') \<and> filling s'"
    using f(3) a by (fastforce simp: setHostNameParameter_def)
qed

lemma name_step_accepts:
  assumes "\<And>v s :: 'a ap_scheme. filling s \<Longrightarrow> cstr v \<noteq> [] \<Longrightarrow> \<exists>s'. g (Some v) s = Inr (0, s') \<and> filling s'" "valid_name obj key"
  shows "step_accepts obj (key, m, Set_s g)"
  using assms by (fastforce simp: step_accepts_def valid_name_def set_value_def split: option.splits json.splits)

lemma set_number:
  assumes "0 \<le> i" "i < 2 ^ 32"
  shows "set_value (Set_u g) (JInt i) s = bindE (g (word_of_nat (nat i)) s) (\<lambda>(sts, s'). Inr (Some sts, s'))"
proof -
  have "json_object_get_int64 i = i" using assms by (simp add: json_object_get_int64_def)
  with assms show ?thesis by (simp add: set_value_def)
qed

lemma valid_number_at:
  "valid_number obj key \<Longrightarrow> \<exists>i. json_object_object_get_ex obj key = Some (JInt i) \<and> 0 \<le> i \<and> i < 2 ^ 32 \<and> number_of obj key = nat i"
  by (auto simp: valid_number_def number_of_def split: option.splits json.splits)

lemma first_steps_accept:
  assumes "calm E" "valid_config obj"
  shows "list_all (step_accepts obj) (take 14 (descs E :: (string \<times> bool \<times> 'a ap_scheme setter) list))"
proof -
  note c = assms(2) [unfolded valid_config_def]
  have n: "step_accepts obj (''interfaceName'', True, Set_s (setInterfaceNameParameter E) :: 'a ap_scheme setter)"
    "step_accepts obj (''domaine_name'', True, Set_s (setDomainNameParameter E) :: 'a ap_scheme setter)"
    "step_accepts obj (''hostname'', True, Set_s (setHostNameParameter E) :: 'a ap_scheme setter)"
    by (rule name_step_accepts, erule (1) name_accepts [OF assms(1)], simp add: c)+
  have p: "step_accepts obj (''securityProtocol'', True, Set_s (on_wifi setSecurityProtocolParameter) :: 'a ap_scheme setter)"
  proof -
    from c obtain v where v: "json_object_object_get_ex obj ''securityProtocol'' = Some (JString v)"
      "strcasecmp_eq v ''none'' \<or> strcasecmp_eq v ''WPA2''" 
      by (auto simp: valid_protocol_def split: option.splits json.splits)
    have "\<exists>s'. on_wifi setSecurityProtocolParameter (Some v) s = Inr (0, s') \<and> filling s'" if "filling s" for s :: "'a ap_scheme"
      by (rule on_wifi_accepts [OF setters_keep_names(8) _ that])
        (use v(2) in \<open>auto simp: setSecurityProtocolParameter_def buffers_ok_def\<close>)
    with v(1) show ?thesis by (fastforce simp: step_accepts_def set_value_def)
  qed
  have d: "step_accepts obj (''discoverable'', True, Set_b (on_wifi setDiscoverableParameter) :: 'a ap_scheme setter)"
  proof -
    from c obtain b where b: "json_object_object_get_ex obj ''discoverable'' = Some (JBool b)"
      by (auto simp: valid_flag_def split: option.splits json.splits)
    have "\<exists>s'. on_wifi setDiscoverableParameter b s = Inr (0, s') \<and> filling s'" if "filling s" for s :: "'a ap_scheme"
      by (rule on_wifi_accepts [OF setters_keep_names(9) _ that]) (simp add: setDiscoverableParameter_def buffers_ok_def)
    with b show ?thesis by (fastforce simp: step_accepts_def set_value_def)
  qed
  have u: "step_accepts obj (''maxNumberClient'', True, Set_u (on_wifi setMaxNumberClients) :: 'a ap_scheme setter)"
  proof -
    from c valid_number_at [of obj "''maxNumberClient''"] obtain i where
      i: "json_object_object_get_ex obj ''maxNumberClient'' = Some (JInt i)" "0 \<le> i" "i < 2 ^ 32"
      "clients_check (word_of_nat (nat i)) = 0" by auto
    have "\<exists>s'. on_wifi setMaxNumberClients (word_of_nat (nat i)) s = Inr (0, s') \<and> filling s'" if "filling s" for s :: "'a ap_scheme"
      by (rule on_wifi_accepts [OF setters_keep_names(10) _ that]) (use maxclients.accepts i(4) in blast)
    with i(1-3) show ?thesis by (fastforce simp: step_accepts_def set_number)
  qed
  have a: "step_accepts obj (''ssid'', True, Set_s (on_wifi setSsidParameter) :: 'a ap_scheme setter)"
    by (rule text_step_accepts [OF setters_keep_names(1) ssid.accepts]) (use c in auto)
  have b: "step_accepts obj (''passphrase'', True, Set_s (on_wifi setPassPhraseParameter) :: 'a ap_scheme setter)"
    "step_accepts obj (''preSharedKey'', False, Set_s (on_wifi setPassPhraseParameter) :: 'a ap_scheme setter)"
    by (rule text_step_accepts [OF setters_keep_names(2) pass.accepts], simp, simp, use c in auto)+
  have e: "step_accepts obj (''countryCode'', True, Set_s (on_wifi setCountryCodeParameter) :: 'a ap_scheme setter)"
    by (rule text_step_accepts [OF setters_keep_names(3) country.accepts]) (use c in auto)
  have f: "step_accepts obj (''ip_ap'', True, Set_s (on_wifi setIpApParameter) :: 'a ap_scheme setter)"
    by (rule text_step_accepts [OF setters_keep_names(4) ipap.accepts]) (use c in auto)
  have g: "step_accepts obj (''ip_start'', True, Set_s (on_wifi setIpStartParameter) :: 'a ap_scheme setter)"
    by (rule text_step_accepts [OF setters_keep_names(5) ipstart.accepts]) (use c in auto)
  have h: "step_accepts obj (''ip_stop'', True, Set_s (on_wifi setIpStopParameter) :: 'a ap_scheme setter)"
    by (rule text_step_accepts [OF setters_keep_names(6) ipstop.accepts]) (use c in auto)
  have i: "step_accepts obj (''ip_netmask'', True, Set_s (on_wifi setIpNetMaskParameter) :: 'a ap_scheme setter)"
    by (rule text_step_accepts [OF setters_keep_names(7) ipmask.accepts]) (use c in auto)
  show ?thesis unfolding descs_def using n a b e p f g h i d u by simp
qed

lemma ieee_channel_accept:
  fixes s :: "'a ap_scheme"
  assumes "filling s" "valid_config obj"
  shows "\<exists>s'. set_all obj (drop 14 (descs E)) 0 s = Inr (0, s')"
proof -
  note c = assms(2) [unfolded valid_config_def]
  from c valid_number_at [of obj "''IeeeStdMask''"] obtain i where
    i: "json_object_object_get_ex obj ''IeeeStdMask'' = Some (JInt i)" "0 \<le> i" "i < 2 ^ 32" "number_of obj ''IeeeStdMask'' = nat i"
    by auto
  from c valid_number_at [of obj "''channelNumber''"] obtain j where
    j: "json_object_object_get_ex obj ''channelNumber'' = Some (JInt j)" "0 \<le> j" "j < 2 ^ 32" "number_of obj ''channelNumber'' = nat j"
    by auto
  let ?w = "(wifi s)\<lparr>IeeeStdMask := word_of_nat (nat i)\<rparr>"
  have m: "mask_ok (word_of_nat (nat i))" using c i(4) by auto
  have "setIeeeStandardParameter (wifi s) (word_of_nat (nat i)) = Inr (0, ?w)"
    using m by (simp add: setIeeeStandardParameter_eq mask_check_0)
  then have 1: "set_value (Set_u (on_wifi setIeeeStandardParameter)) (JInt i) s = Inr (Some 0, s\<lparr>wifi := ?w\<rparr>)"
    using i by (simp add: set_number on_wifi_def)
  have "unat (word_of_nat (nat j) :: 32 word) = nat j" using j by (intro unat_number) (simp add: nat_less_iff)
  moreover have "in_range (doc_range (word_of_nat (nat i))) (nat j)" using c i(4) j(4) by auto
  ultimately have "setChannelParameter ?w (word_of_nat (nat j)) = Inr (0, (load_range ?w)\<lparr>channelNumber := ucast (word_of_nat (nat j) :: 32 word)\<rparr>)"
    using m by (simp add: setChannelParameter_eq mask_ok_def range_check_0 Let_def)
  then obtain w where 2: "set_value (Set_u (on_wifi setChannelParameter)) (JInt j) (s\<lparr>wifi := ?w\<rparr>) = Inr (Some 0, s\<lparr>wifi := w\<rparr>)"
    using j by (simp add: set_number on_wifi_def)
  have "drop 14 (descs E :: (string \<times> bool \<times> 'a ap_scheme setter) list) =
      [(''IeeeStdMask'', True, Set_u (on_wifi setIeeeStandardParameter)), (''channelNumber'', True, Set_u (on_wifi setChannelParameter))]"
    by (simp add: descs_def)
  with 1 2 i(1) j(1) show ?thesis by (simp add: set_all.simps)
qed

lemma accepts_valid:
  fixes s :: "'a ap_scheme"
  assumes "calm E" "blocks s = Map.empty" "valid_config obj"
  shows "\<exists>s'. createWifiApData E obj s = Inr (True, s')"
proof -
  let ?s = "s\<lparr>calls := calls s @ [Calloc], wifi := zero_wifi\<rparr>" and ?d = "descs E :: (string \<times> bool \<times> 'a ap_scheme setter) list"
  have "filling ?s" using zero_filling [of "s\<lparr>calls := calls s @ [Calloc]\<rparr>"] assms(2) by simp
  from set_all_accepts [OF first_steps_accept [OF assms(1,3)] this] obtain s1 where
    s1: "set_all obj (take 14 ?d) 0 ?s = Inr (0, s1)" "filling s1" by blast
  from ieee_channel_accept [OF s1(2) assms(3), of E] obtain s2 where "set_all obj (drop 14 ?d) 0 s1 = Inr (0, s2)" by blast
  with s1(1) set_all_append [of obj "take 14 ?d" "drop 14 ?d" 0 ?s] have "set_all obj ?d 0 ?s = Inr (0, s2)" by simp
  then show ?thesis by (simp add: createWifiApData_def calm_ask [OF assms(1)] Let_def)
qed


section \<open>Properties\<close>

lemma created_result:
  assumes "blocks s = Map.empty" "createWifiApData E obj s = Inr (True, s')"
  shows "filling s' \<and> names_stored obj s' \<and> values_stored obj (wifi s') \<and> values_checked (wifi s') \<and>
    status (wifi s') = Status_init \<and> cstr (presharedKey (wifi s')) = []"
proof -
  obtain r s1 where s1: "ask E Calloc s = (r, s1)" by fastforce
  from assms(2) s1 obtain s2 where s2: "set_all obj (descs E) 0 (s1\<lparr>wifi := zero_wifi\<rparr>) = Inr (0, s2)"
    "s' = snd (ask E (New_event ''client-state'') s2)"
    by (auto simp: createWifiApData_def split_beta Let_def split: if_splits)
  have "blocks s1 = Map.empty" using assms(1) s1 by (auto simp: ask_def)
  then have "names_ok (s1\<lparr>wifi := zero_wifi\<rparr>)" using zero_filling [of s1] by (simp add: filling_def)
  note r = set_all_result [OF s2(1) this]
  have w: "wifi s' = wifi s2" "\<And>p. deref p s' = deref p s2" using s2(2) deref_cong [of s' s2] by (simp_all add: ask_def)
  have "filling s'" using createWifiApData_total [OF assms(1), of E obj] assms(2) by auto
  with r w show ?thesis by (simp add: names_stored_def)
qed

lemma checked_binding_ok: "filling s \<Longrightarrow> values_checked (wifi s) \<Longrightarrow> binding_ok s"
  by (simp add: filling_def values_checked_def binding_ok_def params_ok_def)

text \<open>
  C8. Any JSON value given as the configuration is handled without leaving defined behaviour, with every answer of the
  environment. If the structure is handed over, all its parameters are validated, its names are the only heap
  blocks, and every parameter of the table of keys holds the value of its key, except that a value under \<open>preSharedKey\<close> is
  in the passphrase (in place of that of \<open>passphrase\<close>) and the pre-shared key stays empty; otherwise nothing is left on the heap. When
  no call fails, every valid configuration (each mandatory key present with a value its setter accepts) is handed over.
\<close>

theorem createWifiApData_outcome:
  assumes "blocks s = Map.empty"
  shows "\<exists>created s'. createWifiApData E obj s = Inr (created, s') \<and>
    (if created then binding_ok s' \<and> names_stored obj s' \<and> values_stored obj (wifi s') \<and> values_checked (wifi s') \<and>
       cstr (presharedKey (wifi s')) = []
     else blocks s' = Map.empty) \<and>
    (calm E \<and> valid_config obj \<longrightarrow> created)"
proof -
  from createWifiApData_total [OF assms, of E obj] obtain created s' where
    c: "createWifiApData E obj s = Inr (created, s')" "if created then filling s' else blocks s' = Map.empty" by blast
  have v: "calm E \<and> valid_config obj \<longrightarrow> created" using accepts_valid [OF _ assms, of E obj] c(1) by auto
  show ?thesis
  proof (cases created)
    case True
    with c v created_result [OF assms, of E obj s'] checked_binding_ok [of s'] show ?thesis by auto
  qed (use c v in auto)
qed

text \<open>The default configuration of the repository.\<close>

definition default_config :: json where
  "default_config = JObject
     [(''uid'', JString ''wifi-ap-config''),
      (''info'', JString ''Initialize WiFi access point with the default configuration''),
      (''startAtInit'', JBool False), (''interfaceName'', JString ''wlan0''),
      (''ssid'', JString ''IOTBZH-Datahub''), (''hostname'', JString ''localhost''), (''domaine_name'', JString ''iotbzh''),
      (''channelNumber'', JInt 6), (''discoverable'', JBool True), (''IeeeStdMask'', JInt 4),
      (''securityProtocol'', JString ''WPA2''), (''passphrase'', JString ''default1234''), (''countryCode'', JString ''FR''),
      (''maxNumberClient'', JInt 100), (''ip_ap'', JString ''192.168.7.1''), (''ip_start'', JString ''192.168.7.2''),
      (''ip_stop'', JString ''192.168.7.254''), (''ip_netmask'', JString ''255.255.255.0'')]"

definition fresh_service :: service where
  "fresh_service = idle_service\<lparr>blocks := Map.empty, brk := 0, wifi := zero_wifi\<rparr>"

lemma valid_default_config: "valid_config default_config"
  by code_simp

theorem createWifiApData_outcome_witness:
  "\<exists>s'. createWifiApData calm_env default_config fresh_service = Inr (True, s') \<and> binding_ok s' \<and>
    cstr (ssid (wifi s')) = ''IOTBZH-Datahub'' \<and> cstr (passphrase (wifi s')) = ''default1234'' \<and>
    cstr (presharedKey (wifi s')) = [] \<and> unat (maxNumberClient (wifi s')) = 100"
proof -
  have e: "blocks fresh_service = Map.empty" by (simp add: fresh_service_def)
  from createWifiApData_outcome [OF e, of calm_env default_config] valid_default_config calm_calm_env obtain s' where
    s': "createWifiApData calm_env default_config fresh_service = Inr (True, s')" "binding_ok s'"
      "values_stored default_config (wifi s')" "cstr (presharedKey (wifi s')) = []"
    by auto
  have k: "passphrase_key default_config = ''passphrase''"
    "json_object_object_get_ex default_config ''ssid'' = Some (JString ''IOTBZH-Datahub'')"
    "json_object_object_get_ex default_config ''passphrase'' = Some (JString ''default1234'')"
    by code_simp+
  have n: "json_object_object_get_ex default_config ''maxNumberClient'' = Some (JInt 100)" by code_simp
  have v: "text_value default_config ''ssid'' (cstr (ssid (wifi s')))" "text_value default_config ''passphrase'' (cstr (passphrase (wifi s')))"
    "number_value default_config ''maxNumberClient'' (unat (maxNumberClient (wifi s')))"
    using s'(3) unfolding values_stored_def k(1) by blast+
  have "cstr (ssid (wifi s')) = ''IOTBZH-Datahub''" using v(1) unfolding text_value_def k(2) by simp
  moreover have "cstr (passphrase (wifi s')) = ''default1234''" using v(2) unfolding text_value_def k(3) by simp
  moreover have "unat (maxNumberClient (wifi s')) = 100" using v(3) unfolding number_value_def n option.inject json.inject by linarith
  ultimately show ?thesis using s'(1,2,4) by blast
qed

section \<open>The initialisation touches nothing else\<close>

definition keeps_rest :: "('v \<Rightarrow> 'a ap_scheme \<Rightarrow> fault + (int \<times> 'a ap_scheme)) \<Rightarrow> bool" where
  "keeps_rest f \<longleftrightarrow> (\<forall>v s r s'. f v s = Inr (r, s') \<longrightarrow> ap.more s' = ap.more s \<and> files s' = files s)"

definition setter_keeps_rest :: "'a ap_scheme setter \<Rightarrow> bool" where
  "setter_keeps_rest f = (case f of Set_s g \<Rightarrow> keeps_rest g | Set_u g \<Rightarrow> keeps_rest g | Set_b g \<Rightarrow> keeps_rest g)"

lemma on_wifi_rest: "keeps_rest (on_wifi f)"
  by (auto simp: keeps_rest_def on_wifi_def)

lemma set_string_copy_rest:
  "set_string_copy E dest src s = Inr (r, p, s') \<Longrightarrow> strings.more s' = strings.more s \<and> files s' = files s"
  by (auto simp: set_string_copy_def strdup_def ask_def free_block_def Let_def split: option.splits if_splits)

lemma name_setters_rest:
  "keeps_rest (setInterfaceNameParameter E)" "keeps_rest (setDomainNameParameter E)" "keeps_rest (setHostNameParameter E)"
  unfolding keeps_rest_def setInterfaceNameParameter_def setDomainNameParameter_def setHostNameParameter_def
  by (auto dest!: set_string_copy_rest dest: ap_more)

lemma set_value_rest:
  "setter_keeps_rest f \<Longrightarrow> set_value f val s = Inr (r, s') \<Longrightarrow> ap.more s' = ap.more s \<and> files s' = files s"
  by (cases f; cases val) (auto simp: setter_keeps_rest_def keeps_rest_def set_value_def Let_def split: if_splits)

lemma set_all_rest:
  "list_all (\<lambda>(_, _, f). setter_keeps_rest f) ds \<Longrightarrow> set_all obj ds err s = Inr (n, s') \<Longrightarrow>
     ap.more s' = ap.more s \<and> files s' = files s"
proof (induction obj ds err s rule: set_all.induct)
  case (2 obj key mandatory f ds err s)
  show ?case
  proof (cases "json_object_object_get_ex obj key")
    case None
    with 2 show ?thesis by (simp add: set_all.simps)
  next
    case (Some val)
    with "2.prems" obtain r s1 where s1: "set_value f val s = Inr (r, s1)"
      "set_all obj ds (if r = Some WIFIAP_NO_ERROR then err else err + 1) s1 = Inr (n, s')"
      by (auto simp: set_all.simps)
    with 2 Some set_value_rest [of f val s r s1] show ?thesis by simp
  qed
qed (simp add: set_all.simps)

lemma descs_rest: "list_all (\<lambda>(_, _, f). setter_keeps_rest f) (descs E)"
  unfolding descs_def list.pred_inject setter_keeps_rest_def
  by (intro conjI TrueI; simp add: name_setters_rest on_wifi_rest)

lemma created_rest:
  assumes "createWifiApData E obj s = Inr (True, s')"
  shows "ap.more s' = ap.more s \<and> files s' = files s"
proof -
  obtain r s1 where s1: "ask E Calloc s = (r, s1)" by fastforce
  from assms s1 obtain s2 where s2: "set_all obj (descs E) 0 (s1\<lparr>wifi := zero_wifi\<rparr>) = Inr (0, s2)"
    "s' = snd (ask E (New_event ''client-state'') s2)"
    by (auto simp: createWifiApData_def split_beta Let_def split: if_splits)
  from set_all_rest [OF descs_rest s2(1)] s1 s2(2) show ?thesis by (auto simp: ask_def)
qed

section \<open>The control function\<close>

definition address_of :: "json \<Rightarrow> string \<Rightarrow> 32 word option" where
  "address_of obj key = (case json_object_object_get_ex obj key of Some (JString a) \<Rightarrow> inet_pton a | _ \<Rightarrow> None)"

definition valid_addresses :: "json \<Rightarrow> bool" where
  "valid_addresses obj \<longleftrightarrow>
     (case (address_of obj ''ip_ap'', address_of obj ''ip_start'', address_of obj ''ip_stop'', address_of obj ''ip_netmask'') of
        (Some ap, Some lo, Some hi, Some nm) \<Rightarrow> \<not> (min lo hi \<le> ap \<and> ap \<le> max lo hi)
      | _ \<Rightarrow> False)"

lemma stored_address: "text_value obj key (cstr b) \<Longrightarrow> inet_pton b = address_of obj key"
  by (auto simp: text_value_def address_of_def inet_pton_def)

lemma stored_addresses: "valid_addresses obj \<Longrightarrow> values_stored obj w \<Longrightarrow> addresses_ok w"
  by (auto simp: valid_addresses_def addresses_ok_def values_stored_def stored_address split: option.splits)

lemma created_startable:
  assumes "filling s" "names_stored obj s" "values_stored obj (wifi s)" "values_checked (wifi s)" "valid_addresses obj"
  shows "startable s"
  using assms stored_addresses [OF assms(5,3)]
  by (auto simp: startable_def names_set_def names_stored_def iface_def values_checked_def filling_def params_ok_def)

lemma threads_ok_rest: "ap.more s' = ap.more s \<Longrightarrow> threads_ok (s' :: 'a service_scheme) = threads_ok s"
proof -
  assume "ap.more s' = ap.more s"
  then have "objects s' = objects s" "next_obj s' = next_obj s" "threadList s' = threadList s" "Mutex s' = Mutex s"
    by (cases s; cases s'; simp)+
  then show ?thesis by (simp add: threads_ok_def)
qed

lemma kept_started:
  assumes "kept s s'" "values_stored obj (wifi s)" "names_stored obj s"
  shows "values_stored obj (wifi s') \<and> names_stored obj s'"
proof -
  from assms(1) obtain st where w: "wifi s' = (wifi s)\<lparr>status := st\<rparr>" and "blocks s' = blocks s" by (auto simp: kept_def)
  then have "deref p s' = deref p s" for p by (intro deref_cong)
  with w assms(2,3) show ?thesis by (simp add: values_stored_def names_stored_def)
qed

lemma hostapd_conf_status: "hostapd_conf (w\<lparr>status := st\<rparr>) = hostapd_conf w"
  by (cases "securityProtocol w") (simp_all add: hostapd_conf_def hostapd_chunks_def common_text_def security_text_def)

lemma started_at_init:
  assumes "threads_ok s" "binding_ok s" "values_stored obj (wifi s)" "names_stored obj s" "startAp E s = Inr (q, s')"
  shows "binding_ok s' \<and> values_stored obj (wifi s') \<and> names_stored obj s' \<and>
    (if q < 0 then status (wifi s') = Status_fail else threads_ok s' \<and> status (wifi s') = Status_started)"
  using kept_binding [OF kept_startAp [OF assms(5)] assms(2)] kept_started [OF kept_startAp [OF assms(5)] assms(3,4)]
    startAp_outcome [OF assms(1,5)]
  by (auto simp: start_succeeded_def start_failed_def set_status_def)

text \<open>
  C24. What the control function leaves, for any configuration file and every answer of the environment: a result of 0
  for the initialisation means that the parameters are those of the section \<open>config\<close> and the state is
  well-formed, and a result of -1 that nothing is on the heap or that the start failed and the status says so. Other
  control calls do nothing.
\<close>

theorem binding_ctl_outcome:
  assumes "blocks s = Map.empty" "threads_ok s" "binding_ctl E json ctl s = Inr (r, s')"
  shows "if ctl = afb_ctlid_other then r = 0 \<and> s' = s
    else (r = 0 \<and> (\<exists>root config. json = Some root \<and> json_object_object_get_ex root ''config'' = Some config \<and>
            binding_ok s' \<and> threads_ok s' \<and> values_stored config (wifi s') \<and> names_stored config s' \<and>
            status (wifi s') = (if startAtInit config then Status_started else Status_init))) \<or>
         (r = - 1 \<and> (blocks s' = Map.empty \<or> binding_ok s' \<and> status (wifi s') = Status_fail))"
proof (cases "ctl = afb_ctlid_other")
  case True
  with assms(3) show ?thesis by (simp add: binding_ctl_def)
next
  case False
  then have ctl: "ctl = afb_ctlid_Init" by (cases ctl) simp_all
  show ?thesis
  proof (cases "\<exists>root config. json = Some root \<and> json_object_object_get_ex root ''config'' = Some config")
    case False
    with assms(1,3) ctl show ?thesis by (auto simp: binding_ctl_def split: option.splits)
  next
    case True
    then obtain root config where c: "json = Some root" "json_object_object_get_ex root ''config'' = Some config" by blast
    from createWifiApData_total [OF assms(1), of E config] obtain created s1 where
      s1: "createWifiApData E config s = Inr (created, s1)" "if created then filling s1 else blocks s1 = Map.empty" by blast
    show ?thesis
    proof (cases created)
      case False
      with s1 c ctl assms(3) show ?thesis by (simp add: binding_ctl_def)
    next
      case True
      then have new: "createWifiApData E config s = Inr (True, s1)" using s1(1) by simp
      note r = created_result [OF assms(1) new]
      have t: "threads_ok s1" using created_rest [OF new] threads_ok_rest [of s1 s] assms(2) by simp
      have b: "binding_ok s1" using r checked_binding_ok by blast
      show ?thesis
      proof (cases "startAtInit config")
        case False
        with s1 c ctl assms(3) True r t b show ?thesis by (auto simp: binding_ctl_def)
      next
        case start: True
        with s1(1) c ctl assms(3) True obtain q where q: "startAp E s1 = Inr (q, s')" "r = (if q < 0 then - 1 else 0)"
          by (auto simp: binding_ctl_def)
        with started_at_init [OF t b _ _ q(1), of config] r start c ctl show ?thesis by (auto split: if_splits)
      qed
    qed
  qed
qed

text \<open>
  C4. From the configuration file to the running access point: with a valid configuration, four valid addresses and
  \<open>startAtInit\<close>, in an environment where every call succeeds, the initialisation returns 0, the status is started
  and the parameters are the configured ones. When the platform commands for the configured interface do to the files what \<open>wifi_setup.sh\<close> does,
  then the hosts file and hostapd.conf hold exactly the texts of these parameters, and dnsmasq's file its text followed by the
  line with the interface that the script appends.
\<close>

theorem init_brings_the_access_point_up:
  assumes "calm E" "threads_ok s" "blocks s = Map.empty" "json_object_object_get_ex root ''config'' = Some config"
    "valid_config config" "valid_addresses config" "startAtInit config"
  shows "\<exists>s' h d i. binding_ctl E (Some root) afb_ctlid_Init s = Inr (0, s') \<and> status (wifi s') = Status_started \<and>
    values_stored config (wifi s') \<and> text_value config ''hostname'' h \<and> text_value config ''domaine_name'' d \<and>
    text_value config ''interfaceName'' i \<and>
    (obedient E i \<longrightarrow>
      files s' HOSTS_FILE = Some (hosts_text (cstr (ip_ap (wifi s'))) h) \<and>
      files s' DNSMASQ_FILE =
        Some (dnsmasq_text (cstr (ip_ap (wifi s'))) (cstr (ip_start (wifi s'))) (cstr (ip_stop (wifi s'))) d @ interface_line i) \<and>
      files s' WIFI_HOSTAPD_FILE = Some (hostapd_conf (wifi s')))"
proof -
  obtain s1 where s1: "createWifiApData E config s = Inr (True, s1)"
    using accepts_valid [OF assms(1,3,5)] by blast
  note r = created_result [OF assms(3) s1] and f = created_rest [OF s1]
  have t: "threads_ok s1" using assms(2) f threads_ok_rest by blast
  have "startable s1" using r assms(6) created_startable by blast
  from calm_startAp [OF assms(1) t this] obtain s' u i h d where s': "startAp E s1 = Inr (0, s')" "start_succeeded s1 0 s'"
    "iface s1 = Inr i" "deref (hostName (wifi s1)) s1 = Inr h" "deref (domainName (wifi s1)) s1 = Inr d"
    "obedient E i \<longrightarrow> files s' HOSTS_FILE = Some (hosts_text (cstr (ip_ap (wifi s1))) h) \<and>
      files s' DNSMASQ_FILE =
        Some (dnsmasq_text (cstr (ip_ap (wifi s1))) (cstr (ip_start (wifi s1))) (cstr (ip_stop (wifi s1))) d @ interface_line i) \<and>
      files s' WIFI_HOSTAPD_FILE = Some (hostapd_conf (wifi s1))" by blast
  have w: "wifi s' = (wifi s1)\<lparr>status := Status_started\<rparr>" using s'(2) by (simp add: start_succeeded_def)
  have "text_value config ''hostname'' h" "text_value config ''domaine_name'' d" "text_value config ''interfaceName'' i"
    using r s'(3-5) by (auto simp: names_stored_def iface_def)
  moreover have "binding_ctl E (Some root) afb_ctlid_Init s = Inr (0, s')"
    using assms(4,7) s1 s'(1) by (simp add: binding_ctl_def)
  moreover have "values_stored config (wifi s')" using r w by (simp add: values_stored_def)
  ultimately show ?thesis using s'(6) w by (auto simp: hostapd_conf_status)
qed

text \<open>
  C38. The configuration key \<open>preSharedKey\<close> does not set the pre-shared key: its value replaces the passphrase and the
  pre-shared key stays empty, so a key of 64 hexadecimal digits makes the initialisation fail.
\<close>

theorem config_preshared_key_is_a_passphrase:
  assumes "blocks s = Map.empty" "json_object_object_get_ex obj ''preSharedKey'' = Some (JString k)"
    "createWifiApData E obj s = Inr (created, s')"
  shows "(created \<longrightarrow> cstr (passphrase (wifi s')) = cstr k \<and> cstr (presharedKey (wifi s')) = []) \<and>
    (63 < strlen k \<longrightarrow> \<not> created)"
proof -
  have "cstr (passphrase (wifi s')) = cstr k \<and> cstr (presharedKey (wifi s')) = [] \<and> strlen k \<le> 63" if created
  proof -
    from that assms(3) have "createWifiApData E obj s = Inr (True, s')" by simp
    note r = created_result [OF assms(1) this]
    have p: "cstr (passphrase (wifi s')) = cstr k"
      using r assms(2) by (auto simp: values_stored_def passphrase_key_def text_value_def)
    have "strlen (passphrase (wifi s')) \<le> 63" using r checked_binding_ok [of s'] params_ok_buffers [of "wifi s'"] by (simp add: binding_ok_def)
    with p r show ?thesis by (simp add: strlen_def)
  qed
  then show ?thesis by (cases created) auto
qed

text \<open>The default configuration with \<open>startAtInit\<close> set, and with a pre-shared key.\<close>

definition start_config :: json where
  "start_config = (case default_config of
     JObject kvs \<Rightarrow> JObject (map (\<lambda>(k, v). (k, if k = ''startAtInit'' then JBool True else v)) kvs) | j \<Rightarrow> j)"

definition psk_config :: json where
  "psk_config = (case default_config of JObject kvs \<Rightarrow> JObject (kvs @ [(''preSharedKey'', JString (replicate 64 CHR ''a''))]) | j \<Rightarrow> j)"

lemma start_config_ok: "valid_config start_config" "valid_addresses start_config" "startAtInit start_config"
  by code_simp+

lemma fresh_ok: "threads_ok fresh_service" "blocks fresh_service = Map.empty"
  by (simp_all add: threads_ok_def fresh_service_def idle_service_def)

theorem init_brings_the_access_point_up_witness:
  "\<exists>s' d. binding_ctl script_env (Some (JObject [(''config'', start_config)])) afb_ctlid_Init fresh_service = Inr (0, s') \<and>
    status (wifi s') = Status_started \<and> files s' HOSTS_FILE = Some (''192.168.7.1 localhost'' @ [NL]) \<and>
    files s' DNSMASQ_FILE = Some (d @ ''interface=wlan0'' @ [NL])"
proof -
  have c: "json_object_object_get_ex (JObject [(''config'', start_config)]) ''config'' = Some start_config"
    by (simp add: json_object_object_get_ex_def)
  have k: "json_object_object_get_ex start_config ''interfaceName'' = Some (JString ''wlan0'')"
    "json_object_object_get_ex start_config ''hostname'' = Some (JString ''localhost'')"
    "json_object_object_get_ex start_config ''ip_ap'' = Some (JString ''192.168.7.1'')"
    by code_simp+
  from init_brings_the_access_point_up [OF script_env(1) fresh_ok c start_config_ok] obtain s' h d i where
    s': "binding_ctl script_env (Some (JObject [(''config'', start_config)])) afb_ctlid_Init fresh_service = Inr (0, s')"
      "status (wifi s') = Status_started" "values_stored start_config (wifi s')"
      "text_value start_config ''hostname'' h" "text_value start_config ''interfaceName'' i"
    and f: "obedient script_env i \<longrightarrow>
      files s' HOSTS_FILE = Some (hosts_text (cstr (ip_ap (wifi s'))) h) \<and>
      files s' DNSMASQ_FILE =
        Some (dnsmasq_text (cstr (ip_ap (wifi s'))) (cstr (ip_start (wifi s'))) (cstr (ip_stop (wifi s'))) d @ interface_line i)"
    by blast
  have v: "h = ''localhost''" "i = ''wlan0''" "cstr (ip_ap (wifi s')) = ''192.168.7.1''"
    using s'(3-5) k by (auto simp: values_stored_def text_value_def)
  from f [unfolded v] script_env(2) s'(1,2) show ?thesis by (auto simp: hosts_text_def interface_line_def)
qed

theorem binding_ctl_outcome_witness:
  "\<exists>r s'. binding_ctl calm_env (Some (JObject [(''config'', default_config)])) afb_ctlid_Init fresh_service = Inr (r, s') \<and>
    (r = - 1 \<and> (blocks s' = Map.empty \<or> status (wifi s') = Status_fail) \<or> r = 0 \<and> binding_ok s')"
proof -
  obtain c s' where "createWifiApData calm_env default_config fresh_service = Inr (c, s')"
    using createWifiApData_total [OF fresh_ok(2)] by blast
  moreover have "\<not> startAtInit default_config" by code_simp
  ultimately have "binding_ctl calm_env (Some (JObject [(''config'', default_config)])) afb_ctlid_Init fresh_service =
      Inr (if c then 0 else - 1, s')"
    by (simp add: binding_ctl_def json_object_object_get_ex_def)
  with binding_ctl_outcome [OF fresh_ok(2,1) this] show ?thesis by auto
qed

theorem config_preshared_key_is_a_passphrase_witness:
  "\<exists>s'. createWifiApData calm_env psk_config fresh_service = Inr (False, s')"
proof -
  obtain c s' where c: "createWifiApData calm_env psk_config fresh_service = Inr (c, s')"
    using createWifiApData_total [OF fresh_ok(2)] by blast
  have k: "json_object_object_get_ex psk_config ''preSharedKey'' = Some (JString (replicate 64 CHR ''a''))"
    "63 < strlen (replicate 64 CHR ''a'')" by code_simp+
  from config_preshared_key_is_a_passphrase [OF fresh_ok(2) k(1) c] k(2) c show ?thesis by auto
qed

end
