(* ===== verification/Binding.thy ===== *)
theory Binding
  imports Init
begin

text \<open>
  The binding as a whole: a process that starts with the control function of \<open>src/wifiAp.c\<close> and then takes steps, each a
  request or a piece of an event thread, in any order. Requests are whole steps; what the steps leave alone, the
  invariant of the states that can be reached, and the pieces of a thread against its whole routine.
\<close>

section \<open>Steps\<close>

text \<open>
  The event thread in pieces, so that requests can come between two lines of \<open>iw event\<close>: entering, up to the
  loop of \<open>WifiApThreadMainFunc\<close>, and reading one line, where the end of the stream ends the thread. \<open>IwThreadPipePtr\<close>
  is shared by all threads, as in the code; \<open>clients\<close> holds the counter of each thread that is in its loop.
\<close>

definition enter_thread :: "env \<Rightarrow> nat \<Rightarrow> 'a service_scheme \<Rightarrow> fault + 'a service_scheme" where
  "enter_thread E a s =
     bindE (thread_prologue E a s) (\<lambda>s1.
       let (pipe, s2) = popen E ''iw event'' s1; s3 = s2\<lparr>IwThreadPipePtr := pipe\<rparr> in
       case pipe of
         None \<Rightarrow> CleanupThread E (call_destructor E) a s3
       | Some _ \<Rightarrow> Inr (s3\<lparr>clients := (clients s3)(a \<mapsto> 0)\<rparr>))"

definition read_line :: "env \<Rightarrow> nat \<Rightarrow> int \<Rightarrow> string \<Rightarrow> 'a service_scheme \<Rightarrow> fault + 'a service_scheme" where
  "read_line E a n stream s =
     bindE (get_obj a s) (\<lambda>t.
       case fgets (PATH_MAX - 1) stream of
         None \<Rightarrow> CleanupThread E (call_destructor E) a (s\<lparr>IwThreadPipePtr := Some [], clients := (clients s)(a := None)\<rparr>)
       | Some (line, rest) \<Rightarrow>
           bindE (event_line E (threadContext t) line n s) (\<lambda>(n', s1).
             Inr (s1\<lparr>IwThreadPipePtr := Some rest, clients := (clients s1)(a \<mapsto> n')\<rparr>)))"

datatype action = Request env string "param list" | Enter env nat | Read env nat

text \<open>
  A step is a whole request, or a piece of a running thread. Every step brings its own environment, so commands may
  answer differently each time.
\<close>

inductive bstep :: "action \<Rightarrow> service \<Rightarrow> service \<Rightarrow> bool" where
  requested: "request E name ps s = Inr s' \<Longrightarrow> bstep (Request E name ps) s s'"
| entered: "objects s a = Some t \<Longrightarrow> threadState t = THREAD_STATE_RUNNING \<Longrightarrow> threadHandle t \<noteq> 0 \<Longrightarrow> clients s a = None \<Longrightarrow>
    enter_thread E a s = Inr s' \<Longrightarrow> bstep (Enter E a) s s'"
| lineread: "objects s a = Some t \<Longrightarrow> threadState t = THREAD_STATE_RUNNING \<Longrightarrow> clients s a = Some n \<Longrightarrow>
    IwThreadPipePtr s = Some stream \<Longrightarrow> read_line E a n stream s = Inr s' \<Longrightarrow> bstep (Read E a) s s'"

inductive_cases request_stepE: "bstep (Request E name ps) s s'"
inductive_cases enter_stepE: "bstep (Enter E a) s s'"
inductive_cases read_stepE: "bstep (Read E a) s s'"

inductive_simps bstep_simps: "bstep (Request E name ps) s s'" "bstep (Enter E a) s s'" "bstep (Read E a) s s'"

text \<open>The process before the framework calls the control function, with the files it finds.\<close>

definition boot :: "files \<Rightarrow> service" where
  "boot f = \<lparr>files = f, calls = [], blocks = Map.empty, brk = 0, wifi = zero_wifi, objects = Map.empty, next_obj = 0,
     threadList = [], Mutex = False, wifiApThreadPtr = None, IwThreadPipePtr = None, clients = Map.empty\<rparr>"

inductive reachable :: "service \<Rightarrow> bool" where
  initialised: "binding_ctl E json afb_ctlid_Init (boot f) = Inr (0, s) \<Longrightarrow> reachable s"
| stepped: "reachable s \<Longrightarrow> bstep l s s' \<Longrightarrow> reachable s'"

inductive runs :: "action list \<Rightarrow> service \<Rightarrow> service \<Rightarrow> bool" where
  none: "runs [] s s"
| more: "bstep l s t \<Longrightarrow> runs ls t u \<Longrightarrow> runs (l # ls) s u"

inductive_cases runs_ConsE: "runs (l # ls) s u"

section \<open>What a piece of the thread leaves alone\<close>

lemma push_frame: "push_json_event E m n s = s\<lparr>calls := calls (push_json_event E m n s)\<rparr>"
  by (simp add: push_json_event_def ask_def Let_def)

lemma event_line_frame:
  assumes "event_line E ctx line n s = Inr (n', s')"
  shows "s' = s\<lparr>calls := calls s'\<rparr>"
  using assms push_frame [of E _ _ s]
  by (auto simp: event_line_def Let_def split: if_splits option.splits)

lemma push_cong:
  "calls u = calls s \<Longrightarrow> push_json_event E m n u = u\<lparr>calls := calls (push_json_event E m n s)\<rparr>"
  by (simp add: push_json_event_def ask_def Let_def)

lemma event_line_cong:
  fixes s :: "'a strings_scheme" and u :: "'b strings_scheme"
  assumes "event_line E ctx line n s = Inr (n', s')" "blocks u = blocks s" "calls u = calls s"
  shows "event_line E ctx line n u = Inr (n', u\<lparr>calls := calls s'\<rparr>)"
proof -
  have d: "deref ctx u = deref ctx s" using assms(2) by (simp add: deref_def split: option.split)
  have c: "u = u\<lparr>calls := calls s\<rparr>" using assms(3) [symmetric] by simp
  show ?thesis
    using assms(1) push_cong [OF assms(3), of E] c
    by (auto simp: event_line_def Let_def d split: if_splits option.splits)
qed

lemma thread_prologue_part:
  assumes "thread_prologue E a s = Inr (s' :: 'a service_scheme)"
  shows "wifi s' = wifi s \<and> blocks s' = blocks s \<and> brk s' = brk s \<and> wifiApThreadPtr s' = wifiApThreadPtr s \<and> clients s' = clients s"
  using assms by (auto simp: thread_prologue_def Let_def ask_def put_obj_def)

lemma kept_enter:
  assumes "enter_thread E a s = Inr s'"
  shows "kept s s'"
proof -
  obtain s1 pipe s2 where s1: "thread_prologue E a s = Inr s1" and s2: "popen E ''iw event'' s1 = (pipe, s2)"
    using assms by (fastforce simp: enter_thread_def)
  have k: "kept s (s2\<lparr>IwThreadPipePtr := p\<rparr>)" "kept s (s2\<lparr>IwThreadPipePtr := p, clients := c\<rparr>)" for p c
    using thread_prologue_part [OF s1] registry_prologue [OF s1] s2 by (auto intro!: kept_plain simp: popen_def split_beta Let_def ask_def)
  have c: "kept s u" if "CleanupThread E (call_destructor E) a t = Inr u" "kept s t" for t u
    by (rule kept_trans [OF that(2) kept_thread [OF thread_silent(6) [OF that(1)] registry_CleanupThread [OF tame_destructor that(1)]]])
  from assms s1 s2 k c show ?thesis by (auto simp: enter_thread_def Let_def split: option.splits)
qed

lemma kept_read:
  assumes "read_line E a n stream s = Inr s'"
  shows "kept s s'"
proof -
  have c: "kept s u" if "CleanupThread E (call_destructor E) a t = Inr u" "kept s t" for t u
    by (rule kept_trans [OF that(2) kept_thread [OF thread_silent(6) [OF that(1)] registry_CleanupThread [OF tame_destructor that(1)]]])
  have l: "kept s (u\<lparr>IwThreadPipePtr := p, clients := q\<rparr>)" if "event_line E x line n s = Inr (m, u)" for x line m u p q
  proof -
    have "u = s\<lparr>calls := calls u\<rparr>" by (rule event_line_frame [OF that])
    then obtain h where "u = s\<lparr>calls := h\<rparr>" by blast
    then show ?thesis by (simp add: kept_plain)
  qed
  have e: "kept s (s\<lparr>IwThreadPipePtr := p, clients := q\<rparr>)" for p q by (simp add: kept_plain)
  from assms show ?thesis
    by (auto simp: read_line_def split: option.splits prod.splits intro: c e l)
qed

section \<open>The status and the event thread\<close>

text \<open>The binding says that it is started only when it has created an event thread.\<close>

definition launched :: "'a service_scheme \<Rightarrow> bool" where
  "launched s \<longleftrightarrow> (status (wifi s) = Status_started \<longrightarrow> wifiApThreadPtr s \<noteq> None)"

text \<open>With that, the list of threads holds no freed object.\<close>

definition service_ok :: "'a service_scheme \<Rightarrow> bool" where
  "service_ok s \<longleftrightarrow> launched s \<and> registry_ok s"

lemma kept_service_ok: "kept s s' \<Longrightarrow> service_ok s \<Longrightarrow> service_ok s'"
  by (auto simp: kept_def launched_def service_ok_def)

definition keeps_launched :: "('v \<Rightarrow> 'a service_scheme \<Rightarrow> fault + (int \<times> 'a service_scheme)) \<Rightarrow> bool" where
  "keeps_launched f \<longleftrightarrow> (\<forall>v s r s'. f v s = Inr (r, s') \<longrightarrow>
     status (wifi s') = status (wifi s) \<and> wifiApThreadPtr s' = wifiApThreadPtr s \<and> registry_ok s' = registry_ok s)"

definition keeps_status :: "(wifiApT \<Rightarrow> 'v \<Rightarrow> fault + (int \<times> wifiApT)) \<Rightarrow> bool" where
  "keeps_status f \<longleftrightarrow> (\<forall>w v r w'. f w v = Inr (r, w') \<longrightarrow> status w' = status w)"

lemma setters_keep_status:
  "keeps_status setSsidParameter" "keeps_status setPassPhraseParameter" "keeps_status setCountryCodeParameter"
  "keeps_status setSecurityProtocolParameter" "keeps_status setDiscoverableParameter" "keeps_status setMaxNumberClients"
  "keeps_status setIeeeStandardParameter" "keeps_status setChannelParameter" "keeps_status setPreSharedKeyParameter"
  unfolding keeps_status_def buffer_setter_defs setSecurityProtocolParameter_def setDiscoverableParameter_def
    setMaxNumberClients_def setIeeeStandardParameter_def setChannelParameter_def setPreSharedKeyParameter_def
  by (auto simp: Let_def split: if_splits option.splits)

lemma on_wifi_launched: "keeps_status f \<Longrightarrow> keeps_launched (on_wifi f)"
  by (auto simp: keeps_launched_def keeps_status_def on_wifi_def)

lemma string_copy_service:
  fixes s :: "'a service_scheme"
  assumes "set_string_copy E dest src s = Inr (r, p, s')"
  shows "wifi s' = wifi s \<and> wifiApThreadPtr s' = wifiApThreadPtr s \<and> registry_ok s' = registry_ok s"
  using set_string_copy_rest [OF assms] registry_ok_cong [of s' s] by (cases s; cases s'; simp)

lemma setters_launched:
  "keeps_launched (setInterfaceNameParameter E)" "keeps_launched (setDomainNameParameter E)"
  "keeps_launched (setHostNameParameter E)"
  unfolding keeps_launched_def setInterfaceNameParameter_def setDomainNameParameter_def setHostNameParameter_def
  by (auto dest!: string_copy_service)

lemmas setters_keep_launched = setters_launched setters_keep_status [THEN on_wifi_launched]

lemma launched_same: "status (wifi s') = status (wifi s) \<Longrightarrow> wifiApThreadPtr s' = wifiApThreadPtr s \<Longrightarrow>
    registry_ok s' = registry_ok s \<Longrightarrow> service_ok s' = service_ok s"
  by (simp add: launched_def service_ok_def)

lemma launched_reply [simp]: "service_ok (afb_req_reply E st p s) = service_ok s"
  by (simp add: service_ok_def launched_def afb_req_reply_def ask_def)

lemma kept_ask: "kept s t \<Longrightarrow> kept s (snd (ask E c t))"
  by (simp add: kept_def ask_def)

lemma launched_ask [simp]: "service_ok (snd (ask E c s)) = service_ok s"
  by (simp add: service_ok_def launched_def ask_def)

lemma launched_invalid [simp]: "service_ok (reply_invalid_params E s) = service_ok s"
  by (simp add: reply_invalid_params_def)

lemma keeps_launchedD: "keeps_launched f \<Longrightarrow> f v s = Inr (r, s') \<Longrightarrow> service_ok s' = service_ok s"
  by (auto simp: keeps_launched_def launched_def service_ok_def)

lemma string_set_launched: "single_string_set E f ps s = Inr s' \<Longrightarrow> keeps_launched f \<Longrightarrow> service_ok s \<Longrightarrow> service_ok s'"
  using get_single_string_cases [of E ps s]
  by (auto simp: single_string_set_def Let_def dest: keeps_launchedD split: prod.splits option.splits)

lemma uint32_set_launched: "single_uint32_set E f ps s = Inr s' \<Longrightarrow> keeps_launched f \<Longrightarrow> service_ok s \<Longrightarrow> service_ok s'"
  using get_single_uint32_cases [of E ps s]
  by (auto simp: single_uint32_set_def dest: keeps_launchedD split: prod.splits option.splits)

lemma setDiscoverable_launched: "setDiscoverable E ps s = Inr s' \<Longrightarrow> service_ok s \<Longrightarrow> service_ok s'"
  using get_single_boolean_cases [of E ps s]
  by (auto simp: setDiscoverable_def dest: keeps_launchedD [OF setters_keep_launched(8)] split: prod.splits option.splits)

lemma setIpRange_launched: "setIpRange E ps s = Inr s' \<Longrightarrow> service_ok s \<Longrightarrow> service_ok s'"
proof -
  have w: "service_ok (s\<lparr>wifi := w\<rparr>) = service_ok s" if "setIpRangeParameters (wifi s) a b c d = Inr (r, w)" for a b c d r w
    using that by (auto simp: setIpRangeParameters_def launched_def service_ok_def Let_def split: if_splits option.splits)
  show "setIpRange E ps s = Inr s' \<Longrightarrow> service_ok s \<Longrightarrow> service_ok s'"
    using get_single_jsonc_cases [of E ps s]
    by (auto simp: setIpRange_def w split: prod.splits option.splits)
qed

text \<open>The verbs that are no setter.\<close>

lemma kept_get_string: "kept s (snd (get_single_string E ps s))"
proof (cases "get_single_string E ps s")
  case (Pair v t)
  from get_single_string_cases [OF this] show ?thesis
    using Pair kept_reply [OF kept_refl] by (auto simp: reply_invalid_params_def)
qed

lemma kept_subscriptions:
  "subscribe E ps s = Inr s' \<Longrightarrow> kept s s'" "unsubscribe E ps s = Inr s' \<Longrightarrow> kept s s'"
  using kept_get_string [of s E ps]
  by (auto simp: subscribe_def unsubscribe_def Let_def split_beta intro: kept_reply kept_ask split: prod.splits option.splits)

lemma kept_reply_json: "kept s t \<Longrightarrow> kept s (reply_json E n str t)"
  by (auto simp: reply_json_def Let_def split_beta intro: kept_reply kept_ask)

lemma kept_queries:
  "getWifiApStatus E s = Inr s' \<Longrightarrow> kept s s'" "getIeeeStandard E s = Inr s' \<Longrightarrow> kept s s'" "info E s = Inr s' \<Longrightarrow> kept s s'"
  by (auto simp: getWifiApStatus_def getIeeeStandard_def info_def reply_single_key_string_def reply_single_key_uint32_def
      Let_def intro: kept_reply kept_ask kept_reply_json kept_refl)

lemma kept_clients: "getAPnumberClients E s = Inr s' \<Longrightarrow> kept s s'"
  by (auto simp: getAPnumberClients_def popen_def reply_single_key_uint32_def Let_def split_beta
      intro!: kept_reply kept_ask kept_reply_json split: option.splits if_splits)

definition setter_verbs :: "string list" where
  "setter_verbs = [''setSsid'', ''setInterfaceName'', ''setHostName'', ''setDomainName'', ''setPassPhrase'',
     ''setDiscoverable'', ''setIeeeStandard'', ''setChannel'', ''setSecurityProtocol'', ''setPreSharedKey'', ''setIpRange'',
     ''setCountryCode'', ''SetMaxNumberClients'']"

lemma request_kept:
  assumes "request E name ps s = Inr s'" "name \<notin> set setter_verbs"
  shows "kept s s'"
  using assms
  by (auto simp: request_def verbs_def setter_verbs_def
      intro: kept_start kept_stop kept_restart kept_subscriptions kept_queries kept_clients split: if_splits)

lemma request_launched:
  assumes "request E name ps s = Inr s'" "service_ok s"
  shows "service_ok s'"
proof (cases "name \<in> set setter_verbs")
  case False
  from kept_service_ok [OF request_kept [OF assms(1) False] assms(2)] show ?thesis .
next
  case True
  note string = string_set_launched [OF _ _ assms(2)] and uint = uint32_set_launched [OF _ _ assms(2)]
  from True assms(1) show ?thesis
    unfolding setter_verbs_def
    by (auto simp: request_def verbs_def setHostName_def setDomainName_def setInterfaceName_def setSsid_def
        setPassPhrase_def setSecurityProtocol_def SetPreSharedKey_def setCountryCode_def setChannel_def
        SetMaxNumberClients_def setIeeeStandard_single setters_keep_launched
        intro: setDiscoverable_launched [OF _ assms(2)] setIpRange_launched [OF _ assms(2)]
        elim!: string uint)
qed

section \<open>The three names\<close>

text \<open>
  A name setter changes one pointer, and never to NULL; every other request leaves the three names alone. The configuration
  must have the three names, so from the initialisation on they are set.
\<close>

datatype name_field = Interface_name | Domain_name | Host_name

fun name_of :: "name_field \<Rightarrow> wifiApT \<Rightarrow> nat option" where
  "name_of Interface_name w = interfaceName w"
| "name_of Domain_name w = domainName w"
| "name_of Host_name w = hostName w"

fun put_name :: "name_field \<Rightarrow> nat option \<Rightarrow> wifiApT \<Rightarrow> wifiApT" where
  "put_name Interface_name p w = w\<lparr>interfaceName := p\<rparr>"
| "put_name Domain_name p w = w\<lparr>domainName := p\<rparr>"
| "put_name Host_name p w = w\<lparr>hostName := p\<rparr>"

fun name_verb :: "name_field \<Rightarrow> string" where
  "name_verb Interface_name = ''setInterfaceName''"
| "name_verb Domain_name = ''setDomainName''"
| "name_verb Host_name = ''setHostName''"

definition name_verbs :: "string list" where
  "name_verbs = [''setInterfaceName'', ''setHostName'', ''setDomainName'']"

definition name_setter :: "name_field \<Rightarrow> env \<Rightarrow> string option \<Rightarrow> 'a ap_scheme \<Rightarrow> fault + (int \<times> 'a ap_scheme)" where
  "name_setter f E src s = bindE (set_string_copy E (name_of f (wifi s)) src s)
     (\<lambda>(r, p, s1). Inr (r, s1\<lparr>wifi := put_name f p (wifi s1)\<rparr>))"

lemma name_setters:
  "setInterfaceNameParameter E = name_setter Interface_name E" "setDomainNameParameter E = name_setter Domain_name E"
  "setHostNameParameter E = name_setter Host_name E"
  by (rule ext; rule ext; simp add: name_setter_def setInterfaceNameParameter_def setDomainNameParameter_def
      setHostNameParameter_def)+

lemma put_same [simp]: "put_name f (name_of f w) w = w"
  by (cases f) simp_all

lemma put_other [simp]: "f \<noteq> g \<Longrightarrow> name_of f (put_name g p w) = name_of f w"
  by (cases f; cases g) simp_all

lemma request_name_setter:
  "request E (name_verb f) ps s = single_string_set E (name_setter f E) ps s"
  by (cases f) (simp_all add: request_def verbs_def name_setters setInterfaceName_def setDomainName_def setHostName_def)

text \<open>Steps that leave the names alone.\<close>

definition leaves_names :: "'a ap_scheme \<Rightarrow> 'a ap_scheme \<Rightarrow> bool" where
  "leaves_names s s' \<longleftrightarrow> name_ptrs (wifi s') = name_ptrs (wifi s) \<and> blocks s' = blocks s \<and> brk s' = brk s \<and>
     (params_ok (wifi s) \<longrightarrow> params_ok (wifi s'))"

lemma name_of_ptrs: "name_ptrs w' = name_ptrs w \<Longrightarrow> name_of f w' = name_of f w"
  by (cases f) (simp_all add: name_ptrs_def)

lemma leaves_refl [simp]: "leaves_names s s"
  by (simp add: leaves_names_def)

lemma leaves_reply: "leaves_names s t \<Longrightarrow> leaves_names s (afb_req_reply E st p t)"
  by (simp add: leaves_names_def afb_req_reply_def ask_def)

lemma kept_leaves: "kept s s' \<Longrightarrow> leaves_names s s'"
  by (auto simp: kept_def leaves_names_def name_ptrs_def params_ok_update)

lemma on_wifi_leaves:
  "keeps_params f \<Longrightarrow> keeps_names f \<Longrightarrow> on_wifi f v s = Inr (r, s') \<Longrightarrow> leaves_names s s'"
  by (auto simp: on_wifi_def leaves_names_def name_ptrs_def keeps_params_def keeps_names_def)

lemma string_set_leaves:
  "single_string_set E (on_wifi f) ps s = Inr s' \<Longrightarrow> keeps_params f \<Longrightarrow> keeps_names f \<Longrightarrow> leaves_names s s'"
  using get_single_string_cases [of E ps s]
  by (auto simp: single_string_set_def reply_invalid_params_def Let_def intro!: leaves_reply
      intro: on_wifi_leaves split: prod.splits option.splits)

lemma uint32_set_leaves:
  "single_uint32_set E (on_wifi f) ps s = Inr s' \<Longrightarrow> keeps_params f \<Longrightarrow> keeps_names f \<Longrightarrow> leaves_names s s'"
  using get_single_uint32_cases [of E ps s]
  by (auto simp: single_uint32_set_def reply_invalid_params_def Let_def intro!: leaves_reply
      intro: on_wifi_leaves split: prod.splits option.splits)

lemma setDiscoverable_leaves: "setDiscoverable E ps s = Inr s' \<Longrightarrow> leaves_names s s'"
  using get_single_boolean_cases [of E ps s]
  by (auto simp: setDiscoverable_def reply_invalid_params_def intro!: leaves_reply
      intro: on_wifi_leaves [OF setDiscoverable_keeps setters_keep_names(9)] split: prod.splits option.splits)

lemma setIpRange_leaves: "setIpRange E ps s = Inr s' \<Longrightarrow> leaves_names s s'"
proof -
  have w: "leaves_names s (s\<lparr>wifi := w\<rparr>)" if "setIpRangeParameters (wifi s) a b c d = Inr (r, w)" for a b c d r w
    using that setIpRange_keeps [OF _ that]
    by (auto simp: setIpRangeParameters_def leaves_names_def name_ptrs_def Let_def split: if_splits option.splits)
  show "setIpRange E ps s = Inr s' \<Longrightarrow> leaves_names s s'"
    using get_single_jsonc_cases [of E ps s]
    by (auto simp: setIpRange_def reply_invalid_params_def intro!: leaves_reply intro: w split: prod.splits option.splits)
qed

lemmas setters_leave =
  string_set_leaves [OF _ buffer_setters_keep(1) setters_keep_names(1)]
  string_set_leaves [OF _ buffer_setters_keep(2) setters_keep_names(2)]
  string_set_leaves [OF _ buffer_setters_keep(3) setters_keep_names(3)]
  string_set_leaves [OF _ setSecurityProtocol_keeps setters_keep_names(8)]
  string_set_leaves [OF _ setPreSharedKey_keeps setters_keep_names(13)]
  uint32_set_leaves [OF _ setMaxNumberClients_keeps setters_keep_names(10)]
  uint32_set_leaves [OF _ setIeeeStandard_keeps setters_keep_names(11)]
  uint32_set_leaves [OF _ setChannel_keeps setters_keep_names(12)]

lemma request_leaves:
  assumes "request E name ps s = Inr s'" "name \<notin> set name_verbs"
  shows "leaves_names s s'"
proof (cases "name \<in> set setter_verbs")
  case False
  show ?thesis by (rule kept_leaves [OF request_kept [OF assms(1) False]])
next
  case True
  with assms(2) have "name = ''setSsid'' \<or> name = ''setPassPhrase'' \<or> name = ''setDiscoverable'' \<or> name = ''setIeeeStandard'' \<or>
    name = ''setChannel'' \<or> name = ''setSecurityProtocol'' \<or> name = ''setPreSharedKey'' \<or> name = ''setIpRange'' \<or>
    name = ''setCountryCode'' \<or> name = ''SetMaxNumberClients''"
    by (auto simp: setter_verbs_def name_verbs_def)
  then show ?thesis
    by (elim disjE, insert assms(1), simp_all add: request_def verbs_def setSsid_def setPassPhrase_def setSecurityProtocol_def
        SetPreSharedKey_def setCountryCode_def setChannel_def SetMaxNumberClients_def setIeeeStandard_single)
      (erule setters_leave | erule setDiscoverable_leaves | erule setIpRange_leaves)+
qed

lemma name_verbs_iff: "name \<in> set name_verbs \<longleftrightarrow> (\<exists>f. name = name_verb f)"
proof
  assume "name \<in> set name_verbs"
  then show "\<exists>f. name = name_verb f" unfolding name_verbs_def by (auto intro: name_verb.simps [symmetric])
next
  assume "\<exists>f. name = name_verb f"
  then obtain f where "name = name_verb f" ..
  then show "name \<in> set name_verbs" by (cases f) (simp_all add: name_verbs_def)
qed

definition named :: "'a ap_scheme \<Rightarrow> bool" where
  "named s \<longleftrightarrow> (\<forall>f. name_of f (wifi s) \<noteq> None)"

lemma leaves_named: "leaves_names s s' \<Longrightarrow> named s \<Longrightarrow> named s'"
  using name_of_ptrs [of "wifi s'" "wifi s"] by (simp add: leaves_names_def named_def)

lemma put_name_same [simp]: "name_of f (put_name f p w) = p"
  by (cases f) simp_all

lemma named_put: "wifi s' = put_name f p (wifi s) \<Longrightarrow> p \<noteq> None \<or> p = name_of f (wifi s) \<Longrightarrow> named s \<Longrightarrow> named s'"
  unfolding named_def by (metis put_name_same put_other)

lemma name_setter_named: "name_setter f E src s = Inr (r, s') \<Longrightarrow> named s \<Longrightarrow> named s'"
proof -
  assume run: "name_setter f E src s = Inr (r, s')" and n: "named s"
  then obtain p s1 where p: "set_string_copy E (name_of f (wifi s)) src s = Inr (r, p, s1)" "s' = s1\<lparr>wifi := put_name f p (wifi s1)\<rparr>"
    by (auto simp: name_setter_def)
  have "wifi s1 = wifi s" using set_string_copy_rest [OF p(1)] ap_more [of s1 s] by simp
  moreover have "p \<noteq> None \<or> p = name_of f (wifi s)"
    using p(1) by (auto simp: set_string_copy_def split: option.splits if_splits prod.splits)
  ultimately show "named s'" using named_put [of s' f p s] p(2) n by simp
qed

lemma request_named:
  assumes "request E name ps s = Inr s'" "named s"
  shows "named s'"
proof (cases "name \<in> set name_verbs")
  case False
  from leaves_named [OF request_leaves [OF assms(1) False] assms(2)] show ?thesis .
next
  case True
  then obtain f where f: "name = name_verb f" by (auto simp: name_verbs_iff)
  have r: "named (afb_req_reply E st p t) = named t" for st p and t :: "'a service_scheme"
    by (simp add: named_def afb_req_reply_def ask_def)
  from assms f show ?thesis
    using get_single_string_cases [of E ps s]
    by (auto simp: request_name_setter single_string_set_def reply_invalid_params_def Let_def r
        dest: name_setter_named split: prod.splits option.splits)
qed

text \<open>With that, every name can be read.\<close>

lemma named_readable: "binding_ok s \<Longrightarrow> named s \<Longrightarrow> \<exists>v. deref (name_of f (wifi s)) s = Inr v"
proof -
  assume ok: "binding_ok s" and "named s"
  then obtain a where a: "name_of f (wifi s) = Some a" by (auto simp: named_def)
  then have "Some a \<in> set (name_ptrs (wifi s))" by (cases f) (simp_all add: name_ptrs_def)
  then have "a \<in> set (somes (name_ptrs (wifi s)))" by (force simp: somes_def)
  with ok have "a \<in> dom (blocks s)" by (simp add: binding_ok_def names_ok_def owned_by_def)
  then obtain v where "blocks s a = Some v" by auto
  with a show ?thesis by (simp add: deref_def)
qed

section \<open>Uninterrupted threads\<close>

text \<open>The remaining steps of a thread in its loop, when nothing comes between them, are the rest of its routine.\<close>

lemma loop_runs:
  fixes u :: service
  assumes "event_loop E ctx inp n u = Inr (m, u')" "objects u a = Some t" "threadState t = THREAD_STATE_RUNNING"
    "threadContext t = ctx" "clients u a = None" "CleanupThread E (call_destructor E) a (u'\<lparr>IwThreadPipePtr := Some []\<rparr>) = Inr s'"
  shows "\<exists>k. runs (replicate k (Read E a)) (u\<lparr>IwThreadPipePtr := Some inp, clients := (clients u)(a \<mapsto> n)\<rparr>) s'"
  using assms
proof (induction E ctx inp n u rule: event_loop.induct)
  case (1 E ctx inp n u)
  let ?s = "u\<lparr>IwThreadPipePtr := Some inp, clients := (clients u)(a \<mapsto> n)\<rparr>"
  show ?case
  proof (cases "fgets (PATH_MAX - 1) inp")
    case None
    with "1.prems"(1) have "u' = u" by (subst (asm) event_loop.simps) simp
    moreover have "u\<lparr>IwThreadPipePtr := Some [], clients := (clients u)(a := None)\<rparr> = u\<lparr>IwThreadPipePtr := Some []\<rparr>"
      using "1.prems"(5) by (simp add: fun_upd_idem)
    ultimately have "read_line E a n inp ?s = Inr s'"
      using None "1.prems"(2,6) by (simp add: read_line_def get_obj_def)
    then have "bstep (Read E a) ?s s'" using "1.prems"(2,3) by (intro lineread [of _ a t]) simp_all
    then have "runs (replicate 1 (Read E a)) ?s s'" by (simp add: more none)
    then show ?thesis by blast
  next
    case (Some v)
    obtain line rest where v: "v = (line, rest)" by fastforce
    obtain n1 u1 where l: "event_line E ctx line n u = Inr (n1, u1)" and r: "event_loop E ctx rest n1 u1 = Inr (m, u')"
      using "1.prems"(1) Some v by (subst (asm) event_loop.simps) auto
    note f = event_line_frame [OF l]
    obtain h where h: "u1 = u\<lparr>calls := h\<rparr>" using f by blast
    have "event_line E ctx line n ?s = Inr (n1, ?s\<lparr>calls := h\<rparr>)" using event_line_cong [OF l, of ?s] h by simp
    then have "read_line E a n inp ?s = Inr (u1\<lparr>IwThreadPipePtr := Some rest, clients := (clients u1)(a \<mapsto> n1)\<rparr>)"
      using Some v "1.prems"(2,4) h by (simp add: read_line_def get_obj_def)
    then have b: "bstep (Read E a) ?s (u1\<lparr>IwThreadPipePtr := Some rest, clients := (clients u1)(a \<mapsto> n1)\<rparr>)"
      using "1.prems"(2,3) by (intro lineread [of _ a t]) simp_all
    obtain k where "runs (replicate k (Read E a)) (u1\<lparr>IwThreadPipePtr := Some rest, clients := (clients u1)(a \<mapsto> n1)\<rparr>) s'"
      using "1.IH" [OF Some v [symmetric] r _ "1.prems"(3,4) _ "1.prems"(6)] "1.prems"(2,5) h by (auto simp del: fun_upd_apply)
    with b have "runs (replicate (Suc k) (Read E a)) ?s s'" by (simp add: more)
    then show ?thesis by blast
  qed
qed

lemma routine_runs:
  fixes s :: service
  assumes "PThreadStartRoutine E (call_main E) (call_destructor E) a s = Inr s'" "objects s a = Some t"
    "threadState t = THREAD_STATE_RUNNING" "threadHandle t \<noteq> 0" "clients s a = None"
  shows "\<exists>k. runs (Enter E a # replicate k (Read E a)) s s'"
proof -
  from assms(1) obtain s1 t1 s3 where pr: "thread_prologue E a s = Inr s1" "get_obj a s1 = Inr t1"
    "WifiApThreadMainFunc E (threadContext t1) s1 = Inr s3" "CleanupThread E (call_destructor E) a s3 = Inr s'"
    by (auto simp: PThreadStartRoutine_def elim: call_main.elims) (metis call_main.simps main_ptr.exhaust)
  have t1: "objects s1 a = Some t1" using pr(2) by (auto simp: get_obj_def split: option.splits)
  have run: "threadState t1 = THREAD_STATE_RUNNING"
    using pr(1) assms(2,3) t1 by (auto simp: thread_prologue_def get_obj_def Let_def split: if_splits)
  have c: "clients s1 a = None" using thread_prologue_part [OF pr(1)] assms(5) by simp
  obtain pipe s2 where s2: "popen E ''iw event'' s1 = (pipe, s2)" by fastforce
  then have f: "objects s2 = objects s1" "clients s2 = clients s1" by (auto simp: popen_def ask_def Let_def)
  show ?thesis
  proof (cases pipe)
    case None
    with pr s2 have "enter_thread E a s = Inr s'" by (simp add: enter_thread_def WifiApThreadMainFunc_def)
    then have "runs (Enter E a # replicate 0 (Read E a)) s s'"
      using entered [of s a t E s'] assms(2-5) by (simp add: more none)
    then show ?thesis by blast
  next
    case (Some inp)
    let ?u = "s2\<lparr>IwThreadPipePtr := Some inp\<rparr>"
    from pr(3) s2 Some obtain m u' where u': "event_loop E (threadContext t1) inp 0 ?u = Inr (m, u')"
      "s3 = u'\<lparr>IwThreadPipePtr := Some []\<rparr>" by (auto simp: WifiApThreadMainFunc_def)
    have "enter_thread E a s = Inr (?u\<lparr>clients := (clients ?u)(a \<mapsto> 0)\<rparr>)"
      using pr(1) s2 Some by (simp add: enter_thread_def)
    then have "bstep (Enter E a) s (?u\<lparr>clients := (clients ?u)(a \<mapsto> 0)\<rparr>)" using entered assms(2-5) by blast
    moreover obtain k where "runs (replicate k (Read E a)) (?u\<lparr>IwThreadPipePtr := Some inp, clients := (clients ?u)(a \<mapsto> 0)\<rparr>) s'"
      using loop_runs [OF u'(1) _ run refl, of a s'] t1 c f pr(4) u'(2) by auto
    ultimately have "runs (Enter E a # replicate k (Read E a)) s s'" by (auto intro: more)
    then show ?thesis by blast
  qed
qed

section \<open>Invariants of the binding\<close>

lemma step_keeps:
  assumes "bstep l s s'"
  shows "(binding_ok s \<longrightarrow> binding_ok s') \<and> (service_ok s \<longrightarrow> service_ok s') \<and> (named s \<longrightarrow> named s')"
proof -
  have k: "(binding_ok s \<longrightarrow> binding_ok s') \<and> (service_ok s \<longrightarrow> service_ok s') \<and> (named s \<longrightarrow> named s')" if "kept s s'"
    using kept_binding [OF that] kept_service_ok [OF that] leaves_named [OF kept_leaves [OF that]] by blast
  from assms show ?thesis
    by cases (auto intro: request_keeps request_launched request_named simp: k [OF kept_enter] k [OF kept_read])
qed

lemma boot_ok: "blocks (boot f) = Map.empty" "threads_ok (boot f)"
  by (simp_all add: boot_def threads_ok_def)

lemma initial_ok:
  assumes "binding_ctl E json afb_ctlid_Init (boot f) = Inr (0, s)"
  shows "binding_ok s \<and> service_ok s \<and> named s"
proof -
  from assms obtain root config created s1 where c: "json = Some root" "json_object_object_get_ex root ''config'' = Some config"
    "createWifiApData E config (boot f) = Inr (True, s1)" "if startAtInit config then \<exists>r. startAp E s1 = Inr (r, s) \<and> 0 \<le> r else s = s1"
    by (auto simp: binding_ctl_def split: option.splits if_splits)
  note r = created_result [OF boot_ok(1) c(3)]
  have "threads_ok s1" using boot_ok(2) created_rest [OF c(3)] threads_ok_rest [of s1 "boot f"] by simp
  then have "registry_ok s1" by (simp add: threads_ok_registry)
  with r have ok: "binding_ok s1" "service_ok s1" by (auto intro: checked_binding_ok simp: launched_def service_ok_def)
  have "named s1" unfolding named_def
  proof
    fix f
    show "name_of f (wifi s1) \<noteq> None" using r by (cases f) (auto simp: names_stored_def deref_def split: option.splits)
  qed
  moreover have "kept s1 s" using c(4) kept_startAp by (auto split: if_splits)
  ultimately show ?thesis using ok kept_binding kept_service_ok leaves_named kept_leaves by blast
qed

lemma reachable_ok: "reachable s \<Longrightarrow> binding_ok s \<and> service_ok s \<and> named s"
proof (induction rule: reachable.induct)
  case (initialised E json f s)
  then show ?case by (rule initial_ok)
next
  case (stepped s l s')
  then show ?case using step_keeps by blast
qed

lemma some_reachable: "\<exists>s. reachable s"
proof -
  obtain s where "createWifiApData calm_env default_config (boot Map.empty) = Inr (True, s)"
    using accepts_valid [OF calm_calm_env boot_ok(1) valid_default_config] by blast
  moreover have "\<not> startAtInit default_config" by code_simp
  ultimately have "binding_ctl calm_env (Some (JObject [(''config'', default_config)])) afb_ctlid_Init (boot Map.empty) = Inr (0, s)"
    by (simp add: binding_ctl_def json_object_object_get_ex_def)
  then show ?thesis using initialised by blast
qed

section \<open>Runs\<close>

definition is_setter :: "action \<Rightarrow> bool" where
  "is_setter l = (case l of Request _ name _ \<Rightarrow> name \<in> set setter_verbs | _ \<Rightarrow> False)"

lemma step_kept: "bstep l s s' \<Longrightarrow> \<not> is_setter l \<Longrightarrow> kept s s'"
  by (induction rule: bstep.cases) (auto simp: is_setter_def intro: request_kept kept_enter kept_read)

lemma runs_kept: "runs ls s s' \<Longrightarrow> \<forall>l \<in> set ls. \<not> is_setter l \<Longrightarrow> kept s s'"
  by (induction rule: runs.induct) (auto intro: kept_trans step_kept)

lemma read_progress:
  assumes "bstep (Read E a) s s'" "IwThreadPipePtr s = Some stream"
  shows "clients s' a = None \<or> (\<exists>rest. IwThreadPipePtr s' = Some rest \<and> length rest < length stream)"
proof -
  from assms obtain n where r: "read_line E a n stream s = Inr s'" by (auto elim: read_stepE)
  then obtain t where t: "get_obj a s = Inr t" by (auto simp: read_line_def)
  show ?thesis
  proof (cases "fgets (PATH_MAX - 1) stream")
    case None
    with r t have "CleanupThread E (call_destructor E) a (s\<lparr>IwThreadPipePtr := Some [], clients := (clients s)(a := None)\<rparr>) = Inr s'"
      by (simp add: read_line_def)
    from thread_silent(6) [OF this] show ?thesis by simp
  next
    case (Some v)
    with r t show ?thesis by (cases v) (auto simp: read_line_def dest: fgets_progress)
  qed
qed

lemma reads_bounded:
  "runs ls s s' \<Longrightarrow> \<forall>l \<in> set ls. \<exists>E. l = Read E a \<Longrightarrow> IwThreadPipePtr s = Some stream \<Longrightarrow> length ls \<le> Suc (length stream)"
proof (induction arbitrary: stream rule: runs.induct)
  case (more l s t ls u)
  then obtain E where l: "l = Read E a" by auto
  from read_progress [OF more.hyps(1) [unfolded l] more.prems(2)] show ?case
  proof
    assume "clients t a = None"
    then have "ls = []" using more.hyps(2) more.prems(1) by (cases ls) (auto elim!: runs_ConsE read_stepE)
    then show ?thesis by simp
  next
    assume "\<exists>rest. IwThreadPipePtr t = Some rest \<and> length rest < length stream"
    then obtain rest where "IwThreadPipePtr t = Some rest" "length rest < length stream" by blast
    with more.IH [of rest] more.prems(1) show ?thesis by simp
  qed
qed simp

end
