(* ===== verification/Faults.thy ===== *)
theory Faults
  imports Binding
begin

text \<open>
  Which steps of the binding can meet memory that has been freed. The step relation of \<open>Binding\<close> holds the steps that return; here are
  those that fault, and the proof that reading or freeing what has been freed is left to \<open>stop\<close>, to \<open>restart\<close>, which stops first, and to the pieces
  of event threads: the faults of every other request (a file that cannot be opened, a thread that cannot be created, a NULL text, a text read past
  its end, a mutex that was never given back) are of other kinds.
\<close>

section \<open>Which faults are possible\<close>

text \<open>A call that may fault, but not by reading or freeing what has been freed.\<close>

definition alive :: "fault + 'b \<Rightarrow> bool" where
  "alive m \<longleftrightarrow> m \<noteq> Inl Use_after_free"

named_theorems alive_rules

lemma alive_Inr [simp, alive_rules]: "alive (Inr x)"
  by (simp add: alive_def)

lemma alive_Inl [simp]: "alive (Inl e) \<longleftrightarrow> e \<noteq> Use_after_free"
  by (simp add: alive_def)

lemma alive_bind [alive_rules]: "alive m \<Longrightarrow> (\<And>x. m = Inr x \<Longrightarrow> alive (f x)) \<Longrightarrow> alive (bindE m f)"
  by (cases m) (simp_all add: alive_def)

lemma alive_total: "\<exists>x. m = Inr x \<Longrightarrow> alive m"
  by auto

lemma alive_if [alive_rules]: "(c \<Longrightarrow> alive m) \<Longrightarrow> (\<not> c \<Longrightarrow> alive n) \<Longrightarrow> alive (if c then m else n)"
  by simp

lemma copy_bytes_alive: "alive (copy_bytes dest src k i)"
  by (induction dest src k i rule: copy_bytes.induct) auto

lemma utf8_Copy_alive: "alive (utf8_Copy dest src n)"
proof -
  have put: "alive (put_byte d i c)" for d i c by (simp add: put_byte_def)
  have "alive (utf8_Copy_loop d s n i)" for d s i
  proof (induction d s n i rule: utf8_Copy_loop.induct)
    case (1 d s n i)
    then show ?case
      by (subst utf8_Copy_loop.simps) (auto simp: Let_def intro!: alive_bind put copy_bytes_alive)
  qed
  then show ?thesis by (simp add: utf8_Copy_def)
qed

text \<open>Every name can be read.\<close>

definition readable :: "'a ap_scheme \<Rightarrow> bool" where
  "readable s \<longleftrightarrow> (\<forall>f. \<exists>v. deref (name_of f (wifi s)) s = Inr v)"

lemma readable_names:
  "readable s \<Longrightarrow> alive (iface s)" "readable s \<Longrightarrow> alive (name_arg (hostName (wifi s)) s)"
  "readable s \<Longrightarrow> alive (name_arg (domainName (wifi s)) s)"
proof -
  have n: "\<exists>v. deref (name_of f (wifi s)) s = Inr v" if "readable s" for f using that by (simp add: readable_def)
  show "readable s \<Longrightarrow> alive (iface s)" using n [of Interface_name] by (auto simp: iface_def)
  show "readable s \<Longrightarrow> alive (name_arg (hostName (wifi s)) s)" using n [of Host_name]
    by (auto simp: name_arg_def deref_def split: option.splits)
  show "readable s \<Longrightarrow> alive (name_arg (domainName (wifi s)) s)" using n [of Domain_name]
    by (auto simp: name_arg_def deref_def split: option.splits)
qed

lemma readable_same: "same s s' \<Longrightarrow> readable s \<Longrightarrow> readable s'"
  using same_deref [of s s'] same_fields(1) [of s s'] by (simp add: readable_def)

section \<open>The threads\<close>

lemma find_locked_alive: "registry_ok s \<Longrightarrow> alive (find_locked i s)"
  by (auto simp: find_locked_def lock_def registry_ok_def findThreadFromIdInList_def)

lemma find_locked_object:
  assumes "find_locked i s = Inr (Some a, s1)" "registry_ok s"
  shows "\<exists>t. objects s1 a = Some t"
  using assms by (auto simp: find_locked_def lock_def registry_ok_def findThreadFromIdInList_def split: if_splits)

lemma get_obj_alive: "objects s a \<noteq> None \<Longrightarrow> alive (get_obj a s)"
  by (auto simp: get_obj_def)

lemma prepare_alive:
  assumes "registry_ok s"
  shows "alive (setThreadJoinable E i s)" "alive (addDestructorToThread E i d c s)" "alive (startThread E i s)"
proof -
  note f = find_locked_alive [OF assms] find_locked_object [OF _ assms]
  show "alive (setThreadJoinable E i s)" unfolding setThreadJoinable_def
    by (rule alive_bind [OF f(1)]) (auto simp: Let_def split_beta split: option.split dest!: f(2) intro!: alive_bind get_obj_alive)
  show "alive (addDestructorToThread E i d c s)" unfolding addDestructorToThread_def AddDestructor_def
    by (rule alive_bind [OF f(1)]) (auto simp: Let_def split_beta split: option.split dest!: f(2) intro!: alive_bind get_obj_alive)
  show "alive (startThread E i s)" unfolding startThread_def
    by (rule alive_bind [OF f(1)]) (auto simp: Let_def split_beta split: option.split dest!: f(2) intro!: alive_bind get_obj_alive)
qed

lemma CreateThread_alive: "alive (CreateThread E name m c s)"
  unfolding CreateThread_def
  by (auto simp: Let_def split_beta lock_def intro!: alive_bind utf8_Copy_alive)

lemma CreateThread_object: "CreateThread E name m c s = Inr (Some a, s') \<Longrightarrow> objects s' a \<noteq> None"
  by (auto simp: CreateThread_def Let_def split_beta lock_def split: if_splits)

lemma prepare_objects:
  assumes "objects s a \<noteq> None"
  shows "setThreadJoinable E i s = Inr (r, s') \<Longrightarrow> objects s' a \<noteq> None"
    and "addDestructorToThread E i d c s = Inr (r, s') \<Longrightarrow> objects s' a \<noteq> None"
proof -
  assume run: "setThreadJoinable E i s = Inr (r, s')"
  then obtain p s1 where f: "find_locked i s = Inr (p, s1)" by (auto simp: setThreadJoinable_def)
  have o: "objects s1 a \<noteq> None" using find_locked_frame [OF f] assms by simp
  show "objects s' a \<noteq> None"
  proof (cases p)
    case None
    with run f o show ?thesis by (simp add: setThreadJoinable_def)
  next
    case (Some b)
    with run f obtain t where "objects s1 b = Some t" by (auto simp: setThreadJoinable_def get_obj_Inr)
    with run f o Some show ?thesis
      by (simp add: setThreadJoinable_def get_obj_def Let_def split_beta split: if_splits) auto
  qed
next
  assume run: "addDestructorToThread E i d c s = Inr (r, s')"
  then obtain p s1 where f: "find_locked i s = Inr (p, s1)" by (auto simp: addDestructorToThread_def)
  have o: "objects s1 a \<noteq> None" using find_locked_frame [OF f] assms by simp
  show "objects s' a \<noteq> None"
  proof (cases p)
    case None
    with run f o show ?thesis by (simp add: addDestructorToThread_def)
  next
    case (Some b)
    with run f obtain t where "objects s1 b = Some t" by (auto simp: addDestructorToThread_def get_obj_Inr)
    with run f o Some show ?thesis
      by (simp add: addDestructorToThread_def AddDestructor_def get_obj_def Let_def split_beta split: if_splits) auto
  qed
qed

lemma start_event_thread_alive:
  assumes "registry_ok s"
  shows "alive (start_event_thread E s)"
proof -
  have third: "alive (bindE (get_obj a v) (\<lambda>t. bindE (startThread E (threadId t) v) (\<lambda>(_, s5). Inr (0 :: int, set_status Status_started s5))))"
    if "registry_ok v" "objects v a \<noteq> None" for a and v :: "'a service_scheme"
    by (intro alive_bind get_obj_alive [OF that(2)] prepare_alive [OF that(1)]) (simp split: prod.split)
  have second: "alive (bindE (get_obj a v) (\<lambda>t.
      bindE (addDestructorToThread E (threadId t) (Some Ptr_threadDestructorFunc) (WIFI_SCRIPT E) v) (\<lambda>(_, s4).
      bindE (get_obj a s4) (\<lambda>t. bindE (startThread E (threadId t) s4) (\<lambda>(_, s5). Inr (0 :: int, set_status Status_started s5))))))"
    if "registry_ok v" "objects v a \<noteq> None" for a and v :: "'a service_scheme"
    by (intro alive_bind get_obj_alive [OF that(2)] prepare_alive [OF that(1)])
      (clarify, rule third, erule registry_addDestructor [OF _ that(1)], erule prepare_objects(2) [OF that(2)])
  have first: "alive (bindE (get_obj a v) (\<lambda>t.
      bindE (setThreadJoinable E (threadId t) v) (\<lambda>(_, s3).
      bindE (get_obj a s3) (\<lambda>t.
      bindE (addDestructorToThread E (threadId t) (Some Ptr_threadDestructorFunc) (WIFI_SCRIPT E) s3) (\<lambda>(_, s4).
      bindE (get_obj a s4) (\<lambda>t. bindE (startThread E (threadId t) s4) (\<lambda>(_, s5). Inr (0 :: int, set_status Status_started s5))))))))"
    if "registry_ok v" "objects v a \<noteq> None" for a and v :: "'a service_scheme"
    by (intro alive_bind get_obj_alive [OF that(2)] prepare_alive [OF that(1)])
      (clarify, rule second, erule registry_setThreadJoinable [OF _ that(1)], erule prepare_objects(1) [OF that(2)])
  show ?thesis unfolding start_event_thread_def Let_def
  proof (intro alive_bind CreateThread_alive, clarify)
    fix p s1 assume c: "CreateThread E ''WifiApThread'' Ptr_WifiApThreadMainFunc (interfaceName (wifi s)) s = Inr (p, s1)"
    let ?u = "s1\<lparr>wifiApThreadPtr := p\<rparr>"
    have r: "registry_ok ?u" using registry_CreateThread [OF c assms] registry_ok_cong [of ?u s1] by simp
    have o: "objects ?u a \<noteq> None" if "p = Some a" for a using CreateThread_object [OF c [unfolded that]] by simp
    show "alive (case p of None \<Rightarrow> Inl Null_deref
     | Some a \<Rightarrow>
         bindE (get_obj a ?u) (\<lambda>t.
         bindE (setThreadJoinable E (threadId t) ?u) (\<lambda>(_, s3).
         bindE (get_obj a s3) (\<lambda>t.
         bindE (addDestructorToThread E (threadId t) (Some Ptr_threadDestructorFunc) (WIFI_SCRIPT E) s3) (\<lambda>(_, s4).
         bindE (get_obj a s4) (\<lambda>t.
         bindE (startThread E (threadId t) s4) (\<lambda>(_, s5).
           Inr (0 :: int, set_status Status_started s5))))))))"
    proof (cases p)
      case (Some a)
      show ?thesis unfolding Some option.case
        by (rule first [OF r [unfolded Some]]) (use o [OF Some] Some in simp)
    qed simp
  qed
qed

section \<open>Start and the other requests\<close>

lemma run_dnsmasq_alive:
  fixes s :: "'a service_scheme"
  assumes "readable s"
  shows "alive (run_dnsmasq E c s)"
proof -
  have files: "alive (createHostsConfigFile E ap h t)" "alive (createDnsmasqConfigFile E ap l k d t)" for ap h l k d and t :: "'a service_scheme"
    by (simp_all add: createHostsConfigFile_def createDnsmasqConfigFile_def Let_def split_beta split: option.split)
  have host: "alive (name_arg (hostName (wifi s)) t)" "alive (name_arg (domainName (wifi s)) t)" if "same s t" for t
    using readable_names [OF readable_same [OF that assms]] same_fields(1) [OF that] by simp_all
  have up: "same s (snd (system E x s))" for x by (rule same_steps) simp
  show ?thesis unfolding run_dnsmasq_def dnsmasq_failed_def Let_def
    by (auto simp: split_beta intro!: alive_bind readable_names(1) [OF assms] host files up dest!: same_hosts [OF _ up])
qed

lemma setDnsmasqService_alive: "readable s \<Longrightarrow> alive (setDnsmasqService E s)" for s :: "'a service_scheme"
  by (auto simp: setDnsmasqService_def dnsmasq_failed_def Let_def split_beta run_dnsmasq_alive split: option.split)

lemma generate_alive: "params_ok d \<Longrightarrow> alive (GenerateHostApConfFile E d s)"
  using GenerateHostApConfFile_writes [of d E s] by (auto simp: alive_def)

lemma start_hostapd_alive:
  fixes s :: "'a service_scheme"
  assumes "readable s" "params_ok (wifi s)" "registry_ok s"
  shows "alive (start_hostapd E s)"
proof -
  have i: "alive (iface t)" if "same s t" for t by (rule readable_names(1) [OF readable_same [OF that assms(1)]])
  have sys: "same s t \<Longrightarrow> same s (snd (system E c t))" for c t by (rule same_steps)
  have nm: "alive (check_and_resolve_conflicts_with_NM E s)"
    unfolding check_and_resolve_conflicts_with_NM_def by (auto simp: Let_def split_beta intro!: alive_bind i)
  have fw: "alive (check_if_firewalld_running_and_allow_dhcp_traffic E t)" if "same s t" for t
    unfolding check_if_firewalld_running_and_allow_dhcp_traffic_def using that by (auto simp: Let_def split_beta intro!: alive_bind i)
  have gen: "alive (GenerateHostApConfFile E (wifi t) t)" if "same s t" for t
    using generate_alive assms(2) same_fields(1) [OF that] by simp
  have thr: "alive (start_event_thread E t)" if "same s t" for t
  proof (rule start_event_thread_alive)
    show "registry_ok t" using registry_ok_cong [of t s] assms(3) same_fields [OF that] by simp
  qed
  show ?thesis unfolding start_hostapd_def start_failure_def
  proof (intro alive_bind nm)
    fix s1 assume "check_and_resolve_conflicts_with_NM E s = Inr s1"
    then have s1: "same s s1" by (rule same_NM) simp
    show "alive (check_if_firewalld_running_and_allow_dhcp_traffic E s1)" by (rule fw [OF s1])
    fix s2 assume "check_if_firewalld_running_and_allow_dhcp_traffic E s1 = Inr s2"
    then have s2: "same s s2" using s1 by (rule same_firewalld)
    show "alive (GenerateHostApConfFile E (wifi s2) s2)" by (rule gen [OF s2])
    fix y assume y: "GenerateHostApConfFile E (wifi s2) s2 = Inr y"
    obtain r s3 where rs: "y = (r, s3)" by fastforce
    then have s3: "same s s3" using y same_generate [of E "wifi s2" s2 r s3] s2 by simp
    show "alive (case y of (r, s3) \<Rightarrow> if r \<noteq> 0 then Inr (- 3, set_status Status_fail s3)
       else bindE (iface s3) (\<lambda>i.
         let (st, s4) = system E (script_cmd E COMMAND_WIFI_HW_START i) s3 in
         if WEXITSTATUS st = 0 then
           (let (st', s5) = system E (script_cmd E COMMAND_WIFIAP_HOSTAPD_START i) s4 in
            if \<not> WIFEXITED st' \<or> WEXITSTATUS st' \<noteq> 0
            then Inr (- 7, set_status Status_fail (remove_file E WIFI_HOSTAPD_FILE s5))
            else start_event_thread E s5)
         else if WEXITSTATUS st = 50 then Inr (- 4, set_status Status_fail s4)
         else if WEXITSTATUS st = 100 then Inr (- 5, set_status Status_fail s4)
         else Inr (- 6, set_status Status_fail s4)))"
      unfolding rs prod.case
      by (auto simp: Let_def split_beta intro!: alive_bind i s3 thr sys)
  qed
qed

lemma startAp_alive:
  fixes s :: "'a service_scheme"
  assumes "readable s" "params_ok (wifi s)" "registry_ok s"
  shows "alive (startAp E s)"
proof -
  obtain l u where u: "config_left E s = (l, u)" by fastforce
  then have eu: "same s u" using same_config_left [OF same_refl, of s E] by simp
  have c: "alive (clean_left E s)" unfolding clean_left_def u
    by (auto simp: Let_def split_beta intro!: alive_bind readable_names(1) readable_same [OF eu assms(1)])
  show ?thesis unfolding startAp_def start_failure_def
  proof (intro alive_bind c)
    fix y assume y: "clean_left E s = Inr y"
    obtain k s1 where ys: "y = (k, s1)" by fastforce
    have s1: "same s s1" using y eu by (auto simp: ys clean_left_def u Let_def split_beta system_def ask_def same_def split: if_splits)
    note d = setDnsmasqService_alive [OF readable_same [OF s1 assms(1)], of E]
    have h: "alive (start_hostapd E s2)" if "setDnsmasqService E s1 = Inr (0, s2)" for s2
    proof -
      have "same s1 s2" using setDnsmasqService_outcome [OF that] by (simp add: dnsmasq_outcome_def)
      then have s2: "same s s2" by (rule same_trans [OF s1])
      show ?thesis
        using start_hostapd_alive [OF readable_same [OF s2 assms(1)]] assms(2,3) same_fields [OF s2] registry_ok_cong [of s2 s] by simp
    qed
    show "alive (case y of (clean, s1) \<Rightarrow> if \<not> clean then Inr (- 9, set_status Status_fail s1)
      else bindE (setDnsmasqService E s1) (\<lambda>(error, s2).
        if error \<noteq> 0 then Inr (- 8, set_status Status_fail s2)
        else if hd (ssid (wifi s2)) = NUL then Inr (- 1, set_status Status_fail s2)
        else if channelNumber (wifi s2) < MIN_CHANNEL_VALUE (wifi s2) \<or>
                channelNumber (wifi s2) > MAX_CHANNEL_VALUE (wifi s2) then Inr (- 2, set_status Status_fail s2)
        else start_hostapd E s2))"
      unfolding ys prod.case by (auto intro!: alive_bind d h)
  qed
qed

lemma start_alive:
  fixes s :: "'a service_scheme"
  assumes "readable s" "params_ok (wifi s)" "registry_ok s"
  shows "alive (start E s)"
  unfolding start_def by (auto intro!: alive_bind startAp_alive [OF assms])

lemma count_alive: "readable s \<Longrightarrow> alive (getAPnumberClients E s)" for s :: "'a service_scheme"
  unfolding getAPnumberClients_def
  by (auto simp: Let_def split_beta intro!: alive_bind readable_names(1) split: option.split)

text \<open>The verbs that neither stop the service nor set a name.\<close>

lemma single_string_set_alive:
  "(\<And>v t. alive (f v t)) \<Longrightarrow> alive (single_string_set E f ps s)"
  by (auto simp: single_string_set_def Let_def split: option.split prod.split intro!: alive_bind)

lemma single_uint32_set_alive:
  "(\<And>v t. alive (f v t)) \<Longrightarrow> alive (single_uint32_set E f ps s)"
  by (auto simp: single_uint32_set_def Let_def split: option.split prod.split intro!: alive_bind)

lemma setters_alive:
  "alive (setSsidParameter w v)" "alive (setPassPhraseParameter w v)" "alive (setCountryCodeParameter w v)"
  "alive (setSecurityProtocolParameter w v)" "alive (setPreSharedKeyParameter w v)" "alive (setDiscoverableParameter w b)"
  "alive (setMaxNumberClients w n)" "alive (setIeeeStandardParameter w n)" "alive (setChannelParameter w n)"
  "alive (setIpRangeParameters w c d e g)"
proof -
  have b: "alive (set_buffer x v lo hi)" for x lo hi by (auto simp: set_buffer_def Let_def split: option.split)
  show "alive (setSsidParameter w v)" "alive (setPassPhraseParameter w v)" "alive (setCountryCodeParameter w v)"
    by (auto simp: buffer_setter_defs intro!: alive_bind b)
  show "alive (setSecurityProtocolParameter w v)" by (auto simp: setSecurityProtocolParameter_def split: option.split)
  show "alive (setPreSharedKeyParameter w v)"
    by (auto simp: setPreSharedKeyParameter_def split: option.split intro!: alive_bind utf8_Copy_alive)
  show "alive (setDiscoverableParameter w b)" by (simp add: setDiscoverableParameter_def)
  show "alive (setMaxNumberClients w n)" "alive (setIeeeStandardParameter w n)"
    by (simp_all add: setMaxNumberClients_eq setIeeeStandardParameter_eq)
  show "alive (setChannelParameter w n)" by (simp add: setChannelParameter_def Let_def)
  have c: "alive (copy_ip x y)" for x y by (auto simp: copy_ip_def intro!: alive_bind utf8_Copy_alive)
  show "alive (setIpRangeParameters w c d e g)"
    by (auto simp: setIpRangeParameters_def Let_def intro!: alive_bind c)
qed

lemma on_wifi_alive: "(\<And>w v. alive (f w v)) \<Longrightarrow> alive (on_wifi f v s)"
  by (auto simp: on_wifi_def intro!: alive_bind)

text \<open>What may still meet a freed object: a stop, also as part of a restart, and the pieces of a thread.\<close>

fun stops :: "action \<Rightarrow> bool" where
  "stops (Request E name ps) = (name \<in> {''stop'', ''restart''})"
| "stops l = True"

lemma request_alive:
  fixes s :: "'a service_scheme"
  assumes "readable s" "params_ok (wifi s)" "registry_ok s" "name \<notin> set name_verbs" "\<not> stops (Request E name ps)"
  shows "alive (request E name ps s)"
proof -
  have one: "alive (start E s)" by (rule start_alive [OF assms(1-3)])
  have two: "alive (getAPnumberClients E s)" by (rule count_alive [OF assms(1)])
  have queries: "alive (subscribe E ps s)" "alive (unsubscribe E ps s)" "alive (getIeeeStandard E s)" "alive (getWifiApStatus E s)"
    "alive (info E s)"
    by (auto simp: subscribe_def unsubscribe_def getIeeeStandard_def getWifiApStatus_def info_def split_beta split: option.split prod.split)
  have texts: "alive (setSsid E ps s)" "alive (setPassPhrase E ps s)" "alive (setSecurityProtocol E ps s)"
    "alive (SetPreSharedKey E ps s)" "alive (setCountryCode E ps s)"
    unfolding setSsid_def setPassPhrase_def setSecurityProtocol_def SetPreSharedKey_def setCountryCode_def
    by (rule single_string_set_alive on_wifi_alive setters_alive)+
  have numbers: "alive (setIeeeStandard E ps s)" "alive (setChannel E ps s)" "alive (SetMaxNumberClients E ps s)"
    unfolding setIeeeStandard_single setChannel_def SetMaxNumberClients_def
    by (rule single_uint32_set_alive on_wifi_alive setters_alive)+
  have others: "alive (setDiscoverable E ps s)" "alive (setIpRange E ps s)"
    by (auto simp: setDiscoverable_def setIpRange_def on_wifi_def split: option.split prod.split intro!: alive_bind setters_alive)
  have "alive (h s)" if "map_of (verbs E ps) name = Some h" for h :: "'a service_scheme \<Rightarrow> fault + 'a service_scheme"
    using map_of_SomeD [OF that] assms(4,5) one two queries texts numbers others
    by (auto simp: verbs_def name_verbs_def)
  then show ?thesis by (auto simp: request_def split: option.split)
qed

text \<open>A step that faults: a request, or a piece of a thread that runs.\<close>

fun bfault :: "action \<Rightarrow> service \<Rightarrow> fault \<Rightarrow> bool" where
  "bfault (Request E name ps) s e = (request E name ps s = Inl e)"
| "bfault (Enter E a) s e =
     (\<exists>t. objects s a = Some t \<and> threadState t = THREAD_STATE_RUNNING \<and> threadHandle t \<noteq> 0 \<and> clients s a = None \<and>
       enter_thread E a s = Inl e)"
| "bfault (Read E a) s e =
     (\<exists>t n stream. objects s a = Some t \<and> threadState t = THREAD_STATE_RUNNING \<and> clients s a = Some n \<and>
       IwThreadPipePtr s = Some stream \<and> read_line E a n stream s = Inl e)"

lemma named_readable_all: "binding_ok s \<Longrightarrow> named s \<Longrightarrow> readable s"
  using named_readable unfolding readable_def by blast

section \<open>Properties\<close>

text \<open>
  C13. In every state the binding can reach, whatever the environment answers, no request but \<open>stop\<close> and \<open>restart\<close> reads or frees
  memory that has been freed, for any verb and any parameters; that is left to those two and to the event threads.
\<close>

theorem only_stop_meets_freed_memory:
  assumes "reachable s" "\<not> stops l"
  shows "\<not> bfault l s Use_after_free"
proof -
  from reachable_ok [OF assms(1)] have ok: "binding_ok s" "service_ok s" "named s" by blast+
  then have r: "readable s" "params_ok (wifi s)" "registry_ok s"
    using named_readable_all by (auto simp: binding_ok_def service_ok_def)
  obtain E name ps where l: "l = Request E name ps" using assms(2) by (cases l) auto
  have "alive (request E name ps s)"
  proof (cases "name \<in> set name_verbs")
    case True
    then have "name \<in> set safe_verbs" by (auto simp: name_verbs_def safe_verbs_def)
    from safe_verb_handler [OF this] obtain h :: "service \<Rightarrow> fault + service"
      where h: "map_of (verbs E ps) name = Some h" "answers h" by blast
    with ok(1) show ?thesis by (auto simp: request_def answers_def)
  next
    case False
    with request_alive [OF r] assms(2) l show ?thesis by simp
  qed
  then show ?thesis by (simp add: l alive_def)
qed

theorem only_stop_meets_freed_memory_witness:
  "\<exists>s e. reachable s \<and> bfault (Request calm_env ''setPreSharedKey'' [text_param [CHR ''a'', CHR 0xC3]]) s e \<and> e \<noteq> Use_after_free"
proof -
  let ?ps = "[text_param [CHR ''a'', CHR 0xC3]]"
  obtain s where s: "reachable s" using some_reachable by blast
  have o: "overreads (cstr [CHR ''a'', CHR 0xC3]) 65" "strlen [CHR ''a'', CHR 0xC3] \<le> 64" by code_simp+
  then have "\<not> request_sound calm_env ''setPreSharedKey'' ?ps s"
    by (simp add: request_sound_def get_single_string_def text_param_def key_read_def del: cstr_Cons cstr_id)
  with three_verbs_return [of s "''setPreSharedKey''" calm_env ?ps] reachable_ok [OF s]
  have "\<not> (\<exists>s'. request calm_env ''setPreSharedKey'' ?ps s = Inr s')" by simp
  then obtain e where e: "request calm_env ''setPreSharedKey'' ?ps s = Inl e"
    by (cases "request calm_env ''setPreSharedKey'' ?ps s") auto
  with only_stop_meets_freed_memory [OF s, of "Request calm_env ''setPreSharedKey'' ?ps"] s show ?thesis by auto
qed

end
