(* ===== verification/TestMode.thy ===== *)
theory TestMode
  imports Service
begin

text \<open>
  What \<open>start\<close> of \<open>src/wifiAp.c\<close> does before anything else when the binding is built with \<open>TEST_MODE\<close>, for machines whose WiFi card
  is a virtual one: it asks a script for the name of the interface and copies it over the configured one.
\<close>

section \<open>The block\<close>

definition TEST_WIFI_SCRIPT :: "env \<Rightarrow> string" where
  "TEST_WIFI_SCRIPT E = app_dir E @ ''/var/wifi_setup_test.sh''"

definition COMMAND_GET_VIRTUAL_INTERFACE_NAME :: string where
  "COMMAND_GET_VIRTUAL_INTERFACE_NAME = ''GET_VIRTUAL_INTERFACE_NAME''"

text \<open>
  \<open>memcpy\<close> into the string the interface name points to. The block of a string has one byte more than the string, for its
  terminator: bytes up to the length of the string leave the terminator where it is, and with it the old tail;
  one byte more overwrites the terminator, so that the read that follows (the debug message) runs past the
  block; more than that is already written past it.
\<close>

definition copy_into_name :: "string \<Rightarrow> 'a ap_scheme \<Rightarrow> fault + 'a ap_scheme" where
  "copy_into_name bytes s =
     (case interfaceName (wifi s) of
        None \<Rightarrow> Inl Null_deref
      | Some a \<Rightarrow>
          (case blocks s a of
             None \<Rightarrow> Inl Use_after_free
           | Some v \<Rightarrow>
               if length bytes \<le> length v
               then Inr (s\<lparr>blocks := (blocks s)(a \<mapsto> bytes @ drop (length bytes) v)\<rparr>)
               else Inl Out_of_bounds))"

text \<open>
  Neither the pipe nor the buffer is tested before \<open>fgets\<close> uses them, and the last byte of the line is looked at even when
  the line starts with a NUL byte, at the index before the first. The pipe is never closed.
\<close>

definition test_mode_interface :: "env \<Rightarrow> 'a ap_scheme \<Rightarrow> fault + 'a ap_scheme" where
  "test_mode_interface E s =
     (let cmd = take (PATH_MAX - 1) (TEST_WIFI_SCRIPT E @ '' '' @ COMMAND_GET_VIRTUAL_INTERFACE_NAME);
          (pipe, s1) = popen E cmd s;
          (r, s2) = ask E (Malloc PATH_MAX) s1
      in if r \<noteq> 0 then Inl Null_deref
         else
           (case pipe of
              None \<Rightarrow> Inl Null_deref
            | Some stream \<Rightarrow>
                (case fgets (PATH_MAX - 1) stream of
                   None \<Rightarrow> Inr s2
                 | Some (line, rest) \<Rightarrow>
                     let str = cstr line in
                     if str = [] then Inl Out_of_bounds
                     else copy_into_name (if last str = NL then butlast str else str) s2)))"

section \<open>What it does to the name\<close>

lemma copied_name:
  assumes "names_ok s" "iface s = Inr v" "wifi t = wifi s" "blocks t = blocks s" "brk t = brk s" "length bytes \<le> length v"
  shows "\<exists>s'. copy_into_name bytes t = Inr s' \<and> iface s' = Inr (bytes @ drop (length bytes) v) \<and> names_ok s'"
proof -
  from assms(2) obtain a where a: "interfaceName (wifi s) = Some a" "blocks s a = Some v"
    by (auto simp: iface_def deref_def split: option.splits)
  let ?s = "t\<lparr>blocks := (blocks t)(a \<mapsto> bytes @ drop (length bytes) v)\<rparr>"
  have "dom (blocks ?s) = dom (blocks s)" using a assms(4) by auto
  moreover have "heap_ok ?s"
    using assms(1,4,5) a by (auto simp: names_ok_def owned_by_def heap_ok_def)
  ultimately have "names_ok ?s" using assms(1,3) by (simp add: names_ok_def owned_by_def)
  then show ?thesis using a assms(3,4,6) by (simp add: copy_into_name_def iface_def deref_def)
qed

section \<open>Properties\<close>

text \<open>
  C36. The interface name after the block of \<open>TEST_MODE\<close> is the name the script printed only when it has the length of the
  configured one: a shorter name keeps the tail of the old one behind it, a longer one runs past the end of the
  heap string.
\<close>

theorem test_mode_copies_over_the_name:
  assumes "calm E" "names_ok s" "iface s = Inr v" "\<And>h c. stdout_of E h c = n @ NL # rest"
    "NL \<notin> set n" "NUL \<notin> set n" "length n < PATH_MAX - 2"
  shows "if length n \<le> length v
    then \<exists>s'. test_mode_interface E s = Inr s' \<and> iface s' = Inr (n @ drop (length n) v) \<and> names_ok s' \<and>
           (iface s' = Inr n \<longleftrightarrow> length n = length v)
    else test_mode_interface E s = Inl Out_of_bounds"
proof -
  have "fgets (PATH_MAX - 1) (n @ NL # rest) = Some (n @ [NL], rest)"
    using assms(5,7) fgets_chunk_line [of n "PATH_MAX - 2" rest] by (simp add: fgets_def PATH_MAX_def)
  moreover have "cstr (n @ [NL]) = n @ [NL]" using assms(6) by (simp add: cstr_no_NUL)
  ultimately have run: "test_mode_interface E s = copy_into_name n
      (s\<lparr>calls := calls s @ [Popen (take (PATH_MAX - 1) (TEST_WIFI_SCRIPT E @ '' '' @ COMMAND_GET_VIRTUAL_INTERFACE_NAME)),
         Malloc PATH_MAX]\<rparr>)" (is "_ = copy_into_name n ?t")
    by (simp add: test_mode_interface_def popen_def calm_ask [OF assms(1)] assms(4) Let_def)
  show ?thesis
  proof (cases "length n \<le> length v")
    case True
    from copied_name [OF assms(2,3) _ _ _ True, of ?t] obtain s' where
      "copy_into_name n ?t = Inr s'" "iface s' = Inr (n @ drop (length n) v)" "names_ok s'" by auto
    with True run show ?thesis by auto
  next
    case False
    from assms(3) obtain a where "interfaceName (wifi s) = Some a" "blocks s a = Some v"
      by (auto simp: iface_def deref_def split: option.splits)
    with False run show ?thesis by (simp add: copy_into_name_def)
  qed
qed

theorem test_mode_copies_over_the_name_witness:
  "\<exists>s'. test_mode_interface (calm_env\<lparr>stdout_of := \<lambda>_ _. ''wl1'' @ [NL]\<rparr>) idle_service = Inr s' \<and> iface s' = Inr ''wl1n0''"
proof -
  let ?E = "calm_env\<lparr>stdout_of := \<lambda>_ _. ''wl1'' @ [NL]\<rparr>"
  have "calm ?E" by (simp add: calm_def calm_env_def)
  moreover have "names_ok idle_service"
    by (auto simp: names_ok_def owned_by_def heap_ok_def name_ptrs_def somes_def idle_service_def zero_wifi_def)
  moreover have "iface idle_service = Inr ''wlan0''" by (simp add: iface_def deref_def idle_service_def)
  moreover have "stdout_of ?E h c = ''wl1'' @ NL # []" for h c by simp
  moreover have "NL \<notin> set ''wl1''" "NUL \<notin> set ''wl1''" "length ''wl1'' < PATH_MAX - 2" by code_simp+
  ultimately show ?thesis
    using test_mode_copies_over_the_name [of ?E idle_service "''wlan0''" "''wl1''" "[]"] by auto
qed

end
