(* ===== verification/Concurrent.thy ===== *)
theory Concurrent
  imports Faults "HOL-Library.Multiset"
begin

text \<open>
  Requests handled at the same time. The binding does not ask the framework for \<open>noconcurrency\<close> (\<open>src/wifiAp.c\<close>), so two requests may
  run in two threads. Cut into pieces are the requests whose interleaving matters most: the setters of the three
  names (\<open>set_string_copy\<close> of \<open>src/lib/wifi-ap-data.c\<close>, one piece for each of its accesses to shared data) and \<open>start\<close>,
  which reads the status under the status mutex and acts on it after giving the mutex back, and \<open>getAPnumberClients\<close>, which
  reads the interface name. All other
  requests, and the pieces of event threads, are whole steps between them, as in \<open>Binding\<close>, and so is what \<open>start\<close> does after its test. Every
  piece has a rule for its return and one for its fault.
\<close>

section \<open>A name setter in pieces\<close>

text \<open>
  Where a call of \<open>set_string_copy\<close> stands: called with its source; holding the new copy; having loaded the old pointer;
  having stored the new one, with the old one still to be freed; returned.
\<close>

datatype copying =
    Called "string option"
  | Copied nat
  | Loaded nat "nat option"
  | Stored "nat option"
  | Returned int

fun copy_step :: "env \<Rightarrow> name_field \<Rightarrow> copying \<Rightarrow> 'a ap_scheme \<Rightarrow> fault + (copying \<times> 'a ap_scheme)" where
  "copy_step E f (Called src) s =
     (case src of
        None \<Rightarrow> Inr (Returned WIFIAP_ERROR_INVALID, s)
      | Some str \<Rightarrow>
          if cstr str = [] then Inr (Returned WIFIAP_ERROR_TOO_SMALL, s)
          else (case strdup E str s of
                  (None, s1) \<Rightarrow> Inr (Returned WIFIAP_ERROR_OOM, s1)
                | (Some p, s1) \<Rightarrow> Inr (Copied p, s1)))"
| "copy_step E f (Copied p) s = Inr (Loaded p (name_of f (wifi s)), s)"
| "copy_step E f (Loaded p old) s = Inr (Stored old, s\<lparr>wifi := put_name f (Some p) (wifi s)\<rparr>)"
| "copy_step E f (Stored old) s = bindE (free_block old s) (\<lambda>s1. Inr (Returned WIFIAP_NO_ERROR, s1))"
| "copy_step E f (Returned r) s = Inr (Returned r, s)"

text \<open>The blocks a call in progress has to itself: the copy it has not stored yet, or the old string it has yet to free.\<close>

fun held :: "copying \<Rightarrow> nat option list" where
  "held (Called src) = []"
| "held (Copied p) = [Some p]"
| "held (Loaded p old) = [Some p]"
| "held (Stored old) = [old]"
| "held (Returned r) = []"

section \<open>Requests in progress\<close>

text \<open>
  \<open>Naming\<close> is a request for a name setter whose parameter has been read, \<open>Testing\<close> a request for \<open>start\<close> that has not read the
  status yet, \<open>Tested\<close> one that has, with what it found, and \<open>Counting\<close> a request for the number of clients that has loaded the
  pointer to the interface name and has still to read the string. Each has the environment that answers it.
\<close>

datatype progress = Naming name_field copying | Testing | Tested bool | Counting "nat option"

type_synonym pool = "(env \<times> progress) list"

text \<open>The verb \<open>start\<close> in two pieces: the test of the status, under the status mutex, and all that follows it.\<close>

definition start_test :: "'a service_scheme \<Rightarrow> bool" where
  "start_test s = (status (wifi s) = Status_started)"

definition start_rest :: "env \<Rightarrow> bool \<Rightarrow> 'a service_scheme \<Rightarrow> fault + 'a service_scheme" where
  "start_rest E started s =
     (if started then Inr (afb_req_reply E Success None s)
      else bindE (startAp E s) (\<lambda>(sts, s1).
        if sts = 0 then Inr (afb_req_reply E Success None s1)
        else Inr (afb_req_reply E (AFB_USER_ERRNO (- sts)) (Some (start_error_text sts)) s1)))"

definition setter_reply :: "env \<Rightarrow> int \<Rightarrow> 'a world_scheme \<Rightarrow> 'a world_scheme" where
  "setter_reply E sts s =
     afb_req_reply E (if sts = WIFIAP_NO_ERROR then Success
                      else if sts = WIFIAP_ERROR_TOO_SMALL then AFB_ERRNO_INVALID_REQUEST
                      else if sts = WIFIAP_ERROR_TOO_LARGE then AFB_ERRNO_INVALID_REQUEST
                      else AFB_ERRNO_INTERNAL_ERROR) None s"

definition count_rest :: "env \<Rightarrow> nat option \<Rightarrow> 'a service_scheme \<Rightarrow> fault + 'a service_scheme" where
  "count_rest E p s =
     bindE (deref p s) (\<lambda>i.
       let cmd = take (PATH_MAX - 1) (''iw dev '' @ i @ '' station dump''); (pipe, s1) = popen E cmd s in
       case pipe of
         None \<Rightarrow> Inr (afb_req_reply E AFB_ERRNO_INVALID_REQUEST
                   (Some ''Failed to get the number of clients connected to an access point!'') s1)
       | Some stream \<Rightarrow>
           Inr (reply_single_key_uint32 E ''clients-number'' (word_of_nat (count_stations stream 0)) s1))"

text \<open>Who is setting a name, and who is about to read it.\<close>

fun setting :: "name_field \<Rightarrow> env \<times> progress \<Rightarrow> bool" where
  "setting f (E, Naming g c) = (f = g)"
| "setting f (E, j) = False"

fun reading :: "name_field \<Rightarrow> env \<times> progress \<Rightarrow> bool" where
  "reading f (E, Counting p) = (f = Interface_name)"
| "reading f (E, Tested b) = True"
| "reading f (E, j) = False"

text \<open>Requests that are whole steps here: all but the name setters.\<close>

fun uninterrupted :: "action \<Rightarrow> bool" where
  "uninterrupted (Request E name ps) = (name \<notin> set name_verbs)"
| "uninterrupted l = True"

text \<open>The whole steps that read names, or the string a name was when a thread was created.\<close>

fun reads_names :: "action \<Rightarrow> bool" where
  "reads_names (Request E name ps) = (name \<in> {''start'', ''stop'', ''restart'', ''getAPclientsNumber''})"
| "reads_names l = True"

definition no_setters :: "pool \<Rightarrow> bool" where
  "no_setters js \<longleftrightarrow> (\<forall>j \<in> set js. \<forall>f. \<not> setting f j)"

text \<open>
  Steps of the pool and the state. With \<open>one\<close>, a setter of a name has that name to itself, as under a lock for readers and writers: no other
  setter of it is in progress, no request that has loaded it, no \<open>start\<close> past its test, and no step that reads names comes between its
  pieces. The code has nothing that would ensure it.
\<close>

inductive cstep :: "bool \<Rightarrow> pool \<times> service \<Rightarrow> fault + pool \<times> service \<Rightarrow> bool" for one :: bool where
  name_arrives: "get_single_string E ps s = (Some src, s1) \<Longrightarrow>
    one \<longrightarrow> (\<forall>j \<in> set js. \<not> setting f j \<and> \<not> reading f j) \<Longrightarrow>
    cstep one (js, s) (Inr (js @ [(E, Naming f (Called src))], s1))"
| name_refused: "get_single_string E ps s = (None, s1) \<Longrightarrow> cstep one (js, s) (Inr (js, s1))"
| name_moves: "copy_step E f c s = Inr (c', s1) \<Longrightarrow>
    cstep one (us @ (E, Naming f c) # vs, s) (Inr (us @ (E, Naming f c') # vs, s1))"
| name_faults: "copy_step E f c s = Inl e \<Longrightarrow> cstep one (us @ (E, Naming f c) # vs, s) (Inl e)"
| name_replies: "cstep one (us @ (E, Naming f (Returned r)) # vs, s) (Inr (us @ vs, setter_reply E r s))"
| start_arrives: "cstep one (js, s) (Inr (js @ [(E, Testing)], s))"
| start_tests: "one \<longrightarrow> no_setters (us @ vs) \<Longrightarrow>
    cstep one (us @ (E, Testing) # vs, s) (Inr (us @ (E, Tested (start_test s)) # vs, s))"
| start_goes_on: "start_rest E b s = Inr s1 \<Longrightarrow> cstep one (us @ (E, Tested b) # vs, s) (Inr (us @ vs, s1))"
| start_faults: "start_rest E b s = Inl e \<Longrightarrow> cstep one (us @ (E, Tested b) # vs, s) (Inl e)"
| count_arrives: "one \<longrightarrow> (\<forall>j \<in> set js. \<not> setting Interface_name j) \<Longrightarrow>
    cstep one (js, s) (Inr (js @ [(E, Counting (interfaceName (wifi s)))], s))"
| count_goes_on: "count_rest E p s = Inr s1 \<Longrightarrow> cstep one (us @ (E, Counting p) # vs, s) (Inr (us @ vs, s1))"
| count_faults: "count_rest E p s = Inl e \<Longrightarrow> cstep one (us @ (E, Counting p) # vs, s) (Inl e)"
| whole: "bstep l s s1 \<Longrightarrow> uninterrupted l \<Longrightarrow> one \<and> reads_names l \<longrightarrow> no_setters js \<Longrightarrow> cstep one (js, s) (Inr (js, s1))"
| whole_faults: "bfault l s e \<Longrightarrow> uninterrupted l \<Longrightarrow> one \<and> reads_names l \<longrightarrow> no_setters js \<Longrightarrow> cstep one (js, s) (Inl e)"

inductive csteps :: "bool \<Rightarrow> pool \<times> service \<Rightarrow> fault + pool \<times> service \<Rightarrow> bool" for one :: bool where
  stay: "csteps one x (Inr x)"
| go: "csteps one x (Inr y) \<Longrightarrow> cstep one y r \<Longrightarrow> csteps one x r"

text \<open>A request that has the binding to itself, as the end of a run of the pool.\<close>

fun alone :: "fault + service \<Rightarrow> fault + pool \<times> service" where
  "alone (Inl e) = Inl e"
| "alone (Inr s) = Inr ([], s)"

section \<open>One request alone\<close>

lemma count_in_two: "getAPnumberClients E s = count_rest E (interfaceName (wifi s)) s"
  by (simp add: getAPnumberClients_def count_rest_def iface_def)

lemma start_in_two: "start E s = start_rest E (start_test s) s"
  by (simp add: start_def start_rest_def start_test_def)

lemma wifi_same [simp]: "s\<lparr>wifi := wifi s\<rparr> = s" for s :: "'a ap_scheme"
  by simp

text \<open>The pieces one after the other are \<open>set_string_copy\<close>.\<close>

lemma strdup_wifi: "strdup E str s = (p, s1) \<Longrightarrow> wifi s1 = wifi s" for s s1 :: "'a ap_scheme"
  using strdup_more(1) [of E str s] ap_more [of s1 s] by simp

lemma copying_alone:
  fixes s :: service
  assumes "csteps one x (Inr ([(E, Naming f (Called src))], s))"
  shows "case name_setter f E src s of Inl e \<Rightarrow> csteps one x (Inl e)
     | Inr (r, s') \<Rightarrow> csteps one x (Inr ([(E, Naming f (Returned r))], s'))"
proof -
  have mv: "csteps one x (Inr ([(E, Naming f c')], t'))"
    if "csteps one x (Inr ([(E, Naming f c)], t))" "copy_step E f c t = Inr (c', t')" for c t c' t'
    using go [OF that(1) name_moves [OF that(2), of one "[]" "[]", simplified]] .
  have fl: "csteps one x (Inl e)"
    if "csteps one x (Inr ([(E, Naming f c)], t))" "copy_step E f c t = Inl e" for c t e
    using go [OF that(1) name_faults [OF that(2), of one "[]" "[]", simplified]] .
  show ?thesis
  proof (cases "\<exists>str p s1. src = Some str \<and> cstr str \<noteq> [] \<and> strdup E str s = (Some p, s1)")
    case False
    then show ?thesis using mv [OF assms] strdup_wifi [of E _ s]
      by (auto simp: name_setter_def set_string_copy_def split: option.splits prod.splits)
  next
    case True
    then obtain str p s1 where t: "src = Some str" "cstr str \<noteq> []" "strdup E str s = (Some p, s1)" by blast
    let ?s2 = "s1\<lparr>wifi := put_name f (Some p) (wifi s1)\<rparr>"
    have c1: "csteps one x (Inr ([(E, Naming f (Copied p))], s1))" by (rule mv [OF assms]) (simp add: t)
    have c2: "csteps one x (Inr ([(E, Naming f (Loaded p (name_of f (wifi s))))], s1))"
      by (rule mv [OF c1]) (simp add: strdup_wifi [OF t(3)])
    have c3: "csteps one x (Inr ([(E, Naming f (Stored (name_of f (wifi s))))], ?s2))"
      by (rule mv [OF c2]) simp
    have free: "free_block q ?s2 = bindE (free_block q s1) (\<lambda>s3. Inr (s3\<lparr>wifi := put_name f (Some p) (wifi s3)\<rparr>))" for q
      by (simp add: free_block_def split: option.split)
    show ?thesis
    proof (cases "free_block (name_of f (wifi s)) s1")
      case (Inl e)
      then have "csteps one x (Inl e)" by (intro fl [OF c3]) (simp add: free)
      then show ?thesis using Inl t by (simp add: name_setter_def set_string_copy_def)
    next
      case (Inr s3)
      then have "csteps one x (Inr ([(E, Naming f (Returned 0))], s3\<lparr>wifi := put_name f (Some p) (wifi s3)\<rparr>))"
        by (intro mv [OF c3]) (simp add: free)
      then show ?thesis using Inr t by (simp add: name_setter_def set_string_copy_def)
    qed
  qed
qed

lemma name_verb_alone: "csteps one ([], s) (alone (request E (name_verb f) ps s))"
proof -
  obtain v s1 where g: "get_single_string E ps s = (v, s1)" by fastforce
  show ?thesis
  proof (cases v)
    case None
    have "csteps one ([], s) (Inr ([], s1))" by (rule go [OF stay name_refused [OF g [unfolded None]]])
    with g None show ?thesis by (simp add: request_name_setter single_string_set_def)
  next
    case (Some src)
    have "csteps one ([], s) (Inr ([(E, Naming f (Called src))], s1))"
      using go [OF stay name_arrives [OF g [unfolded Some], of one "[]" f]] by simp
    note r = copying_alone [OF this]
    show ?thesis
    proof (cases "name_setter f E src s1")
      case (Inl e)
      with r g Some show ?thesis by (simp add: request_name_setter single_string_set_def)
    next
      case (Inr y)
      obtain q s2 where y: "y = (q, s2)" by fastforce
      have "csteps one ([], s) (Inr ([(E, Naming f (Returned q))], s2))" using r Inr y by simp
      from go [OF this name_replies [of one "[]" E f q "[]", simplified]]
      show ?thesis using g Some Inr y
        by (simp add: request_name_setter single_string_set_def setter_reply_def Let_def)
    qed
  qed
qed

section \<open>Ownership while requests are in progress\<close>

fun blocks_held :: "env \<times> progress \<Rightarrow> nat option list" where
  "blocks_held (E, Naming f c) = held c"
| "blocks_held (E, j) = []"

definition pool_held :: "pool \<Rightarrow> nat option list" where
  "pool_held js = concat (List.map blocks_held js)"

text \<open>The heap is the three names and what the calls in progress hold, each block once.\<close>

definition pool_owned :: "pool \<Rightarrow> 'a ap_scheme \<Rightarrow> bool" where
  "pool_owned js s \<longleftrightarrow> owned_by s (name_ptrs (wifi s) @ pool_held js)"

text \<open>A request that has loaded a name still sees it there, and a name with a setter has no other user.\<close>

fun fresh :: "wifiApT \<Rightarrow> env \<times> progress \<Rightarrow> bool" where
  "fresh w (E, Naming f (Loaded p old)) = (old = name_of f w)"
| "fresh w (E, Counting p) = (p = interfaceName w)"
| "fresh w j = True"

definition one_setter :: "pool \<Rightarrow> bool" where
  "one_setter js \<longleftrightarrow> (\<forall>f. (\<exists>j \<in> set js. setting f j) \<longrightarrow> length (filter (\<lambda>j. setting f j \<or> reading f j) js) \<le> 1)"

definition pool_ok :: "pool \<Rightarrow> 'a ap_scheme \<Rightarrow> bool" where
  "pool_ok js s \<longleftrightarrow> params_ok (wifi s) \<and> pool_owned js s \<and> (\<forall>j \<in> set js. fresh (wifi s) j) \<and> one_setter js \<and>
     named s"

lemma pool_held_parts [simp]:
  "pool_held [] = []" "pool_held (us @ vs) = pool_held us @ pool_held vs"
  "pool_held (j # js) = blocks_held j @ pool_held js"
  by (simp_all add: pool_held_def)

lemma mset_somes: "mset (somes ps) = image_mset the (filter_mset (\<lambda>p. p \<noteq> None) (mset ps))"
  by (induction ps) (auto simp: somes_def)

lemma owned_by_perm: "owned_by s ps \<Longrightarrow> mset ps = mset qs \<Longrightarrow> owned_by s qs"
proof -
  assume o: "owned_by s ps" and "mset ps = mset qs"
  then have m: "mset (somes ps) = mset (somes qs)" by (simp add: mset_somes)
  from o show "owned_by s qs"
    using mset_eq_imp_distinct_iff [OF m] mset_eq_setD [OF m] by (simp add: owned_by_def)
qed

lemma owned_by_new:
  assumes "owned_by s ps" "strdup E str s = (Some p, s')"
  shows "owned_by s' (Some p # ps)"
proof -
  from assms(1) have "heap_ok s" by (simp add: owned_by_def)
  from heap.alloc_some [OF this assms(2)] assms(1) show ?thesis by (auto simp: owned_by_def)
qed

lemma owned_by_kept: "owned_by s ps \<Longrightarrow> blocks s' = blocks s \<Longrightarrow> brk s' = brk s \<Longrightarrow> owned_by s' ps"
  by (simp add: owned_by_def heap_ok_def)

lemma owned_by_freed:
  assumes "owned_by s (old # ps)"
  shows "\<exists>s'. free_block old s = Inr s' \<and> owned_by s' ps"
proof (cases old)
  case None
  with assms show ?thesis by (simp add: free_block_def owned_by_def)
next
  case (Some a)
  with assms have "a \<in> dom (blocks s)" and "a \<notin> set (somes ps)" and "heap_ok s" by (auto simp: owned_by_def)
  with assms Some show ?thesis by (auto simp: free_block_def owned_by_def heap_ok_def)
qed

lemma name_ptrs_put: "mset (name_ptrs (put_name f p w)) + {#name_of f w#} = mset (name_ptrs w) + {#p#}"
  by (cases f) (simp_all add: name_ptrs_def)

lemma params_ok_put [simp]: "params_ok (put_name f p w) = params_ok w"
  by (cases f) (simp_all add: params_unfold)

lemma one_setter_middle:
  assumes "one_setter (us @ (E, Naming f c) # vs)" "j \<in> set us \<union> set vs"
  shows "\<not> setting f j \<and> \<not> reading f j"
proof (rule ccontr)
  let ?use = "\<lambda>j. setting f j \<or> reading f j"
  assume "\<not> (\<not> setting f j \<and> \<not> reading f j)"
  then have "filter ?use us \<noteq> [] \<or> filter ?use vs \<noteq> []"
    using assms(2) by (auto simp: filter_empty_conv)
  then have "0 < length (filter ?use us) + length (filter ?use vs)" by auto
  moreover have "length (filter ?use (us @ (E, Naming f c) # vs)) \<le> 1"
    using assms(1) unfolding one_setter_def by (auto simp del: filter_append filter.simps)
  ultimately show False by simp
qed

lemma one_setter_drop: "one_setter (us @ j # vs) \<Longrightarrow> one_setter (us @ vs)"
  unfolding one_setter_def
proof (intro allI impI)
  fix f
  assume all: "\<forall>f. (\<exists>i \<in> set (us @ j # vs). setting f i) \<longrightarrow> length (filter (\<lambda>i. setting f i \<or> reading f i) (us @ j # vs)) \<le> 1"
    and "\<exists>i \<in> set (us @ vs). setting f i"
  then have "length (filter (\<lambda>i. setting f i \<or> reading f i) (us @ j # vs)) \<le> 1" by auto
  then show "length (filter (\<lambda>i. setting f i \<or> reading f i) (us @ vs)) \<le> 1" by (auto split: if_splits)
qed

text \<open>A request that joins, when what it sets or reads is not being set.\<close>

lemma one_setter_join:
  assumes "one_setter (us @ vs)" "\<And>f i. setting f j \<Longrightarrow> i \<in> set (us @ vs) \<Longrightarrow> \<not> setting f i \<and> \<not> reading f i"
    "\<And>f i. reading f j \<Longrightarrow> i \<in> set (us @ vs) \<Longrightarrow> \<not> setting f i"
  shows "one_setter (us @ j # vs)"
  unfolding one_setter_def
proof (intro allI impI)
  fix f
  let ?use = "\<lambda>j. setting f j \<or> reading f j"
  assume s: "\<exists>i \<in> set (us @ j # vs). setting f i"
  show "length (filter ?use (us @ j # vs)) \<le> 1"
  proof (cases "setting f j")
    case True
    then have "filter ?use (us @ vs) = []" using assms(2) by (force simp: filter_empty_conv)
    then show ?thesis by auto
  next
    case False
    with s have e: "\<exists>i \<in> set (us @ vs). setting f i" by auto
    then have "\<not> ?use j" using False assms(3) by blast
    moreover have "length (filter ?use (us @ vs)) \<le> 1" using e assms(1) unfolding one_setter_def by blast
    ultimately show ?thesis by simp
  qed
qed

lemma one_setter_moves: "one_setter (us @ (E, Naming f c) # vs) = one_setter (us @ (E', Naming f c') # vs)"
  unfolding one_setter_def by (simp cong: if_cong)

lemma fresh_other: "\<not> setting f j \<and> \<not> reading f j \<Longrightarrow> fresh (put_name f p w) j = fresh w j"
  using put_other [of Interface_name f p w] by (cases "(put_name f p w, j)" rule: fresh.cases) auto

text \<open>A piece of a setter keeps all this, and does not fault.\<close>

lemma strdup_none: "strdup E str s = (None, s1) \<Longrightarrow> blocks s1 = blocks s \<and> brk s1 = brk s"
  by (auto simp: strdup_def ask_def Let_def split: if_splits)

lemma free_wifi: "free_block p s = Inr s' \<Longrightarrow> wifi s' = wifi s" for s s' :: "'a ap_scheme"
  by (auto simp: free_block_def split: option.splits if_splits)

lemma copy_step_owned:
  fixes s :: "'a ap_scheme"
  assumes "owned_by s (name_ptrs (wifi s) @ held c @ ps)" "\<And>p old. c = Loaded p old \<Longrightarrow> old = name_of f (wifi s)"
  shows "\<exists>c' s'. copy_step E f c s = Inr (c', s') \<and> owned_by s' (name_ptrs (wifi s') @ held c' @ ps) \<and>
    (\<forall>p old. c' = Loaded p old \<longrightarrow> old = name_of f (wifi s')) \<and>
    (\<exists>p. wifi s' = put_name f p (wifi s) \<and> (p \<noteq> None \<or> p = name_of f (wifi s)))"
proof (cases c)
  case (Called src)
  show ?thesis
  proof (cases "\<exists>str. src = Some str \<and> cstr str \<noteq> []")
    case False
    then show ?thesis using Called assms(1) by (auto split: option.splits intro!: exI [of _ "name_of f (wifi s)"])
  next
    case True
    then obtain str where str: "src = Some str" "cstr str \<noteq> []" by blast
    obtain p s1 where p: "strdup E str s = (p, s1)" by fastforce
    have w: "wifi s1 = wifi s" by (rule strdup_wifi [OF p])
    show ?thesis
    proof (cases p)
      case None
      have "owned_by s1 (name_ptrs (wifi s) @ ps)"
        using assms(1) Called strdup_none [of E str s s1] p None by (auto intro: owned_by_kept)
      then show ?thesis using Called str p None w by (auto intro!: exI [of _ "name_of f (wifi s)"])
    next
      case (Some a)
      have "owned_by s1 (name_ptrs (wifi s) @ Some a # ps)"
        by (rule owned_by_perm [OF owned_by_new [OF assms(1) p [unfolded Some]]]) (simp add: Called)
      then show ?thesis using Called str p Some w by (auto intro!: exI [of _ "name_of f (wifi s)"])
    qed
  qed
next
  case (Copied p)
  then show ?thesis using assms(1) by (auto intro!: exI [of _ "name_of f (wifi s)"])
next
  case (Loaded p old)
  have m: "mset (name_ptrs (wifi s) @ Some p # ps) = mset (name_ptrs (put_name f (Some p) (wifi s)) @ old # ps)"
    using name_ptrs_put [of f "Some p" "wifi s"] assms(2) [OF Loaded] by simp
  have "owned_by s (name_ptrs (put_name f (Some p) (wifi s)) @ old # ps)"
    using owned_by_perm [OF _ m] assms(1) Loaded by simp
  then show ?thesis using Loaded by auto
next
  case (Stored old)
  have "owned_by s (old # name_ptrs (wifi s) @ ps)" by (rule owned_by_perm [OF assms(1)]) (simp add: Stored)
  from owned_by_freed [OF this] obtain s' where s': "free_block old s = Inr s'" "owned_by s' (name_ptrs (wifi s) @ ps)" by blast
  then show ?thesis using Stored free_wifi [OF s'(1)] by (auto intro!: exI [of _ "name_of f (wifi s)"])
next
  case (Returned r)
  then show ?thesis using assms(1) by (auto intro!: exI [of _ "name_of f (wifi s)"])
qed

lemma whole_leaves: "bstep l s s' \<Longrightarrow> uninterrupted l \<Longrightarrow> leaves_names s s'"
  by (induction rule: bstep.cases) (auto intro: request_leaves kept_leaves kept_enter kept_read)

section \<open>The invariant of the pool\<close>

definition conc_ok :: "pool \<Rightarrow> service \<Rightarrow> bool" where
  "conc_ok js s \<longleftrightarrow> pool_ok js s \<and> service_ok s"

lemma pool_ok_leaves: "pool_ok js s \<Longrightarrow> leaves_names s s' \<Longrightarrow> pool_ok js s'"
proof -
  assume ok: "pool_ok js s" and l: "leaves_names s s'"
  have n: "name_of f (wifi s') = name_of f (wifi s)" for f
    by (rule name_of_ptrs) (use l in \<open>simp add: leaves_names_def\<close>)
  have "interfaceName (wifi s') = interfaceName (wifi s)" using n [of Interface_name] by simp
  with n have "fresh (wifi s') j = fresh (wifi s) j" for j by (cases "(wifi s, j)" rule: fresh.cases) auto
  with ok l leaves_named [OF l] show "pool_ok js s'"
    using owned_by_kept [of s "name_ptrs (wifi s) @ pool_held js" s'] by (auto simp: pool_ok_def pool_owned_def leaves_names_def)
qed

lemma pool_ok_cong:
  assumes "pool_ok js s" "mset (pool_held js') = mset (pool_held js)" "one_setter js'"
    "\<And>j. j \<in> set js' \<Longrightarrow> fresh (wifi s) j"
  shows "pool_ok js' s"
  using assms owned_by_perm [of s "name_ptrs (wifi s) @ pool_held js" "name_ptrs (wifi s) @ pool_held js'"]
  by (auto simp: pool_ok_def pool_owned_def)

lemma pool_ok_join:
  assumes "pool_ok (us @ vs) s" "blocks_held j = []" "fresh (wifi s) j"
    "\<And>f i. setting f j \<Longrightarrow> i \<in> set (us @ vs) \<Longrightarrow> \<not> setting f i \<and> \<not> reading f i"
    "\<And>f i. reading f j \<Longrightarrow> i \<in> set (us @ vs) \<Longrightarrow> \<not> setting f i"
  shows "pool_ok (us @ j # vs) s"
proof -
  have "one_setter (us @ vs)" using assms(1) by (simp add: pool_ok_def)
  from one_setter_join [OF this assms(4,5)] have "one_setter (us @ j # vs)" by blast
  with assms(1-3) show ?thesis by (intro pool_ok_cong [OF assms(1)]) (auto simp: pool_ok_def)
qed

lemmas pool_ok_arrive = pool_ok_join [where vs = "[]", simplified]

lemma pool_ok_leave:
  assumes "pool_ok (us @ j # vs) s" "blocks_held j = []"
  shows "pool_ok (us @ vs) s"
  using assms one_setter_drop [of us j vs] by (intro pool_ok_cong [OF assms(1)]) (auto simp: pool_ok_def)

lemma name_moves_ok:
  assumes "pool_ok (us @ (E, Naming f c) # vs) s"
  shows "\<exists>c' s'. copy_step E f c s = Inr (c', s') \<and> pool_ok (us @ (E, Naming f c') # vs) s'"
proof -
  let ?ps = "pool_held us @ pool_held vs"
  have m: "mset (name_ptrs w @ pool_held (us @ (E, Naming f d) # vs)) = mset (name_ptrs w @ held d @ ?ps)" for w d
    by simp
  have "owned_by s (name_ptrs (wifi s) @ held c @ ?ps)"
    by (rule owned_by_perm [OF _ m]) (use assms in \<open>simp add: pool_ok_def pool_owned_def\<close>)
  moreover have "old = name_of f (wifi s)" if "c = Loaded p old" for p old
    using assms that by (simp add: pool_ok_def)
  ultimately obtain c' s' p where s': "copy_step E f c s = Inr (c', s')" "owned_by s' (name_ptrs (wifi s') @ held c' @ ?ps)"
    "\<forall>p old. c' = Loaded p old \<longrightarrow> old = name_of f (wifi s')" "wifi s' = put_name f p (wifi s)"
    "p \<noteq> None \<or> p = name_of f (wifi s)"
    using copy_step_owned [of s c ?ps f E] by blast
  have one: "one_setter (us @ (E, Naming f c) # vs)" using assms by (simp add: pool_ok_def)
  have "fresh (wifi s') j" if "j \<in> set us \<union> set vs" for j
    using one_setter_middle [OF one that] that assms fresh_other [of f j p "wifi s"] by (auto simp: pool_ok_def s'(4))
  moreover have "fresh (wifi s') (E, Naming f c')" using s'(3) by (cases c') simp_all
  moreover have "owned_by s' (name_ptrs (wifi s') @ pool_held (us @ (E, Naming f c') # vs))"
    by (rule owned_by_perm [OF s'(2)]) (simp add: m)
  moreover have "one_setter (us @ (E, Naming f c') # vs)" using one one_setter_moves by blast
  moreover have "named s'" using named_put [OF s'(4,5)] assms by (simp add: pool_ok_def)
  ultimately have "pool_ok (us @ (E, Naming f c') # vs) s'" using assms by (auto simp: pool_ok_def pool_owned_def s'(4))
  with s'(1) show ?thesis by blast
qed

lemma copy_step_rest:
  fixes s s' :: "'a ap_scheme"
  assumes "copy_step E f c s = Inr (c', s')"
  shows "status (wifi s') = status (wifi s) \<and> ap.more s' = ap.more s"
proof (cases c)
  case (Called src)
  have m: "wifi t = wifi s \<and> ap.more t = ap.more s" if "strdup E str s = (p, t)" for str p t
    using that strdup_more(1) [of E str s] ap_more [of t s] by simp
  show ?thesis using assms Called m by (auto split: option.splits if_splits prod.splits)
next
  case (Loaded p old)
  with assms show ?thesis by (cases f) auto
next
  case (Stored old)
  with assms obtain s1 where "free_block old s = Inr s1" "s' = s1" by auto
  then show ?thesis using free_block_more [of old s s1] ap_more [of s1 s] by simp
qed (use assms in auto)

lemma service_ok_rest:
  fixes s s' :: "'a service_scheme"
  assumes "status (wifi s') = status (wifi s)" "ap.more s' = ap.more s" "service_ok s"
  shows "service_ok s'"
proof -
  have "wifiApThreadPtr s' = wifiApThreadPtr s \<and> objects s' = objects s \<and> threadList s' = threadList s \<and> next_obj s' = next_obj s"
    using assms(2) by (cases s; cases s') simp
  with assms registry_ok_cong [of s' s] show ?thesis by (simp add: service_ok_def launched_def)
qed

lemma service_ok_setter_reply [simp]: "service_ok (setter_reply E r s) = service_ok s"
  by (simp add: setter_reply_def)

lemma kept_start_rest: "start_rest E b s = Inr s' \<Longrightarrow> kept s s'"
  by (auto simp: start_rest_def split: if_splits intro!: kept_reply dest: kept_startAp)

lemma kept_count_rest: "count_rest E p s = Inr s' \<Longrightarrow> kept s s'"
  by (auto simp: count_rest_def popen_def reply_single_key_uint32_def Let_def split_beta
      intro!: kept_reply kept_ask kept_reply_json split: option.splits if_splits)

text \<open>Nobody frees what a reader is about to read.\<close>

lemma pool_reads:
  assumes "pool_ok (us @ (E, Counting p) # vs) s"
  shows "\<exists>v. deref p s = Inr v"
proof -
  from assms obtain a where a: "interfaceName (wifi s) = Some a" "p = Some a"
    by (auto simp: pool_ok_def named_def dest: spec [of _ Interface_name])
  have "owned_by s (name_ptrs (wifi s) @ pool_held (us @ (E, Counting p) # vs))"
    using assms by (simp add: pool_ok_def pool_owned_def)
  then have "a \<in> dom (blocks s)" using a(1) by (simp add: owned_by_def name_ptrs_def)
  then obtain v where "blocks s a = Some v" by auto
  with a(2) show ?thesis by (simp add: deref_def)
qed

lemma pool_readable: "pool_ok js s \<Longrightarrow> readable s"
proof -
  assume ok: "pool_ok js s"
  have "\<exists>v. deref (name_of f (wifi s)) s = Inr v" for f
  proof -
    from ok obtain a where a: "name_of f (wifi s) = Some a" by (auto simp: pool_ok_def named_def)
    then have "Some a \<in> set (name_ptrs (wifi s))" by (cases f) (simp_all add: name_ptrs_def)
    then have "a \<in> set (somes (name_ptrs (wifi s) @ pool_held js))" by (auto simp: somes_def)
    then have "a \<in> dom (blocks s)" using ok by (simp add: pool_ok_def pool_owned_def owned_by_def)
    with a show ?thesis by (auto simp: deref_def)
  qed
  then show ?thesis by (simp add: readable_def)
qed

text \<open>What may fault while names are set one setter at a time: a start or a whole step, and on freed memory only a stop or a thread.\<close>

definition may_fault :: "pool \<Rightarrow> service \<Rightarrow> fault \<Rightarrow> bool" where
  "may_fault js s e \<longleftrightarrow>
     (\<exists>us E b vs. js = us @ (E, Tested b) # vs \<and> start_rest E b s = Inl e \<and> e \<noteq> Use_after_free) \<or>
     (\<exists>l. bfault l s e \<and> uninterrupted l \<and> (e = Use_after_free \<longrightarrow> stops l))"

lemma start_rest_alive:
  assumes "conc_ok js s"
  shows "alive (start_rest E b s)"
proof -
  have "alive (startAp E s)"
    using assms pool_readable by (intro startAp_alive) (auto simp: conc_ok_def pool_ok_def service_ok_def)
  then show ?thesis unfolding start_rest_def by (auto intro!: alive_bind)
qed

lemma cstep_ok:
  assumes "cstep True (js, s) r" "conc_ok js s"
  shows "case r of Inr (js', s') \<Rightarrow> conc_ok js' s' | Inl e \<Rightarrow> may_fault js s e"
  using assms(1)
proof cases
  case (name_arrives E ps src s1 f)
  then have "s1 = s" using get_single_string_cases by blast
  moreover have "pool_ok (js @ [(E, Naming f (Called src))]) s"
    by (rule pool_ok_arrive) (use assms(2) name_arrives(3) in \<open>auto simp: conc_ok_def\<close>)
  ultimately show ?thesis using assms(2) name_arrives(1) by (simp add: conc_ok_def)
next
  case (name_refused E ps s1)
  then have "s1 = reply_invalid_params E s" using get_single_string_cases by blast
  then have "kept s s1" by (simp add: reply_invalid_params_def kept_reply)
  from pool_ok_leaves [OF _ kept_leaves [OF this]] kept_service_ok [OF this] name_refused assms(2) show ?thesis
    by (simp add: conc_ok_def)
next
  case (name_moves E f c c' s1 us vs)
  with assms(2) name_moves_ok [of us E f c vs s] copy_step_rest [OF name_moves(3)] service_ok_rest [of s1 s]
  show ?thesis by (auto simp: conc_ok_def)
next
  case (name_faults E f c e us vs)
  with assms(2) name_moves_ok [of us E f c vs s] show ?thesis by (auto simp: conc_ok_def)
next
  case (name_replies us E f q vs)
  have "pool_ok (us @ vs) s"
    by (rule pool_ok_leave [of us "(E, Naming f (Returned q))"]) (use assms(2) name_replies(1) in \<open>simp_all add: conc_ok_def\<close>)
  then have "conc_ok (us @ vs) (setter_reply E q s)"
    using pool_ok_leaves [OF _ leaves_reply [OF leaves_refl]] assms(2) by (auto simp: conc_ok_def setter_reply_def)
  with name_replies(2) show ?thesis by simp
next
  case (start_arrives E)
  have "pool_ok (js @ [(E, Testing)]) s"
    by (rule pool_ok_arrive) (use assms(2) in \<open>simp_all add: conc_ok_def\<close>)
  with start_arrives assms(2) show ?thesis by (simp add: conc_ok_def)
next
  case (start_tests us vs E)
  have "pool_ok (us @ vs) s"
    by (rule pool_ok_leave [of us "(E, Testing)"]) (use assms(2) start_tests(1) in \<open>simp_all add: conc_ok_def\<close>)
  then have "pool_ok (us @ (E, Tested (start_test s)) # vs) s"
    by (rule pool_ok_join) (use start_tests(3) in \<open>simp_all add: no_setters_def\<close>)
  with start_tests assms(2) show ?thesis by (simp add: conc_ok_def)
next
  case (start_goes_on E b s1 us vs)
  note k = kept_start_rest [OF start_goes_on(3)]
  have "pool_ok (us @ vs) s"
    by (rule pool_ok_leave [of us "(E, Tested b)"]) (use assms(2) start_goes_on(1) in \<open>simp_all add: conc_ok_def\<close>)
  from pool_ok_leaves [OF this kept_leaves [OF k]] kept_service_ok [OF k] start_goes_on assms(2) show ?thesis
    by (simp add: conc_ok_def)
next
  case (start_faults E b e us vs)
  with start_rest_alive [OF assms(2), of E b] show ?thesis by (auto simp: may_fault_def)
next
  case (count_arrives E)
  have "pool_ok (js @ [(E, Counting (interfaceName (wifi s)))]) s"
    by (rule pool_ok_arrive) (use assms(2) count_arrives(2) in \<open>auto simp: conc_ok_def\<close>)
  with count_arrives assms(2) show ?thesis by (simp add: conc_ok_def)
next
  case (count_goes_on E p s1 us vs)
  note k = kept_count_rest [OF count_goes_on(3)]
  have "pool_ok (us @ vs) s"
    by (rule pool_ok_leave [of us "(E, Counting p)"]) (use assms(2) count_goes_on(1) in \<open>simp_all add: conc_ok_def\<close>)
  from pool_ok_leaves [OF this kept_leaves [OF k]] kept_service_ok [OF k] count_goes_on assms(2) show ?thesis
    by (simp add: conc_ok_def)
next
  case (count_faults E p e us vs)
  then have "pool_ok (us @ (E, Counting p) # vs) s" using assms(2) by (simp add: conc_ok_def)
  from pool_reads [OF this] count_faults(3) show ?thesis by (auto simp: count_rest_def Let_def split: option.splits prod.splits)
next
  case (whole l s1)
  have "service_ok s1" using step_keeps [OF whole(2)] assms(2) by (simp add: conc_ok_def)
  with whole assms(2) pool_ok_leaves [OF _ whole_leaves [OF whole(2,3)]] show ?thesis by (simp add: conc_ok_def)
next
  case (whole_faults l e)
  have "stops l" if "e = Use_after_free"
  proof (rule ccontr)
    assume n: "\<not> stops l"
    then obtain E name ps where l: "l = Request E name ps" by (cases l) auto
    have "alive (request E name ps s)"
      using whole_faults(3) n assms(2) pool_readable unfolding l
      by (intro request_alive) (auto simp: conc_ok_def pool_ok_def service_ok_def)
    with whole_faults(2) that l show False by (simp add: alive_def)
  qed
  with whole_faults(1-3) show ?thesis by (auto simp: may_fault_def)
qed

lemma conc_ok_start: "binding_ok s \<Longrightarrow> service_ok s \<Longrightarrow> named s \<Longrightarrow> conc_ok [] s"
  by (simp add: conc_ok_def pool_ok_def pool_owned_def one_setter_def binding_ok_def names_ok_def)

lemma conc_ok_end: "conc_ok [] s \<Longrightarrow> binding_ok s"
  by (simp add: conc_ok_def pool_ok_def pool_owned_def binding_ok_def names_ok_def)

lemma csteps_ok:
  assumes "csteps True x r" "conc_ok (fst x) (snd x)"
  shows "case r of Inr (js, s) \<Rightarrow> conc_ok js s | Inl e \<Rightarrow> \<exists>js s. csteps True x (Inr (js, s)) \<and> conc_ok js s \<and> may_fault js s e"
  using assms
proof (induction rule: csteps.induct)
  case (stay x)
  then show ?case by (cases x) simp
next
  case (go x y r)
  obtain js s where y: "y = (js, s)" by fastforce
  with go have "conc_ok js s" by simp
  with cstep_ok go.hyps y show ?case by (fastforce split: sum.splits)
qed

section \<open>Two requests\<close>

lemma first_moves: "csteps one x (Inr ([(E, Naming f c), j], t)) \<Longrightarrow> copy_step E f c t = Inr (c', t') \<Longrightarrow>
    csteps one x (Inr ([(E, Naming f c'), j], t'))"
  using go [OF _ name_moves [of E f c t c' t' one "[]" "[j]", simplified], of x] by blast

lemma second_moves: "csteps one x (Inr ([j, (E, Naming f c)], t)) \<Longrightarrow> copy_step E f c t = Inr (c', t') \<Longrightarrow>
    csteps one x (Inr ([j, (E, Naming f c')], t'))"
  using go [OF _ name_moves [of E f c t c' t' one "[j]" "[]", simplified], of x] by blast

lemma second_faults: "csteps one x (Inr ([j, (E, Naming f c)], t)) \<Longrightarrow> copy_step E f c t = Inl e \<Longrightarrow> csteps one x (Inl e)"
  using go [OF _ name_faults [of E f c t e one "[j]" "[]", simplified], of x] by blast

lemma second_cannot_read: "csteps one x (Inr ([j, (E, Counting p)], t)) \<Longrightarrow> count_rest E p t = Inl e \<Longrightarrow> csteps one x (Inl e)"
  using go [OF _ count_faults [of E p t e one "[j]" "[]", simplified], of x] by blast

lemma named_block:
  assumes "binding_ok s" "named s"
  obtains a where "name_of f (wifi s) = Some a" "a \<in> dom (blocks s)"
  using named_readable [OF assms, of f] assms(2) by (auto simp: deref_def split: option.splits)

lemma copied_block:
  assumes "calm E"
  obtains p t where "strdup E str s = (Some p, t)" "wifi t = wifi s" "dom (blocks s) \<subseteq> dom (blocks t)"
  using assms by (auto simp: strdup_def calm_ask)

lemma two_setters:
  assumes "binding_ok s" "named s" "calm E1" "calm E2" "cstr str1 \<noteq> []" "cstr str2 \<noteq> []"
  shows "csteps False ([(E1, Naming f (Called (Some str1))), (E2, Naming f (Called (Some str2)))], s) (Inl Use_after_free)"
    (is "csteps False ?x _")
proof -
  obtain a where a: "name_of f (wifi s) = Some a" "a \<in> dom (blocks s)" by (rule named_block [OF assms(1,2)])
  obtain p s1 where p: "strdup E1 str1 s = (Some p, s1)" "wifi s1 = wifi s" "dom (blocks s) \<subseteq> dom (blocks s1)"
    by (rule copied_block [OF assms(3)])
  obtain q s2 where q: "strdup E2 str2 s1 = (Some q, s2)" "wifi s2 = wifi s1" "dom (blocks s1) \<subseteq> dom (blocks s2)"
    by (rule copied_block [OF assms(4)])
  have w: "wifi s2 = wifi s" and d: "a \<in> dom (blocks s2)" using p q a(2) by auto
  let ?s3 = "s2\<lparr>wifi := put_name f (Some p) (wifi s2)\<rparr>"
  let ?s4 = "?s3\<lparr>wifi := put_name f (Some q) (wifi ?s3)\<rparr>"
  let ?s5 = "?s4\<lparr>blocks := (blocks ?s4)(a := None)\<rparr>"
  have 1: "csteps False ?x (Inr ([(E1, Naming f (Copied p)), (E2, Naming f (Called (Some str2)))], s1))"
    by (rule first_moves [OF stay]) (simp add: p(1) assms(5))
  have 2: "csteps False ?x (Inr ([(E1, Naming f (Copied p)), (E2, Naming f (Copied q))], s2))"
    by (rule second_moves [OF 1]) (simp add: q(1) assms(6))
  have 3: "csteps False ?x (Inr ([(E1, Naming f (Loaded p (Some a))), (E2, Naming f (Copied q))], s2))"
    by (rule first_moves [OF 2]) (simp add: a(1) w)
  have 4: "csteps False ?x (Inr ([(E1, Naming f (Loaded p (Some a))), (E2, Naming f (Loaded q (Some a)))], s2))"
    by (rule second_moves [OF 3]) (simp add: a(1) w)
  have 5: "csteps False ?x (Inr ([(E1, Naming f (Stored (Some a))), (E2, Naming f (Loaded q (Some a)))], ?s3))"
    by (rule first_moves [OF 4]) simp
  have 6: "csteps False ?x (Inr ([(E1, Naming f (Stored (Some a))), (E2, Naming f (Stored (Some a)))], ?s4))"
    by (rule second_moves [OF 5]) simp
  have 7: "csteps False ?x (Inr ([(E1, Naming f (Returned 0)), (E2, Naming f (Stored (Some a)))], ?s5))"
    by (rule first_moves [OF 6]) (use d in \<open>simp add: free_block_def\<close>)
  show ?thesis by (rule second_faults [OF 7]) (simp add: free_block_def)
qed

lemma setter_and_reader:
  assumes "binding_ok s" "named s" "calm E1" "cstr str \<noteq> []"
  shows "csteps False ([(E1, Naming Interface_name (Called (Some str))), (E2, Counting (interfaceName (wifi s)))], s) (Inl Use_after_free)"
    (is "csteps False ?x _")
proof -
  obtain a where "name_of Interface_name (wifi s) = Some a" and b: "a \<in> dom (blocks s)" by (rule named_block [OF assms(1,2)])
  then have a: "interfaceName (wifi s) = Some a" by simp
  obtain p s1 where p: "strdup E1 str s = (Some p, s1)" "wifi s1 = wifi s" "dom (blocks s) \<subseteq> dom (blocks s1)"
    by (rule copied_block [OF assms(3)])
  let ?j = "(E2, Counting (interfaceName (wifi s)))" and ?s2 = "s1\<lparr>wifi := put_name Interface_name (Some p) (wifi s1)\<rparr>"
  let ?s3 = "?s2\<lparr>blocks := (blocks ?s2)(a := None)\<rparr>"
  have 1: "csteps False ?x (Inr ([(E1, Naming Interface_name (Copied p)), ?j], s1))"
    by (rule first_moves [OF stay]) (simp add: p(1) assms(4))
  have 2: "csteps False ?x (Inr ([(E1, Naming Interface_name (Loaded p (Some a))), ?j], s1))"
    by (rule first_moves [OF 1]) (simp add: a p(2))
  have 3: "csteps False ?x (Inr ([(E1, Naming Interface_name (Stored (Some a))), ?j], ?s2))"
    by (rule first_moves [OF 2]) simp
  have 4: "csteps False ?x (Inr ([(E1, Naming Interface_name (Returned 0)), ?j], ?s3))"
    by (rule first_moves [OF 3]) (use b p(3) in \<open>auto simp: free_block_def\<close>)
  show ?thesis by (rule second_cannot_read [OF 4]) (simp add: count_rest_def deref_def a)
qed

lemma startable_status:
  assumes "startable s" "wifi s' = (wifi s)\<lparr>status := st\<rparr>" "blocks s' = blocks s"
  shows "startable s'"
proof -
  have "deref p s' = deref p s" for p by (rule deref_cong) (rule assms(3))
  with assms(1,2) show ?thesis
    by (simp add: startable_def names_set_def iface_def addresses_ok_def stored_range_def params_ok_update)
qed

section \<open>Properties\<close>

text \<open>
  A request that has the binding to itself does in pieces what it does as a whole: for each of the three name setters,
  any parameters and any state, the pieces lead to the very result of the request, a fault included, whether
  setters have their name to themselves or not; \<open>start\<close> is the test of the status followed by the rest, and \<open>getAPnumberClients\<close> the load of
  the pointer to the interface name followed by the rest.
\<close>

lemma pieces_are_the_request:
  "csteps one ([], s) (alone (request E (name_verb f) ps s)) \<and> start E s = start_rest E (start_test s) s \<and>
   getAPnumberClients E s = count_rest E (interfaceName (wifi s)) s"
  by (simp add: name_verb_alone start_in_two count_in_two)



text \<open>
  C14. Nothing gives a setter its name to itself. Two accepted setters of the same name can free the same string twice: both load
  the old pointer before either has stored its own. And a request for the number of clients can read a string that
  \<open>setInterfaceName\<close> has freed. Both are possible from every state the binding can reach.
\<close>

theorem names_have_no_lock:
  assumes "reachable s" "calm E1" "calm E2" "cstr str1 \<noteq> []" "cstr str2 \<noteq> []"
  shows "csteps False ([(E1, Naming f (Called (Some str1))), (E2, Naming f (Called (Some str2)))], s) (Inl Use_after_free) \<and>
    csteps False ([(E1, Naming Interface_name (Called (Some str1))), (E2, Counting (interfaceName (wifi s)))], s) (Inl Use_after_free)"
  using two_setters [OF _ _ assms(2-5)] setter_and_reader [OF _ _ assms(2,4)] reachable_ok [OF assms(1)] by blast

theorem names_have_no_lock_witness:
  "\<exists>s. reachable s \<and> csteps False
     ([(calm_env, Naming Host_name (Called (Some ''a''))), (calm_env, Naming Host_name (Called (Some ''b'')))], s) (Inl Use_after_free)"
proof -
  obtain s where "reachable s" using some_reachable by blast
  with names_have_no_lock [OF this calm_calm_env calm_calm_env, of "''a''" "''b''" Host_name] show ?thesis by auto
qed

text \<open>
  C15. \<open>start\<close> reads the status under its mutex but gives the mutex back before it starts anything: of two
  requests at the same time both may find the access point stopped and, when every call succeeds, start it and reply success. The first event thread is then running
  without being in the list or in \<open>wifiApThreadPtr\<close>, so no \<open>stop\<close> can end it. One after the other, the second request does nothing but reply.
\<close>

theorem two_starts_lose_a_thread:
  assumes "calm E1" "calm E2" "threads_ok s" "startable s" "status (wifi s) \<noteq> Status_started"
  shows "(\<exists>s' t b. csteps one ([], s) (Inr ([], s')) \<and>
      replies (calls s') = replies (calls s) @ [(Success, None), (Success, None)] \<and>
      objects s' (next_obj s) = Some t \<and> threadContext t = interfaceName (wifi s) \<and> next_obj s \<noteq> b \<and>
      wifiApThreadPtr s' = Some b \<and> threadList s' = [b] \<and> (\<forall>i. findThreadFromIdInList s' i \<noteq> Inr (Some (next_obj s)))) \<and>
    (\<exists>s1. start E1 s = Inr s1 \<and> start E2 s1 = Inr (afb_req_reply E2 Success None s1))"
proof -
  obtain s1 where s1: "startAp E1 s = Inr (0, s1)" "start_succeeded s 0 s1"
    using calm_startAp [OF assms(1,3,4)] by blast
  let ?t = "afb_req_reply E1 Success None s1"
  have t: "threads_ok ?t" "startable ?t" "status (wifi ?t) = Status_started" "next_obj s < next_obj ?t"
    using s1(2) startable_status [OF assms(4), of ?t Status_started]
    by (auto simp: start_succeeded_def threads_ok_def afb_req_reply_def ask_def)
  obtain s2 where s2: "startAp E2 ?t = Inr (0, s2)" "start_succeeded ?t 0 s2"
    using calm_startAp [OF assms(2) t(1,2)] by blast
  let ?u = "afb_req_reply E2 Success None s2"
  have seq: "start E1 s = Inr ?t" "start E2 ?t = Inr (afb_req_reply E2 Success None ?t)"
    using s1(1) assms(5) t(3) by (simp_all add: start_def)
  have b: "start_test s = False" using assms(5) by (simp add: start_test_def)
  have r1: "start_rest E1 False s = Inr ?t" and r2: "start_rest E2 False ?t = Inr ?u"
    using s1(1) s2(1) by (simp_all add: start_rest_def)
  let ?x = "([], s)"
  note step = go [of one ?x]
  have 1: "csteps one ?x (Inr ([(E1, Testing)], s))" using step [OF stay start_arrives [of one "[]" s E1]] by simp
  have 2: "csteps one ?x (Inr ([(E1, Testing), (E2, Testing)], s))" using step [OF 1 start_arrives [of one _ s E2]] by simp
  have 3: "csteps one ?x (Inr ([(E1, Tested False), (E2, Testing)], s))"
    using step [OF 2 start_tests [of one "[]" "[(E2, Testing)]" E1 s, simplified no_setters_def, simplified]] b by simp
  have 4: "csteps one ?x (Inr ([(E1, Tested False), (E2, Tested False)], s))"
    using step [OF 3 start_tests [of one "[_]" "[]" E2 s, simplified no_setters_def, simplified]] b by simp
  have 5: "csteps one ?x (Inr ([(E2, Tested False)], ?t))"
    using step [OF 4 start_goes_on [OF r1, of one "[]", simplified]] by simp
  have 6: "csteps one ?x (Inr ([], ?u))"
    using step [OF 5 start_goes_on [OF r2, of one "[]" "[]", simplified]] by simp
  have "replies (calls s1) = replies (calls s)" "replies (calls s2) = replies (calls ?t)"
    using silent_startAp [OF s1(1) silent_refl] silent_startAp [OF s2(1) silent_refl] by (simp_all add: silent_def)
  then have rep: "replies (calls ?u) = replies (calls s) @ [(Success, None), (Success, None)]"
    by (simp add: afb_req_reply_def)
  have f: "objects (afb_req_reply E a p v) = objects v" "threadList (afb_req_reply E a p v) = threadList v"
    "wifiApThreadPtr (afb_req_reply E a p v) = wifiApThreadPtr v" for E a p and v :: service
    by (simp_all add: afb_req_reply_def ask_def)
  from s1(2) obtain x where "objects ?t (next_obj s) = Some x" "threadContext x = interfaceName (wifi s)"
    by (auto simp: start_succeeded_def f)
  with s2(2) obtain y where y: "objects ?u (next_obj s) = Some y" "threadContext y = interfaceName (wifi s)"
    unfolding start_succeeded_def by (metis f(1))
  have b: "wifiApThreadPtr ?u = Some (next_obj ?t)" "threadList ?u = [next_obj ?t]" using s2(2) by (simp_all add: start_succeeded_def f)
  have "\<forall>i. findThreadFromIdInList ?u i \<noteq> Inr (Some (next_obj s))"
    using t(4) b(2) by (auto simp: findThreadFromIdInList_def split: option.splits if_splits)
  moreover have "next_obj s \<noteq> next_obj ?t" using t(4) by simp
  ultimately show ?thesis using 6 rep y b seq by blast
qed

theorem two_starts_lose_a_thread_witness:
  "\<exists>s'. csteps False ([], ready_service) (Inr ([], s')) \<and> replies (calls s') = [(Success, None), (Success, None)]"
proof -
  have "status (wifi ready_service) \<noteq> Status_started" "replies (calls ready_service) = []"
    by (simp_all add: ready_service_def idle_service_def sample_ap_def zero_wifi_def)
  with two_starts_lose_a_thread [OF ready_ok(3,3,1,2), of False] show ?thesis by auto
qed

end
