(* ===== verification/Copying.thy ===== *)
theory Copying
  imports ApConfig
begin

text \<open>
  The three texts that \<open>set_buffer\<close> of \<open>src/lib/wifi-ap-data.c\<close> copies with \<open>memcpy\<close> into the shared structure - SSID,
  passphrase and country code - when requests are handled at the same time: there is no lock, so the
  bytes of several copies, and of somebody who reads, can come in any order. Every byte is one access.
\<close>

section \<open>The three text buffers\<close>

datatype text_field = Ssid | Passphrase | Country_code

fun text_of :: "text_field \<Rightarrow> wifiApT \<Rightarrow> char list" where
  "text_of Ssid w = ssid w"
| "text_of Passphrase w = passphrase w"
| "text_of Country_code w = countryCode w"

fun put_text :: "text_field \<Rightarrow> char list \<Rightarrow> wifiApT \<Rightarrow> wifiApT" where
  "put_text Ssid b w = w\<lparr>ssid := b\<rparr>"
| "put_text Passphrase b w = w\<lparr>passphrase := b\<rparr>"
| "put_text Country_code b w = w\<lparr>countryCode := b\<rparr>"

fun shortest :: "text_field \<Rightarrow> nat" where
  "shortest Ssid = MIN_SSID_LENGTH"
| "shortest Passphrase = MIN_PASSPHRASE_LENGTH"
| "shortest Country_code = ISO_COUNTRYCODE_LENGTH"

fun longest :: "text_field \<Rightarrow> nat" where
  "longest Ssid = MAX_SSID_LENGTH"
| "longest Passphrase = MAX_PASSPHRASE_LENGTH"
| "longest Country_code = ISO_COUNTRYCODE_LENGTH"

fun text_setter :: "text_field \<Rightarrow> wifiApT \<Rightarrow> string option \<Rightarrow> fault + (int \<times> wifiApT)" where
  "text_setter Ssid = setSsidParameter"
| "text_setter Passphrase = setPassPhraseParameter"
| "text_setter Country_code = setCountryCodeParameter"

section \<open>A copy byte by byte\<close>

text \<open>
  Where a call of \<open>set_buffer\<close> stands: called with its source; in \<open>memcpy\<close>, with the positions it has still to write;
  returned. \<open>memcpy\<close> may write its bytes in any order: \<open>i\<close> picks the next of them.
\<close>

datatype writing = Asked "string option" | Writing string "nat list" | Answered int

fun fill_step :: "text_field \<Rightarrow> nat \<Rightarrow> writing \<Rightarrow> wifiApT \<Rightarrow> fault + (writing \<times> wifiApT)" where
  "fill_step f i (Asked src) w =
     Inr (case src of
            None \<Rightarrow> Answered WIFIAP_ERROR_INVALID
          | Some str \<Rightarrow>
              let len = strlen str in
              if len < shortest f then Answered WIFIAP_ERROR_TOO_SMALL
              else if len > longest f then Answered WIFIAP_ERROR_TOO_LARGE
              else Writing (cstr str @ [NUL]) [0..<len + 1], w)"
| "fill_step f i (Writing t ks) w =
     (if ks = [] then Inr (Answered WIFIAP_NO_ERROR, w)
      else let k = ks ! (i mod length ks) in
        if k < length (text_of f w)
        then Inr (Writing t (remove1 k ks), put_text f ((text_of f w)[k := t ! k]) w)
        else Inl Out_of_bounds)"
| "fill_step f i (Answered r) w = Inr (Answered r, w)"

text \<open>
  Somebody who reads the buffer as a string, \<open>snprintf\<close> of \<open>GenerateHostApConfFile\<close> for one: byte after byte up to
  the terminator.
\<close>

datatype scanning = Scanning string | Scanned string

fun scan_step :: "text_field \<Rightarrow> scanning \<Rightarrow> wifiApT \<Rightarrow> fault + scanning" where
  "scan_step f (Scanning acc) w =
     (if length acc < length (text_of f w)
      then Inr (let c = text_of f w ! length acc in if c = NUL then Scanned acc else Scanning (acc @ [c]))
      else Inl Out_of_bounds)"
| "scan_step f (Scanned acc) w = Inr (Scanned acc)"

text \<open>
  Any number of copies and readers at once; what else changes the structure leaves the three buffers alone and keeps the
  parameters validated, as the other setters do.
\<close>

datatype job = Fill writing | Scan scanning

type_synonym jobs = "(text_field \<times> job) list"

inductive fstep :: "jobs \<times> wifiApT \<Rightarrow> fault + jobs \<times> wifiApT \<Rightarrow> bool" where
  copy_begins: "fstep (js, w) (Inr (js @ [(f, Fill (Asked src))], w))"
| copy_moves: "fill_step f i c w = Inr (c', w') \<Longrightarrow> fstep (us @ (f, Fill c) # vs, w) (Inr (us @ (f, Fill c') # vs, w'))"
| copy_faults: "fill_step f i c w = Inl e \<Longrightarrow> fstep (us @ (f, Fill c) # vs, w) (Inl e)"
| scan_begins: "fstep (js, w) (Inr (js @ [(f, Scan (Scanning []))], w))"
| scan_moves: "scan_step f c w = Inr c' \<Longrightarrow> fstep (us @ (f, Scan c) # vs, w) (Inr (us @ (f, Scan c') # vs, w))"
| scan_faults: "scan_step f c w = Inl e \<Longrightarrow> fstep (us @ (f, Scan c) # vs, w) (Inl e)"
| other_change: "(\<forall>f. text_of f w' = text_of f w) \<Longrightarrow> (params_ok w \<longrightarrow> params_ok w') \<Longrightarrow> fstep (js, w) (Inr (js, w'))"

inductive fsteps :: "jobs \<times> wifiApT \<Rightarrow> fault + jobs \<times> wifiApT \<Rightarrow> bool" where
  fstay: "fsteps x (Inr x)"
| fgo: "fsteps x (Inr y) \<Longrightarrow> fstep y r \<Longrightarrow> fsteps x r"

section \<open>What every byte of a copy keeps\<close>

text \<open>The first bytes are never NUL, the last one always is.\<close>

definition text_ok :: "text_field \<Rightarrow> char list \<Rightarrow> bool" where
  "text_ok f b \<longleftrightarrow> length b = Suc (longest f) \<and> (\<forall>k < shortest f. b ! k \<noteq> NUL) \<and> b ! longest f = NUL"

definition source_ok :: "text_field \<Rightarrow> string \<Rightarrow> bool" where
  "source_ok f t \<longleftrightarrow> (\<exists>s. t = s @ [NUL] \<and> NUL \<notin> set s \<and> shortest f \<le> length s \<and> length s \<le> longest f)"

fun job_ok :: "text_field \<times> job \<Rightarrow> bool" where
  "job_ok (f, Fill (Writing t ks)) = (source_ok f t \<and> set ks \<subseteq> {..<length t})"
| "job_ok (f, Scan (Scanning acc)) = (NUL \<notin> set acc \<and> length acc \<le> longest f)"
| "job_ok (f, Scan (Scanned acc)) = (NUL \<notin> set acc \<and> shortest f \<le> length acc \<and> length acc \<le> longest f)"
| "job_ok j = True"

lemma text_of_put [simp]: "text_of g (put_text f b w) = (if g = f then b else text_of g w)"
  by (cases f; cases g) simp_all

lemma limits: "shortest f \<le> longest f" "0 < shortest f"
  by (cases f; simp)+

lemma text_ok_buffer: "text_ok f b \<longleftrightarrow> buffer_ok (Suc (longest f)) b \<and> shortest f \<le> strlen b"
proof -
  have "shortest f \<le> strlen b \<longleftrightarrow> (\<forall>k < shortest f. b ! k \<noteq> NUL)" if b: "length b = Suc (longest f)" "b ! longest f = NUL"
  proof
    assume le: "shortest f \<le> strlen b"
    show "\<forall>k < shortest f. b ! k \<noteq> NUL"
    proof (intro allI impI)
      fix k assume "k < shortest f"
      with le have k: "k < length (cstr b)" by (simp add: strlen_def)
      then have "b ! k = cstr b ! k" by (simp add: cstr_def takeWhile_nth)
      then show "b ! k \<noteq> NUL" using nth_mem [OF k] cstr_no_NUL [of b] by metis
    qed
  next
    assume n: "\<forall>k < shortest f. b ! k \<noteq> NUL"
    show "shortest f \<le> strlen b"
    proof (rule ccontr)
      assume "\<not> shortest f \<le> strlen b"
      with n have "b ! strlen b \<noteq> NUL" by simp
      moreover have "strlen b < length b" using b length_cstr_less [of b] by (metis lessI nth_mem strlen_def)
      ultimately show False using nth_length_takeWhile [of "\<lambda>c. c \<noteq> NUL" b] by (simp add: strlen_def cstr_def)
    qed
  qed
  moreover have "last b = b ! longest f" if "length b = Suc (longest f)" using that last_conv_nth [of b] by (cases b) auto
  ultimately show ?thesis by (auto simp: text_ok_def buffer_ok_def)
qed

lemma texts_ok: "params_ok w \<Longrightarrow> text_ok f (text_of f w)"
  using params_ok_buffers [of w] by (cases f) (simp_all add: text_ok_buffer)

lemma params_ok_text:
  assumes "params_ok w" "text_ok f b"
  shows "params_ok (put_text f b w)"
proof -
  have "strlen b \<le> longest f" using assms(2) buffer_ok_cstr_length [of "Suc (longest f)" b]
    by (simp add: text_ok_buffer strlen_def)
  with assms(2) params_ok_update(1-3) [OF assms(1), of b] show ?thesis by (cases f) (simp_all add: text_ok_buffer)
qed

lemma text_ok_byte:
  assumes "text_ok f b" "source_ok f t" "k < length t"
  shows "text_ok f (b[k := t ! k])"
proof -
  obtain s where s: "t = s @ [NUL]" "NUL \<notin> set s" "shortest f \<le> length s" "length s \<le> longest f"
    using assms(2) by (auto simp: source_ok_def)
  have "t ! k \<noteq> NUL" if "k < shortest f" using that s by (auto simp: nth_append in_set_conv_nth)
  moreover have "t ! k = NUL" if "k = longest f" using that s assms(3) by (simp add: nth_append)
  moreover have "k < length b" using s assms(1,3) by (simp add: text_ok_def)
  ultimately show ?thesis using assms(1) by (auto simp: text_ok_def nth_list_update)
qed

lemma remove1_subset: "set ks \<subseteq> A \<Longrightarrow> set (remove1 k ks) \<subseteq> A"
  by (meson notin_set_remove1 subset_iff)

lemma fill_step_ok:
  assumes "params_ok w" "job_ok (f, Fill c)"
  shows "\<exists>c' w'. fill_step f i c w = Inr (c', w') \<and> params_ok w' \<and> job_ok (f, Fill c')"
proof (cases c)
  case (Asked src)
  then show ?thesis using assms
    by (auto simp: Let_def source_ok_def strlen_def not_less split: option.splits)
next
  case (Writing t ks)
  show ?thesis
  proof (cases "ks = []")
    case True
    with Writing assms show ?thesis by simp
  next
    case False
    define k where "k = ks ! (i mod length ks)"
    have t: "source_ok f t" "set ks \<subseteq> {..<length t}" using assms(2) Writing by simp_all
    have ok: "text_ok f (text_of f w)" by (rule texts_ok [OF assms(1)])
    have "k \<in> set ks" using False by (simp add: k_def)
    with t(2) have k: "k < length t" by auto
    with t(1) have b: "k < length (text_of f w)" using ok by (auto simp: source_ok_def text_ok_def)
    have "fill_step f i c w = Inr (Writing t (remove1 k ks), put_text f ((text_of f w)[k := t ! k]) w)"
      using Writing False b by (simp add: k_def Let_def)
    moreover have "params_ok (put_text f ((text_of f w)[k := t ! k]) w)"
      by (rule params_ok_text [OF assms(1) text_ok_byte [OF ok t(1) k]])
    ultimately show ?thesis using t remove1_subset [OF t(2)] by simp
  qed
next
  case (Answered r)
  with assms show ?thesis by simp
qed

lemma scan_step_ok:
  assumes "params_ok w" "job_ok (f, Scan c)"
  shows "\<exists>c'. scan_step f c w = Inr c' \<and> job_ok (f, Scan c')"
proof (cases c)
  case (Scanning acc)
  have ok: "text_ok f (text_of f w)" by (rule texts_ok [OF assms(1)])
  with assms(2) Scanning show ?thesis
    by (auto simp: text_ok_def Let_def not_less Suc_le_eq le_less)
next
  case (Scanned acc)
  with assms show ?thesis by simp
qed

lemma fstep_ok:
  assumes "fstep (js, w) r" "params_ok w" "list_all job_ok js"
  shows "\<exists>js' w'. r = Inr (js', w') \<and> params_ok w' \<and> list_all job_ok js'"
  using assms(1)
proof cases
  case (copy_moves f i c c' w' us vs)
  then show ?thesis using fill_step_ok [OF assms(2), of f c i] assms(3) by auto
next
  case (copy_faults f i c e us vs)
  then show ?thesis using fill_step_ok [OF assms(2), of f c i] assms(3) by auto
next
  case (scan_moves f c c' us vs)
  then show ?thesis using scan_step_ok [OF assms(2), of f c] assms(2,3) by auto
next
  case (scan_faults f c e us vs)
  then show ?thesis using scan_step_ok [OF assms(2), of f c] assms(3) by auto
qed (use assms(2,3) in auto)

lemma fsteps_ok:
  assumes "fsteps x r" "params_ok (snd x)" "list_all job_ok (fst x)"
  shows "\<exists>js w. r = Inr (js, w) \<and> params_ok w \<and> list_all job_ok js"
  using assms
proof (induction rule: fsteps.induct)
  case (fstay x)
  then show ?case by (cases x) simp
next
  case (fgo x y r)
  then obtain js w where "y = (js, w)" "params_ok w" "list_all job_ok js" by blast
  with fgo.hyps(2) fstep_ok show ?case by blast
qed

section \<open>A copy alone, in any order\<close>

fun fill_run :: "text_field \<Rightarrow> nat list \<Rightarrow> writing \<times> wifiApT \<Rightarrow> fault + (writing \<times> wifiApT)" where
  "fill_run f [] x = Inr x"
| "fill_run f (i # ks) (c, w) = bindE (fill_step f i c w) (fill_run f ks)"

lemma put_text_twice [simp]: "put_text f b (put_text f c w) = put_text f b w"
  by (cases f) simp_all

lemma put_text_same [simp]: "put_text f (text_of f w) w = w"
  by (cases f) simp_all

lemma run_answered: "fill_run f ks (Answered r, w) = Inr (Answered r, w)"
  by (induction ks) simp_all

lemma run_filling:
  assumes "length ks < length is" "distinct ks" "set ks \<subseteq> {..<length t}" "length t \<le> length (text_of f w)"
    "\<forall>k < length t. k \<notin> set ks \<longrightarrow> text_of f w ! k = t ! k"
  shows "fill_run f is (Writing t ks, w) = Inr (Answered 0, put_text f (t @ drop (length t) (text_of f w)) w)"
  using assms
proof (induction "is" arbitrary: ks w)
  case Nil
  then show ?case by simp
next
  case (Cons i "is")
  let ?b = "text_of f w"
  show ?case
  proof (cases "ks = []")
    case True
    with Cons.prems(4,5) have "t @ drop (length t) ?b = ?b" by (intro nth_equalityI) (auto simp: nth_append)
    with True show ?thesis by (simp add: run_answered)
  next
    case False
    define k where "k = ks ! (i mod length ks)"
    have k: "k \<in> set ks" using False by (simp add: k_def)
    with Cons.prems(3,4) have lt: "k < length t" "k < length ?b" by auto
    let ?w = "put_text f (?b[k := t ! k]) w"
    have "fill_step f i (Writing t ks) w = Inr (Writing t (remove1 k ks), ?w)" using False lt by (simp add: k_def Let_def)
    moreover have "fill_run f is (Writing t (remove1 k ks), ?w) =
        Inr (Answered 0, put_text f (t @ drop (length t) (text_of f ?w)) ?w)"
    proof (rule Cons.IH)
      show "length (remove1 k ks) < length is"
        using Cons.prems(1) k by (simp add: length_remove1) (metis length_pos_if_in_set Suc_pred less_Suc_eq_le not_less_eq)
      show "distinct (remove1 k ks)" "set (remove1 k ks) \<subseteq> {..<length t}" "length t \<le> length (text_of f ?w)"
        using Cons.prems(2-4) remove1_subset by auto
      show "\<forall>l < length t. l \<notin> set (remove1 k ks) \<longrightarrow> text_of f ?w ! l = t ! l"
        using Cons.prems(2,5) lt by (auto simp: nth_list_update)
    qed
    ultimately show ?thesis using lt by simp
  qed
qed

lemma text_setter_buffer:
  "text_setter f w src = bindE (set_buffer (text_of f w) src (shortest f) (longest f)) (\<lambda>(r, b). Inr (r, put_text f b w))"
  by (cases f) (simp_all add: setSsidParameter_def setPassPhraseParameter_def setCountryCodeParameter_def)

lemma fill_alone:
  assumes "length (text_of f w) = Suc (longest f)" "longest f + 2 < length is"
  shows "fill_run f is (Asked src, w) = bindE (text_setter f w src) (\<lambda>(r, w'). Inr (Answered r, w'))"
proof -
  obtain i ks where i: "is = i # ks" using assms(2) by (cases "is") auto
  show ?thesis
  proof (cases "\<exists>str. src = Some str \<and> shortest f \<le> strlen str \<and> strlen str \<le> longest f")
    case False
    then show ?thesis
      by (auto simp: i text_setter_buffer set_buffer_def run_answered Let_def not_le split: option.split)
  next
    case True
    then obtain str where str: "src = Some str" "shortest f \<le> strlen str" "strlen str \<le> longest f" by blast
    let ?t = "cstr str @ [NUL]"
    have "fill_run f ks (Writing ?t [0..<strlen str + 1], w) =
        Inr (Answered 0, put_text f (?t @ drop (length ?t) (text_of f w)) w)"
      using assms str by (intro run_filling) (auto simp: i strlen_def simp del: upt_Suc)
    then show ?thesis using str assms(1)
      by (simp add: i text_setter_buffer set_buffer_def strlen_def del: upt_Suc)
  qed
qed

section \<open>Two copies at once\<close>

definition mixture :: "(nat \<Rightarrow> bool) \<Rightarrow> string \<Rightarrow> string \<Rightarrow> string" where
  "mixture m a b = map (\<lambda>k. if m k then a ! k else b ! k) [0..<length a]"

lemma fill_next:
  assumes "k < n" "n \<le> length (text_of f w)"
  shows "fill_step f 0 (Writing t [k..<n]) w = Inr (Writing t [Suc k..<n], put_text f ((text_of f w)[k := t ! k]) w)"
  using assms by (simp add: upt_conv_Cons Let_def)

lemma first_fills: "fsteps x (Inr ([(f, Fill c), j], t)) \<Longrightarrow> fill_step f i c t = Inr (c', t') \<Longrightarrow> fsteps x (Inr ([(f, Fill c'), j], t'))"
  using fgo [OF _ copy_moves [of f i c t c' t' "[]" "[j]", simplified], of x] by blast

lemma second_fills: "fsteps x (Inr ([j, (f, Fill c)], t)) \<Longrightarrow> fill_step f i c t = Inr (c', t') \<Longrightarrow> fsteps x (Inr ([j, (f, Fill c')], t'))"
  using fgo [OF _ copy_moves [of f i c t c' t' "[j]" "[]", simplified], of x] by blast

lemma both_fill:
  assumes "fsteps x (Inr ([(f, Fill (Writing s [k..<n])), (f, Fill (Writing t [k..<n]))], w))" "k < n" "n \<le> length (text_of f w)"
  shows "fsteps x (Inr ([(f, Fill (Writing s [Suc k..<n])), (f, Fill (Writing t [Suc k..<n]))],
    put_text f ((text_of f w)[k := if b then s ! k else t ! k]) w))"
proof (cases b)
  case True
  from second_fills [OF assms(1) fill_next [OF assms(2,3)]]
  have "fsteps x (Inr ([(f, Fill (Writing s [k..<n])), (f, Fill (Writing t [Suc k..<n]))], put_text f ((text_of f w)[k := t ! k]) w))" .
  from first_fills [OF this fill_next [OF assms(2)]] assms(3) True show ?thesis by simp
next
  case False
  from first_fills [OF assms(1) fill_next [OF assms(2,3)]]
  have "fsteps x (Inr ([(f, Fill (Writing s [Suc k..<n])), (f, Fill (Writing t [k..<n]))], put_text f ((text_of f w)[k := s ! k]) w))" .
  from second_fills [OF this fill_next [OF assms(2)]] assms(3) False show ?thesis by simp
qed

lemma mixed_prefix:
  assumes "fsteps x (Inr ([(f, Fill (Writing s [0..<n])), (f, Fill (Writing t [0..<n]))], w))" "n \<le> length (text_of f w)" "k \<le> n"
  shows "fsteps x (Inr ([(f, Fill (Writing s [k..<n])), (f, Fill (Writing t [k..<n]))],
    put_text f (map (\<lambda>i. if m i then s ! i else t ! i) [0..<k] @ drop k (text_of f w)) w))"
  using assms(3)
proof (induction k)
  case 0
  then show ?case using assms(1) by simp
next
  case (Suc k)
  let ?v = "put_text f (map (\<lambda>i. if m i then s ! i else t ! i) [0..<k] @ drop k (text_of f w)) w"
  have "k < n" and le: "n \<le> length (text_of f ?v)" using Suc.prems assms(2) by simp_all
  from both_fill [OF Suc.IH this, of "m k"] Suc.prems
  have "fsteps x (Inr ([(f, Fill (Writing s [Suc k..<n])), (f, Fill (Writing t [Suc k..<n]))],
    put_text f ((text_of f ?v)[k := if m k then s ! k else t ! k]) ?v))" by simp
  moreover have "drop k (text_of f w) = text_of f w ! k # drop (Suc k) (text_of f w)"
    using \<open>k < n\<close> assms(2) by (simp add: Cons_nth_drop_Suc)
  ultimately show ?case by (simp add: list_update_append del: upt_Suc) (simp add: upt_Suc_append)
qed

lemma copies_mix:
  assumes "length (text_of f w) = Suc (longest f)" "NUL \<notin> set s" "NUL \<notin> set t" "length s = length t"
    "shortest f \<le> length s" "length s \<le> longest f"
  shows "fsteps ([], w) (Inr ([(f, Fill (Answered 0)), (f, Fill (Answered 0))],
    put_text f (mixture m s t @ NUL # drop (Suc (length s)) (text_of f w)) w))"
proof -
  let ?n = "Suc (length s)" and ?s = "s @ [NUL]" and ?t = "t @ [NUL]"
  have ask: "fill_step f 0 (Asked (Some u)) w = Inr (Writing (u @ [NUL]) [0..<?n], w)" if "u \<in> {s, t}" for u
    using that assms by (auto simp: strlen_def Let_def)
  have 1: "fsteps ([], w) (Inr ([(f, Fill (Asked (Some s)))], w))"
    using fgo [OF fstay copy_begins [of "[]" w f "Some s"]] by simp
  have 2: "fsteps ([], w) (Inr ([(f, Fill (Asked (Some s))), (f, Fill (Asked (Some t)))], w))"
    using fgo [OF 1 copy_begins [of _ w f "Some t"]] by simp
  have 3: "fsteps ([], w) (Inr ([(f, Fill (Writing ?s [0..<?n])), (f, Fill (Asked (Some t)))], w))"
    by (rule first_fills [OF 2 ask]) simp
  have 4: "fsteps ([], w) (Inr ([(f, Fill (Writing ?s [0..<?n])), (f, Fill (Writing ?t [0..<?n]))], w))"
    by (rule second_fills [OF 3 ask]) simp
  let ?w = "put_text f (map (\<lambda>i. if m i then ?s ! i else ?t ! i) [0..<?n] @ drop ?n (text_of f w)) w"
  have 5: "fsteps ([], w) (Inr ([(f, Fill (Writing ?s [])), (f, Fill (Writing ?t []))], ?w))"
    using mixed_prefix [OF 4, of ?n m] assms(1,6) by (simp del: upt_Suc)
  have 6: "fsteps ([], w) (Inr ([(f, Fill (Answered 0)), (f, Fill (Writing ?t []))], ?w))"
    by (rule first_fills [OF 5, of 0]) simp
  have 7: "fsteps ([], w) (Inr ([(f, Fill (Answered 0)), (f, Fill (Answered 0))], ?w))"
    by (rule second_fills [OF 6, of 0]) simp
  have "map (\<lambda>i. if m i then ?s ! i else ?t ! i) [0..<?n] = mixture m s t @ [NUL]"
    using assms(4) by (simp add: mixture_def nth_append)
  with 7 show ?thesis by (simp del: upt_Suc)
qed

section \<open>Properties\<close>

text \<open>
  C16. The text setters have no lock either, but their buffers survive it: whatever the order in which any number of copies into
  the SSID, the passphrase and the country code write their bytes, and whoever reads meanwhile, nobody leaves a
  buffer, the parameters stay validated after every single byte, and what a reader has read is a text of a permitted length. A
  copy that nobody disturbs is the setter, in whatever order it writes.
\<close>

theorem mixed_copies_keep_the_parameters:
  assumes "params_ok w"
  shows "(fsteps ([], w) r \<longrightarrow> (\<exists>js w'. r = Inr (js, w') \<and> params_ok w' \<and>
      (\<forall>f acc. (f, Scan (Scanned acc)) \<in> set js \<longrightarrow> shortest f \<le> length acc \<and> length acc \<le> longest f))) \<and>
    (longest f + 2 < length is \<longrightarrow>
      fill_run f is (Asked src, w) = bindE (text_setter f w src) (\<lambda>(e, w'). Inr (Answered e, w')))"
proof (intro conjI impI)
  assume "fsteps ([], w) r"
  from fsteps_ok [OF this] assms obtain js w' where "r = Inr (js, w')" "params_ok w'" "list_all job_ok js" by auto
  moreover from this(3) have "shortest f \<le> length acc \<and> length acc \<le> longest f" if "(f, Scan (Scanned acc)) \<in> set js" for f acc
    using that by (force simp: list_all_iff)
  ultimately show "\<exists>js w'. r = Inr (js, w') \<and> params_ok w' \<and>
      (\<forall>f acc. (f, Scan (Scanned acc)) \<in> set js \<longrightarrow> shortest f \<le> length acc \<and> length acc \<le> longest f)" by blast
next
  assume "longest f + 2 < length is"
  moreover have "length (text_of f w) = Suc (longest f)" using texts_ok [OF assms, of f] by (simp add: text_ok_def)
  ultimately show "fill_run f is (Asked src, w) = bindE (text_setter f w src) (\<lambda>(e, w'). Inr (Answered e, w'))"
    by (rule fill_alone [rotated])
qed

theorem mixed_copies_keep_the_parameters_witness:
  "\<exists>js w'. fsteps ([], sample_ap) (Inr (js, w')) \<and> js \<noteq> [] \<and> params_ok w' \<and>
     fill_run Country_code (replicate 6 1) (Asked (Some ''DE''), sample_ap) =
       Inr (Answered 0, sample_ap\<lparr>countryCode := ''DE'' @ [NUL]\<rparr>)"
proof -
  have set: "text_setter Country_code sample_ap (Some ''DE'') = Inr (0, sample_ap\<lparr>countryCode := ''DE'' @ [NUL]\<rparr>)"
    by (simp add: setCountryCodeParameter_def set_buffer_def strlen_def Let_def) (simp add: sample_ap_def)
  have "length (text_of Ssid sample_ap) = Suc (longest Ssid)" using texts_ok [OF params_ok_sample, of Ssid] by (simp add: text_ok_def)
  from copies_mix [OF this, of "''home''" "''cafe''"] obtain js w' where
    run: "fsteps ([], sample_ap) (Inr (js, w'))" "js \<noteq> []" by auto
  from mixed_copies_keep_the_parameters [OF params_ok_sample, of "Inr (js, w')" Country_code "replicate 6 1" "Some ''DE''"]
    run set show ?thesis by auto
qed

text \<open>
  C17. What the missing lock costs is the text: of two requests at the same time that are both answered with success, with
  texts of the same length, the buffer may hold afterwards any mixture of the two, each byte from the one or from the other.
\<close>

theorem two_copies_can_mix:
  assumes "params_ok w" "NUL \<notin> set s" "NUL \<notin> set t" "length s = length t" "shortest f \<le> length s" "length s \<le> longest f"
  shows "\<exists>w'. fsteps ([], w) (Inr ([(f, Fill (Answered 0)), (f, Fill (Answered 0))], w')) \<and>
    cstr (text_of f w') = map (\<lambda>k. if m k then s ! k else t ! k) [0..<length s]"
proof -
  have "length (text_of f w) = Suc (longest f)" using texts_ok [OF assms(1), of f] by (simp add: text_ok_def)
  from copies_mix [OF this assms(2-6), of m] have "fsteps ([], w) (Inr ([(f, Fill (Answered 0)), (f, Fill (Answered 0))],
    put_text f (mixture m s t @ NUL # drop (Suc (length s)) (text_of f w)) w))" .
  moreover have "NUL \<notin> set (mixture m s t)" using assms(2-4) by (auto simp: mixture_def in_set_conv_nth)
  ultimately show ?thesis by (auto simp: mixture_def)
qed

theorem two_copies_can_mix_witness:
  "\<exists>w'. fsteps ([], sample_ap) (Inr ([(Passphrase, Fill (Answered 0)), (Passphrase, Fill (Answered 0))], w')) \<and>
     cstr (passphrase w') = ''aaaabbbb''"
proof -
  have "map (\<lambda>k. if k < 4 then ''aaaaaaaa'' ! k else ''bbbbbbbb'' ! k) [0..<length ''aaaaaaaa''] = ''aaaabbbb''" by code_simp
  with two_copies_can_mix [OF params_ok_sample, of "''aaaaaaaa''" "''bbbbbbbb''" Passphrase "\<lambda>k. k < 4"] show ?thesis by simp
qed

end
