(* ===== verification/Channels.thy ===== *)
theory Channels
  imports ApConfig
begin

text \<open>
  \<open>setChannelParameter\<close> of \<open>src/lib/wifi-ap-data.c\<close> when requests are handled at the same time. The range a number is tested
  against is not local to the call: the setter stores the bounds of the mode in the structure and reads them
  back, without a lock. Every access is a piece of its own.
\<close>

section \<open>A call of the setter in pieces\<close>

text \<open>
  Where a call of \<open>setChannelParameter\<close> stands: called; having read the mode; having stored the lower bound; with both bounds
  stored; past the first test; past the second; returned. One piece for each access to shared data.
\<close>

datatype tuning =
    Called_with "32 word"
  | Mode_read "32 word" "8 word"
  | Lower_stored "32 word" "8 word"
  | Range_stored "32 word"
  | Not_below "32 word"
  | Not_above "32 word"
  | Replied int

text \<open>The \<open>switch\<close> over the mode; an unknown mode has no bounds.\<close>

definition mode_range :: "8 word \<Rightarrow> (16 word \<times> 16 word) option" where
  "mode_range h =
     (if h = ucast WIFI_AP_BITMASK_IEEE_STD_A then Some (MIN_CHANNEL_STD_A, MAX_CHANNEL_STD_A)
      else if h = ucast WIFI_AP_BITMASK_IEEE_STD_B \<or> h = ucast WIFI_AP_BITMASK_IEEE_STD_G
      then Some (MIN_CHANNEL_VALUE_DEF, MAX_CHANNEL_VALUE_DEF)
      else if h = ucast WIFI_AP_BITMASK_IEEE_STD_AD then Some (MIN_CHANNEL_STD_AD, MAX_CHANNEL_STD_AD)
      else None)"

fun tune_step :: "tuning \<Rightarrow> wifiApT \<Rightarrow> tuning \<times> wifiApT" where
  "tune_step (Called_with n) w = (Mode_read n (ucast (IeeeStdMask w AND HARDWARE_MODE_MASK)), w)"
| "tune_step (Mode_read n h) w =
     (case mode_range h of
        None \<Rightarrow> (Range_stored n, w)
      | Some (lo, hi) \<Rightarrow> (Lower_stored n h, w\<lparr>MIN_CHANNEL_VALUE := lo\<rparr>))"
| "tune_step (Lower_stored n h) w =
     (case mode_range h of
        None \<Rightarrow> (Range_stored n, w)
      | Some (lo, hi) \<Rightarrow> (Range_stored n, w\<lparr>MAX_CHANNEL_VALUE := hi\<rparr>))"
| "tune_step (Range_stored n) w =
     (if n < ucast (MIN_CHANNEL_VALUE w) then (Replied WIFIAP_ERROR_TOO_SMALL, w) else (Not_below n, w))"
| "tune_step (Not_below n) w =
     (if n > ucast (MAX_CHANNEL_VALUE w) then (Replied WIFIAP_ERROR_TOO_LARGE, w) else (Not_above n, w))"
| "tune_step (Not_above n) w = (Replied WIFIAP_NO_ERROR, w\<lparr>channelNumber := ucast n\<rparr>)"
| "tune_step (Replied r) w = (Replied r, w)"

text \<open>
  Any number of calls at once; \<open>setIeeeStandardParameter\<close> makes one access to shared data, the store of the mask, and all others leave
  the mask, the bounds and the channel alone.
\<close>

inductive tstep :: "tuning list \<times> wifiApT \<Rightarrow> tuning list \<times> wifiApT \<Rightarrow> bool" where
  channel_called: "tstep (js, w) (js @ [Called_with n], w)"
| channel_moves: "tune_step c w = (c', w') \<Longrightarrow> tstep (us @ c # vs, w) (us @ c' # vs, w')"
| standard_set: "setIeeeStandardParameter w m = Inr (r, w') \<Longrightarrow> tstep (js, w) (js, w')"
| other_set: "IeeeStdMask w' = IeeeStdMask w \<Longrightarrow> stored_range w' = stored_range w \<Longrightarrow> channelNumber w' = channelNumber w \<Longrightarrow>
    tstep (js, w) (js, w')"

inductive tsteps :: "tuning list \<times> wifiApT \<Rightarrow> tuning list \<times> wifiApT \<Rightarrow> bool" where
  tstay: "tsteps x x"
| tgo: "tsteps x y \<Longrightarrow> tstep y z \<Longrightarrow> tsteps x z"

section \<open>One call alone\<close>

fun tune_run :: "nat \<Rightarrow> tuning \<times> wifiApT \<Rightarrow> tuning \<times> wifiApT" where
  "tune_run 0 x = x"
| "tune_run (Suc k) (c, w) = tune_run k (tune_step c w)"

lemma tune_alone:
  "setChannelParameter w n = (case tune_run 6 (Called_with n, w) of (Replied r, w') \<Rightarrow> Inr (r, w') | _ \<Rightarrow> Inl Assert_failed)"
  by (simp add: setChannelParameter_def mode_range_def numeral_eq_Suc Let_def)

section \<open>What no schedule breaks\<close>

definition tuned :: "wifiApT \<Rightarrow> bool" where
  "tuned w \<longleftrightarrow> mask_ok (IeeeStdMask w) \<and> fst (stored_range w) \<in> {1, 7} \<and> snd (stored_range w) \<in> {6, 14, 196} \<and>
     1 \<le> unat (channelNumber w) \<and> unat (channelNumber w) \<le> 196"

text \<open>A call never meets an unknown mode, and never goes on with a number below 1 or above 196.\<close>

fun tuning_ok :: "tuning \<Rightarrow> bool" where
  "tuning_ok (Mode_read n h) = (mode_range h \<noteq> None)"
| "tuning_ok (Lower_stored n h) = (mode_range h \<noteq> None)"
| "tuning_ok (Not_below n) = (1 \<le> unat n)"
| "tuning_ok (Not_above n) = (1 \<le> unat n \<and> unat n \<le> 196)"
| "tuning_ok c = True"

lemma mode_range_mask: "mask_ok m \<Longrightarrow> mode_range (ucast (m AND 0x0F)) \<noteq> None"
  using hw_modes_bit_trick(3) [of m] by (auto simp: mask_ok_def mode_range_def)

lemma mode_range_values: "mode_range h = Some (lo, hi) \<Longrightarrow> lo \<in> {1, 7} \<and> hi \<in> {6, 14, 196}"
  by (auto simp: mode_range_def split: if_splits)

lemma unat_bound [simp]: "unat (ucast (x :: 16 word) :: 32 word) = unat x"
proof -
  have "unat x < 2 ^ 32" using unsigned_less [of x, where 'a = nat] by simp
  then show ?thesis by (simp add: unsigned_ucast_eq take_bit_nat_eq_self)
qed

lemma tuned_update:
  "tuned w \<Longrightarrow> lo \<in> {1, 7} \<Longrightarrow> tuned (w\<lparr>MIN_CHANNEL_VALUE := lo\<rparr>)"
  "tuned w \<Longrightarrow> hi \<in> {6, 14, 196} \<Longrightarrow> tuned (w\<lparr>MAX_CHANNEL_VALUE := hi\<rparr>)"
  "tuned w \<Longrightarrow> 1 \<le> unat c \<and> unat c \<le> 196 \<Longrightarrow> tuned (w\<lparr>channelNumber := c\<rparr>)"
  "tuned w \<Longrightarrow> mask_ok m \<Longrightarrow> tuned (w\<lparr>IeeeStdMask := m\<rparr>)"
  by (auto simp: tuned_def stored_range_def)

lemma tune_step_ok:
  assumes "tuned w" "tuning_ok c" "tune_step c w = (c', w')"
  shows "tuned w' \<and> tuning_ok c'"
proof (cases c)
  case (Called_with n)
  with assms show ?thesis using mode_range_mask [of "IeeeStdMask w"] by (auto simp: tuned_def)
next
  case (Mode_read n h)
  with assms mode_range_values [of h] show ?thesis by (auto simp del: insert_iff intro!: tuned_update)
next
  case (Lower_stored n h)
  with assms mode_range_values [of h] show ?thesis by (auto simp del: insert_iff intro!: tuned_update)
next
  case (Range_stored n)
  with assms show ?thesis by (auto simp: tuned_def stored_range_def word_less_nat_alt split: if_splits)
next
  case (Not_below n)
  with assms show ?thesis by (auto simp: tuned_def stored_range_def word_less_nat_alt split: if_splits)
next
  case (Not_above n)
  with assms have "unat (ucast n :: 16 word) = unat n" by (intro unat_channel) simp
  with Not_above assms show ?thesis by (auto intro!: tuned_update)
next
  case (Replied r)
  with assms show ?thesis by auto
qed

lemma tstep_ok:
  assumes "tstep (js, w) (js', w')" "tuned w" "list_all tuning_ok js"
  shows "tuned w' \<and> list_all tuning_ok js'"
  using assms(1)
proof cases
  case (channel_moves c c' us vs)
  with assms(2,3) tune_step_ok [of w c c' w'] show ?thesis by auto
next
  case (standard_set m r)
  with assms(2,3) show ?thesis
    by (auto simp: setIeeeStandardParameter_eq mask_check_0 intro: tuned_update split: if_splits)
next
  case other_set
  with assms(2,3) show ?thesis by (simp add: tuned_def)
qed (use assms(2,3) in auto)

lemma tsteps_ok: "tsteps x y \<Longrightarrow> tuned (snd x) \<Longrightarrow> list_all tuning_ok (fst x) \<Longrightarrow> tuned (snd y) \<and> list_all tuning_ok (fst y)"
proof (induction rule: tsteps.induct)
  case (tstay x)
  then show ?case by simp
next
  case (tgo x y z)
  then have "tuned (snd y) \<and> list_all tuning_ok (fst y)" by blast
  with tstep_ok [of "fst y" "snd y" "fst z" "snd z"] tgo.hyps(2) show ?case by simp
qed

lemma params_tuned: "params_ok w \<Longrightarrow> tuned w"
  by (auto simp: params_ok_def channel_ok_def tuned_def)

section \<open>A standard set in between\<close>

lemma mode_range_doc:
  assumes "mask_ok m"
  shows "\<exists>lo hi. mode_range (ucast (m AND 0x0F)) = Some (lo, hi) \<and> unat lo = fst (doc_range m) \<and> unat hi = snd (doc_range m)"
proof -
  have one: "length (hw_modes m) = 1" using assms by (simp add: mask_ok_def)
  with hw_modes_bit_trick(3) [of m] nibble_range [OF one] show ?thesis by (auto simp: mode_range_def)
qed

lemma first_tunes: "tsteps x ([c, j], w) \<Longrightarrow> tune_step c w = (c', w') \<Longrightarrow> tsteps x ([c', j], w')"
  using tgo [OF _ channel_moves [of c w c' w' "[]" "[j]", simplified], of x] by blast

lemma second_tunes: "tsteps x ([j, c], w) \<Longrightarrow> tune_step c w = (c', w') \<Longrightarrow> tsteps x ([j, c'], w')"
  using tgo [OF _ channel_moves [of c w c' w' "[j]" "[]", simplified], of x] by blast

lemma old_range_accepts:
  assumes "mask_ok (IeeeStdMask w)" "mask_ok m" "in_range (doc_range (IeeeStdMask w)) (unat n)"
  shows "\<exists>c w'. tsteps ([], w) ([c], w\<lparr>IeeeStdMask := m\<rparr>) \<and>
    tsteps ([c, Called_with n], w\<lparr>IeeeStdMask := m\<rparr>) ([Replied 0, Replied 0], w') \<and>
    IeeeStdMask w' = m \<and> channelNumber w' = ucast n"
proof -
  obtain lo hi where old: "mode_range (ucast (IeeeStdMask w AND 0x0F)) = Some (lo, hi)"
    "unat lo = fst (doc_range (IeeeStdMask w))" "unat hi = snd (doc_range (IeeeStdMask w))"
    using mode_range_doc [OF assms(1)] by blast
  obtain lo' hi' where new: "mode_range (ucast (m AND 0x0F)) = Some (lo', hi')" using mode_range_doc [OF assms(2)] by blast
  define h where "h = (ucast (IeeeStdMask w AND 0x0F) :: 8 word)"
  define h' where "h' = (ucast (m AND 0x0F) :: 8 word)"
  let ?w1 = "w\<lparr>IeeeStdMask := m\<rparr>"
  let ?w2 = "?w1\<lparr>MIN_CHANNEL_VALUE := lo', MAX_CHANNEL_VALUE := hi'\<rparr>"
  let ?w3 = "?w2\<lparr>MIN_CHANNEL_VALUE := lo, MAX_CHANNEL_VALUE := hi\<rparr>"
  have "tsteps ([], w) ([Called_with n], w)" using tgo [OF tstay channel_called [of "[]" w n]] by simp
  from tgo [OF this channel_moves [of "Called_with n" w "Mode_read n h" w "[]" "[]", simplified]]
  have "tsteps ([], w) ([Mode_read n h], w)" by (simp add: h_def)
  moreover have "setIeeeStandardParameter w m = Inr (0, ?w1)" using assms(2) by (simp add: setIeeeStandardParameter_eq mask_check_0)
  ultimately have 1: "tsteps ([], w) ([Mode_read n h], ?w1)" by (rule tgo [OF _ standard_set])
  let ?x = "([Mode_read n h, Called_with n], ?w1)"
  have "tsteps ?x ([Mode_read n h, Mode_read n h'], ?w1)" by (rule second_tunes [OF tstay]) (simp add: h'_def)
  then have "tsteps ?x ([Mode_read n h, Lower_stored n h'], ?w1\<lparr>MIN_CHANNEL_VALUE := lo'\<rparr>)"
    by (rule second_tunes) (simp add: h'_def new)
  then have "tsteps ?x ([Mode_read n h, Range_stored n], ?w2)" by (rule second_tunes) (simp add: h'_def new)
  then have "tsteps ?x ([Lower_stored n h, Range_stored n], ?w2\<lparr>MIN_CHANNEL_VALUE := lo\<rparr>)"
    by (rule first_tunes) (simp add: h_def old(1))
  then have r: "tsteps ?x ([Range_stored n, Range_stored n], ?w3)" by (rule first_tunes) (simp add: h_def old(1))
  have b: "\<not> n < ucast lo" "\<not> n > ucast hi"
    using assms(3) old(2,3) by (simp_all add: in_range_def word_less_nat_alt not_less)
  from r have "tsteps ?x ([Range_stored n, Not_below n], ?w3)" by (rule second_tunes) (simp add: b)
  then have "tsteps ?x ([Range_stored n, Not_above n], ?w3)" by (rule second_tunes) (simp add: b)
  then have "tsteps ?x ([Range_stored n, Replied 0], ?w3\<lparr>channelNumber := ucast n\<rparr>)" by (rule second_tunes) simp
  then have "tsteps ?x ([Not_below n, Replied 0], ?w3\<lparr>channelNumber := ucast n\<rparr>)" by (rule first_tunes) (simp add: b)
  then have "tsteps ?x ([Not_above n, Replied 0], ?w3\<lparr>channelNumber := ucast n\<rparr>)" by (rule first_tunes) (simp add: b)
  then have 2: "tsteps ?x ([Replied 0, Replied 0], ?w3\<lparr>channelNumber := ucast n\<rparr>)" by (rule first_tunes) simp
  show ?thesis
    by (rule exI [of _ "Mode_read n h"], rule exI [of _ "?w3\<lparr>channelNumber := ucast n\<rparr>"], intro conjI, rule 1, rule 2) simp_all
qed

section \<open>Properties\<close>

text \<open>
  C18. \<open>setChannel\<close> while others set channels and standards: a call alone is the setter, and no schedule makes a call meet
  an unknown mode or stores a number outside 1 to 196. But the range a call tests against is shared: a channel that the standard
  in force does not have, asked for after that standard has been set, is accepted when an earlier call that read the old
  standard stores its range in between.
\<close>

theorem channel_range_is_shared:
  assumes "params_ok w"
  shows "(setChannelParameter w n = (case tune_run 6 (Called_with n, w) of (Replied r, w') \<Rightarrow> Inr (r, w') | _ \<Rightarrow> Inl Assert_failed)) \<and>
    (tsteps ([], w) (js, v) \<longrightarrow> mask_ok (IeeeStdMask v) \<and> 1 \<le> unat (channelNumber v) \<and> unat (channelNumber v) \<le> 196 \<and>
      (\<forall>k h. Mode_read k h \<in> set js \<longrightarrow> mode_range h \<noteq> None)) \<and>
    (mask_ok m \<and> in_range (doc_range (IeeeStdMask w)) (unat n) \<longrightarrow>
      (\<exists>c w'. tsteps ([], w) ([c], w\<lparr>IeeeStdMask := m\<rparr>) \<and>
        tsteps ([c, Called_with n], w\<lparr>IeeeStdMask := m\<rparr>) ([Replied 0, Replied 0], w') \<and>
        IeeeStdMask w' = m \<and> channelNumber w' = ucast n))"
proof (intro conjI impI)
  have t: "tuned w" by (rule params_tuned [OF assms])
  show "setChannelParameter w n = (case tune_run 6 (Called_with n, w) of (Replied r, w') \<Rightarrow> Inr (r, w') | _ \<Rightarrow> Inl Assert_failed)"
    by (rule tune_alone)
  assume "tsteps ([], w) (js, v)"
  from tsteps_ok [OF this] t have ok: "tuned v" "list_all tuning_ok js" by simp_all
  then show "mask_ok (IeeeStdMask v)" "1 \<le> unat (channelNumber v)" "unat (channelNumber v) \<le> 196" by (simp_all add: tuned_def)
  from ok(2) show "\<forall>k h. Mode_read k h \<in> set js \<longrightarrow> mode_range h \<noteq> None" by (force simp: list_all_iff)
next
  assume "mask_ok m \<and> in_range (doc_range (IeeeStdMask w)) (unat n)"
  with assms old_range_accepts [of w m n] show "\<exists>c w'. tsteps ([], w) ([c], w\<lparr>IeeeStdMask := m\<rparr>) \<and>
      tsteps ([c, Called_with n], w\<lparr>IeeeStdMask := m\<rparr>) ([Replied 0, Replied 0], w') \<and>
      IeeeStdMask w' = m \<and> channelNumber w' = ucast n" by (simp add: params_ok_def)
qed

text \<open>Channel 3 of 802.11g, asked for with 802.11a in force.\<close>

theorem channel_range_is_shared_witness:
  "\<exists>c w'. tsteps ([], sample_ap) ([c], sample_ap\<lparr>IeeeStdMask := 1\<rparr>) \<and>
     tsteps ([c, Called_with 3], sample_ap\<lparr>IeeeStdMask := 1\<rparr>) ([Replied 0, Replied 0], w') \<and>
     IeeeStdMask w' = 1 \<and> channelNumber w' = 3 \<and> \<not> in_range (doc_range 1) 3 \<and> mask_ok (IeeeStdMask sample_ap)"
proof -
  have m: "mask_ok 1" by code_simp
  have "IeeeStdMask sample_ap = 4" by (simp add: sample_ap_def)
  then have n: "in_range (doc_range (IeeeStdMask sample_ap)) (unat (3 :: 32 word))" by (simp add: in_range_def doc_range_def)
  have "\<not> in_range (doc_range 1) 3" by (simp add: in_range_def doc_range_def)
  with channel_range_is_shared [OF params_ok_sample, of 3 "[]" sample_ap 1] m n tstay [of "([], sample_ap)"] show ?thesis by auto
qed

end
