(* ===== verification/Specification.thy ===== *)
theory Specification
  imports Binding
begin

text \<open>
  What a client may expect of the setters of \<open>src/wifiAp.c\<close>, said without buffers, heap strings or requests: the
  settings of an access point as plain texts and numbers (the standard is the bit mask of the documentation, with its documented validity and
  channel ranges), the answer to each wish, and the configuration an access point
  is started with. The detailed verbs are shown to implement it, for any sequence of requests.
\<close>

section \<open>The abstract settings\<close>

record settings =
  s_names :: "name_field \<Rightarrow> string"
  s_ssid :: string
  s_passphrase :: string
  s_key :: string
  s_country :: string
  s_protocol :: wifiAp_SecurityProtocol_t
  s_visible :: bool
  s_standard :: "32 word"
  s_range :: "nat \<times> nat"
  s_channel :: nat
  s_clients :: "32 word"
  s_addresses :: "string \<times> string \<times> string \<times> string"

text \<open>What a client can ask for, and the answer a reader of the documentation expects.\<close>

datatype wish =
    Set_name name_field string
  | Set_ssid string
  | Set_passphrase string
  | Set_key string
  | Set_country string
  | Set_protocol string
  | Set_visible bool
  | Set_standard "32 word"
  | Set_channel "32 word"
  | Set_clients "32 word"
  | Set_addresses string string string string

definition sized :: "nat \<Rightarrow> nat \<Rightarrow> string \<Rightarrow> bool" where
  "sized lo hi str \<longleftrightarrow> lo \<le> length str \<and> length str \<le> hi"

definition too_small :: reply_status where "too_small = AFB_USER_ERRNO 3"
definition too_large :: reply_status where "too_large = AFB_USER_ERRNO 4"

fun wished :: "wish \<Rightarrow> settings \<Rightarrow> reply_status \<times> settings" where
  "wished (Set_name f str) c =
     (if str \<noteq> [] then (Success, c\<lparr>s_names := (s_names c)(f := str)\<rparr>) else (AFB_ERRNO_INVALID_REQUEST, c))"
| "wished (Set_ssid str) c =
     (if sized 1 32 str then (Success, c\<lparr>s_ssid := str\<rparr>) else (AFB_ERRNO_INVALID_REQUEST, c))"
| "wished (Set_passphrase str) c =
     (if sized 8 63 str then (Success, c\<lparr>s_passphrase := str\<rparr>) else (AFB_ERRNO_INVALID_REQUEST, c))"
| "wished (Set_key str) c =
     (if sized 0 64 str then (Success, c\<lparr>s_key := str\<rparr>) else (AFB_ERRNO_INVALID_REQUEST, c))"
| "wished (Set_country str) c =
     (if sized 2 2 str then (Success, c\<lparr>s_country := str\<rparr>) else (AFB_ERRNO_INVALID_REQUEST, c))"
| "wished (Set_protocol str) c =
     (if map to_lower str = ''none'' then (Success, c\<lparr>s_protocol := WIFI_AP_SECURITY_NONE\<rparr>)
      else if map to_lower str = ''wpa2'' then (Success, c\<lparr>s_protocol := WIFI_AP_SECURITY_WPA2\<rparr>)
      else (AFB_ERRNO_INTERNAL_ERROR, c))"
| "wished (Set_visible b) c = (Success, c\<lparr>s_visible := b\<rparr>)"
| "wished (Set_standard m) c =
     (if mask_ok m then (Success, c\<lparr>s_standard := m\<rparr>)
      else (AFB_USER_ERRNO (if hw_modes m = [] then 5 else if 1 < length (hw_modes m) then 6
              else if bit m 7 \<and> \<not> bit m 0 then 7 else 8), c))"
| "wished (Set_channel n) c =
     (let r = doc_range (s_standard c); c1 = c\<lparr>s_range := r\<rparr> in
      if unat n < fst r then (too_small, c1)
      else if snd r < unat n then (too_large, c1)
      else (Success, c1\<lparr>s_channel := unat n\<rparr>))"
| "wished (Set_clients n) c =
     (if n < 1 then (too_small, c) else if n > 1000 then (too_large, c) else (Success, c\<lparr>s_clients := n\<rparr>))"
| "wished (Set_addresses ap lo hi nm) c =
     (if [] \<in> set [ap, lo, hi, nm] then (too_small, c)
      else if \<exists>a \<in> set [ap, lo, hi, nm]. 15 < length a then (too_large, c)
      else (Success, c\<lparr>s_addresses := (ap, lo, hi, nm)\<rparr>))"

text \<open>The answers to a sequence of wishes, and the settings after it.\<close>

fun all_wished :: "wish list \<Rightarrow> settings \<Rightarrow> reply_status list \<times> settings" where
  "all_wished [] c = ([], c)"
| "all_wished (q # qs) c =
     (let (r, c1) = wished q c; (rs, c2) = all_wished qs c1 in (r # rs, c2))"

section \<open>The settings of a state, and the requests of a wish\<close>

definition text_at :: "nat option \<Rightarrow> 'a strings_scheme \<Rightarrow> string" where
  "text_at p s = (case deref p s of Inl e \<Rightarrow> [] | Inr v \<Rightarrow> v)"

definition settings_of :: "'a ap_scheme \<Rightarrow> settings" where
  "settings_of s =
     (let w = wifi s in
      \<lparr>s_names = \<lambda>f. text_at (name_of f w) s, s_ssid = cstr (ssid w), s_passphrase = cstr (passphrase w),
       s_key = cstr (presharedKey w), s_country = cstr (countryCode w), s_protocol = securityProtocol w,
       s_visible = discoverable w, s_standard = IeeeStdMask w, s_range = stored_range w,
       s_channel = unat (channelNumber w), s_clients = maxNumberClient w,
       s_addresses = (cstr (ip_ap w), cstr (ip_start w), cstr (ip_stop w), cstr (ip_netmask w))\<rparr>)"

text \<open>Texts go as text, numbers as decimal texts, the flag as a boolean and the addresses as a JSON object.\<close>

definition bool_param :: "bool \<Rightarrow> param" where
  "bool_param b = \<lparr>data_type = BOOL, data_text = [], data_byte = b, to_u32 = None, to_json = None\<rparr>"

definition range_json :: "string \<Rightarrow> string \<Rightarrow> string \<Rightarrow> string \<Rightarrow> json" where
  "range_json ap lo hi nm = JObject [(''ip_ap'', JString ap), (''ip_start'', JString lo), (''ip_stop'', JString hi),
     (''ip_netmask'', JString nm)]"

definition json_param :: "json \<Rightarrow> param" where
  "json_param j = \<lparr>data_type = JSON, data_text = [], data_byte = False, to_u32 = None, to_json = Some j\<rparr>"

fun sent :: "wish \<Rightarrow> string \<times> param list" where
  "sent (Set_name f str) = (name_verb f, [text_param str])"
| "sent (Set_ssid str) = (''setSsid'', [text_param str])"
| "sent (Set_passphrase str) = (''setPassPhrase'', [text_param str])"
| "sent (Set_key str) = (''setPreSharedKey'', [text_param str])"
| "sent (Set_country str) = (''setCountryCode'', [text_param str])"
| "sent (Set_protocol str) = (''setSecurityProtocol'', [text_param str])"
| "sent (Set_visible b) = (''setDiscoverable'', [bool_param b])"
| "sent (Set_standard m) = (''setIeeeStandard'', [text_param (show_nat (unat m))])"
| "sent (Set_channel n) = (''setChannel'', [text_param (show_nat (unat n))])"
| "sent (Set_clients n) = (''SetMaxNumberClients'', [text_param (show_nat (unat n))])"
| "sent (Set_addresses ap lo hi nm) = (''setIpRange'', [json_param (range_json ap lo hi nm)])"

text \<open>A text is one without NUL bytes; the key and the addresses, which are copied as UTF-8, are taken in whole characters.\<close>

fun plain :: "wish \<Rightarrow> bool" where
  "plain (Set_name f str) = (NUL \<notin> set str)"
| "plain (Set_ssid str) = (NUL \<notin> set str)"
| "plain (Set_passphrase str) = (NUL \<notin> set str)"
| "plain (Set_key str) = whole str"
| "plain (Set_country str) = (NUL \<notin> set str)"
| "plain (Set_protocol str) = (NUL \<notin> set str)"
| "plain (Set_addresses ap lo hi nm) = list_all whole [ap, lo, hi, nm]"
| "plain q = True"

text \<open>What is documented of \<open>rp_jsonc_unpack\<close> for the format of \<open>setIpRange\<close>, as far as it is used here.\<close>

definition unpacks :: "env \<Rightarrow> bool" where
  "unpacks E \<longleftrightarrow> (\<forall>ap lo hi nm. unpack_ip E (range_json ap lo hi nm) = Some (ap, lo, hi, nm))"

section \<open>One wish\<close>

text \<open>The rest of the state, that no setter touches.\<close>

definition apart :: "'a ap_scheme \<Rightarrow> 'a ap_scheme \<Rightarrow> bool" where
  "apart s s' \<longleftrightarrow> ap.more s' = ap.more s \<and> files s' = files s \<and> status (wifi s') = status (wifi s)"

definition granted :: "env \<Rightarrow> wish \<Rightarrow> 'a service_scheme \<Rightarrow> 'a service_scheme \<Rightarrow> bool" where
  "granted E q s s' \<longleftrightarrow> request E (fst (sent q)) (snd (sent q)) s = Inr s' \<and> apart s s' \<and>
     settings_of s' = snd (wished q (settings_of s)) \<and>
     replies (calls s') = replies (calls s) @ [(fst (wished q (settings_of s)), None)]"

lemma text_at_cong: "blocks s' = blocks s \<Longrightarrow> text_at p s' = text_at p s"
  using deref_cong [of s' s p] by (simp add: text_at_def)

lemma text_at_reply [simp]: "text_at p (afb_req_reply E st q s) = text_at p s" for s :: "'a ap_scheme"
  by (rule text_at_cong) simp

lemma settings_of_reply [simp]: "settings_of (afb_req_reply E st p s) = settings_of s"
  by (simp add: settings_of_def Let_def)

lemma apart_reply [simp]: "apart s (afb_req_reply E st p t) = apart s t" for s t :: "'a ap_scheme"
  by (simp add: apart_def afb_req_reply_def ask_def)

lemma apart_wifi [simp]: "apart s (s\<lparr>wifi := w\<rparr>) = (status w = status (wifi s))"
  by (simp add: apart_def)

text \<open>A setter of the structure that gives a result \<open>r\<close> and a structure \<open>w\<close>.\<close>

lemma string_wish:
  fixes s :: "'a service_scheme"
  assumes "f (wifi s) (Some str) = Inr (r, w)" "status w = status (wifi s)"
  shows "\<exists>s'. single_string_set E (on_wifi f) [text_param str] s = Inr s' \<and> apart s s' \<and>
    settings_of s' = settings_of (s\<lparr>wifi := w\<rparr>) \<and>
    replies (calls s') = replies (calls s) @ [(if r = 0 then Success else if r = - 3 \<or> r = - 4 then AFB_ERRNO_INVALID_REQUEST
      else AFB_ERRNO_INTERNAL_ERROR, None)]"
  using assms by (auto simp: single_string_set_def read_text on_wifi_def Let_def)

lemma uint32_wish:
  fixes s :: "'a service_scheme"
  assumes "f (wifi s) n = Inr (r, w)" "status w = status (wifi s)"
  shows "\<exists>s'. single_uint32_set E (on_wifi f) [text_param (show_nat (unat n))] s = Inr s' \<and> apart s s' \<and>
    settings_of s' = settings_of (s\<lparr>wifi := w\<rparr>) \<and>
    replies (calls s') = replies (calls s) @ [(if r = 0 then Success else AFB_USER_ERRNO (- r), None)]"
  using assms by (auto simp: single_uint32_set_def number_text on_wifi_def)

lemma text_at_wifi [simp]: "text_at p (s\<lparr>wifi := w\<rparr>) = text_at p s"
  by (rule text_at_cong) simp

lemma name_of_update [simp]:
  "name_of f (w\<lparr>ssid := b\<rparr>) = name_of f w" "name_of f (w\<lparr>passphrase := b\<rparr>) = name_of f w"
  "name_of f (w\<lparr>countryCode := b\<rparr>) = name_of f w" "name_of f (w\<lparr>presharedKey := b\<rparr>) = name_of f w"
  "name_of f (w\<lparr>securityProtocol := p\<rparr>) = name_of f w" "name_of f (w\<lparr>discoverable := d\<rparr>) = name_of f w"
  "name_of f (w\<lparr>IeeeStdMask := m\<rparr>) = name_of f w" "name_of f (w\<lparr>maxNumberClient := m\<rparr>) = name_of f w"
  "name_of f (w\<lparr>channelNumber := c\<rparr>) = name_of f w" "name_of f (w\<lparr>MIN_CHANNEL_VALUE := c\<rparr>) = name_of f w"
  "name_of f (w\<lparr>MAX_CHANNEL_VALUE := c\<rparr>) = name_of f w" "name_of f (w\<lparr>ip_ap := b\<rparr>) = name_of f w"
  "name_of f (w\<lparr>ip_start := b\<rparr>) = name_of f w" "name_of f (w\<lparr>ip_stop := b\<rparr>) = name_of f w"
  "name_of f (w\<lparr>ip_netmask := b\<rparr>) = name_of f w" "name_of f (w\<lparr>status := st\<rparr>) = name_of f w"
  by (cases f; simp)+

text \<open>One field of the structure at a time.\<close>

lemma settings_of_update [simp]:
  fixes s :: "'a ap_scheme"
  shows "settings_of (s\<lparr>wifi := (wifi s)\<lparr>ssid := b\<rparr>\<rparr>) = (settings_of s)\<lparr>s_ssid := cstr b\<rparr>"
    and "settings_of (s\<lparr>wifi := (wifi s)\<lparr>passphrase := b\<rparr>\<rparr>) = (settings_of s)\<lparr>s_passphrase := cstr b\<rparr>"
    and "settings_of (s\<lparr>wifi := (wifi s)\<lparr>presharedKey := b\<rparr>\<rparr>) = (settings_of s)\<lparr>s_key := cstr b\<rparr>"
    and "settings_of (s\<lparr>wifi := (wifi s)\<lparr>countryCode := b\<rparr>\<rparr>) = (settings_of s)\<lparr>s_country := cstr b\<rparr>"
    and "settings_of (s\<lparr>wifi := (wifi s)\<lparr>securityProtocol := p\<rparr>\<rparr>) = (settings_of s)\<lparr>s_protocol := p\<rparr>"
    and "settings_of (s\<lparr>wifi := (wifi s)\<lparr>discoverable := d\<rparr>\<rparr>) = (settings_of s)\<lparr>s_visible := d\<rparr>"
    and "settings_of (s\<lparr>wifi := (wifi s)\<lparr>IeeeStdMask := m\<rparr>\<rparr>) = (settings_of s)\<lparr>s_standard := m\<rparr>"
    and "settings_of (s\<lparr>wifi := (wifi s)\<lparr>maxNumberClient := m\<rparr>\<rparr>) = (settings_of s)\<lparr>s_clients := m\<rparr>"
  by (simp_all add: settings_of_def Let_def stored_range_def)

lemma settings_of_same [simp]:
  "(settings_of s)\<lparr>s_ssid := cstr (ssid (wifi s))\<rparr> = settings_of s"
  "(settings_of s)\<lparr>s_passphrase := cstr (passphrase (wifi s))\<rparr> = settings_of s"
  "(settings_of s)\<lparr>s_key := cstr (presharedKey (wifi s))\<rparr> = settings_of s"
  "(settings_of s)\<lparr>s_country := cstr (countryCode (wifi s))\<rparr> = settings_of s"
  "(settings_of s)\<lparr>s_protocol := securityProtocol (wifi s)\<rparr> = settings_of s"
  by (simp_all add: settings_of_def Let_def)

lemma settings_of_standard [simp]: "s_standard (settings_of s) = IeeeStdMask (wifi s)"
  by (simp add: settings_of_def Let_def)

text \<open>The texts kept in buffers.\<close>

lemma buffer_wish:
  assumes "buffer_ok (Suc hi) b" "NUL \<notin> set str"
  shows "\<exists>r b'. set_buffer b (Some str) lo hi = Inr (r, b') \<and>
    (if sized lo hi str then r = 0 \<and> cstr b' = str else (r = - 3 \<or> r = - 4) \<and> b' = b)"
proof (cases "length_check lo hi (Some str) = 0")
  case True
  with set_buffer_accept [OF True assms(1)] assms(2) show ?thesis
    by (auto simp: length_check_0 sized_def strlen_def)
next
  case False
  moreover have "\<not> sized lo hi str" "length_check lo hi (Some str) \<in> {- 3, - 4}"
    using False assms(2) by (auto simp: length_check_def sized_def strlen_def split: if_splits)
  ultimately show ?thesis using set_buffer_reject [OF False, of b] by auto
qed

lemma text_granted:
  fixes s :: "'a service_scheme"
  assumes "params_ok (wifi s)"
  shows "NUL \<notin> set str \<Longrightarrow> \<exists>s'. granted E (Set_ssid str) s s'"
    and "NUL \<notin> set str \<Longrightarrow> \<exists>s'. granted E (Set_passphrase str) s s'"
    and "NUL \<notin> set str \<Longrightarrow> \<exists>s'. granted E (Set_country str) s s'"
proof -
  note bufs = params_ok_buffers [OF assms]
  { assume n: "NUL \<notin> set str"
    obtain r b where b: "set_buffer (ssid (wifi s)) (Some str) 1 32 = Inr (r, b)"
      "if sized 1 32 str then r = 0 \<and> cstr b = str else (r = - 3 \<or> r = - 4) \<and> b = ssid (wifi s)"
      using buffer_wish [of 32 "ssid (wifi s)" str 1] bufs n by auto
    then have "setSsidParameter (wifi s) (Some str) = Inr (r, (wifi s)\<lparr>ssid := b\<rparr>)" by (simp add: setSsidParameter_def)
    from string_wish [of setSsidParameter, OF this, of E] b(2) show "\<exists>s'. granted E (Set_ssid str) s s'"
      by (auto simp: granted_def request_def verbs_def setSsid_def split: if_splits) }
  { assume n: "NUL \<notin> set str"
    obtain r b where b: "set_buffer (passphrase (wifi s)) (Some str) 8 63 = Inr (r, b)"
      "if sized 8 63 str then r = 0 \<and> cstr b = str else (r = - 3 \<or> r = - 4) \<and> b = passphrase (wifi s)"
      using buffer_wish [of 63 "passphrase (wifi s)" str 8] bufs n by auto
    then have "setPassPhraseParameter (wifi s) (Some str) = Inr (r, (wifi s)\<lparr>passphrase := b\<rparr>)" by (simp add: setPassPhraseParameter_def)
    from string_wish [of setPassPhraseParameter, OF this, of E] b(2) show "\<exists>s'. granted E (Set_passphrase str) s s'"
      by (auto simp: granted_def request_def verbs_def setPassPhrase_def split: if_splits) }
  { assume n: "NUL \<notin> set str"
    obtain r b where b: "set_buffer (countryCode (wifi s)) (Some str) 2 2 = Inr (r, b)"
      "if sized 2 2 str then r = 0 \<and> cstr b = str else (r = - 3 \<or> r = - 4) \<and> b = countryCode (wifi s)"
      using buffer_wish [of 2 "countryCode (wifi s)" str 2] bufs n by (auto simp: numeral_3_eq_3 numeral_2_eq_2)
    then have "setCountryCodeParameter (wifi s) (Some str) = Inr (r, (wifi s)\<lparr>countryCode := b\<rparr>)" by (simp add: setCountryCodeParameter_def)
    from string_wish [of setCountryCodeParameter, OF this, of E] b(2) show "\<exists>s'. granted E (Set_country str) s s'"
      by (auto simp: granted_def request_def verbs_def setCountryCode_def split: if_splits) }
qed

lemma key_granted:
  fixes s :: "'a service_scheme"
  assumes "params_ok (wifi s)" "whole str"
  shows "\<exists>s'. granted E (Set_key str) s s'"
proof -
  have n: "NUL \<notin> set str" by (rule whole_no_NUL [OF assms(2)])
  have len: "length (presharedKey (wifi s)) = 65" using params_ok_buffers [OF assms(1)] by (simp add: buffer_ok_def)
  have "\<exists>r b. setPreSharedKeyParameter (wifi s) (Some str) = Inr (r, (wifi s)\<lparr>presharedKey := b\<rparr>) \<and>
    (if sized 0 64 str then r = 0 \<and> cstr b = str else r = - 4 \<and> b = presharedKey (wifi s))"
  proof (cases "length str \<le> 64")
    case True
    then have "utf8_Copy (presharedKey (wifi s)) (str @ [NUL]) 65 =
        Inr (0, str @ NUL # drop (Suc (length str)) (presharedKey (wifi s)), length str)"
      using assms(2) len n utf8_Copy_short [of str 65 "presharedKey (wifi s)"] by (simp add: whole_def Let_def)
    with n True show ?thesis
      by (intro exI [of _ 0] exI [of _ "str @ NUL # drop (Suc (length str)) (presharedKey (wifi s))"])
        (simp add: setPreSharedKeyParameter_def sized_def strlen_def)
  next
    case False
    with n show ?thesis
      by (intro exI [of _ "- 4"] exI [of _ "presharedKey (wifi s)"]) (simp add: setPreSharedKeyParameter_def sized_def strlen_def)
  qed
  then obtain r b where b: "setPreSharedKeyParameter (wifi s) (Some str) = Inr (r, (wifi s)\<lparr>presharedKey := b\<rparr>)"
    "if sized 0 64 str then r = 0 \<and> cstr b = str else r = - 4 \<and> b = presharedKey (wifi s)" by blast
  from string_wish [of setPreSharedKeyParameter, OF b(1), of E] b(2) show ?thesis
    by (auto simp: granted_def request_def verbs_def SetPreSharedKey_def split: if_splits)
qed

lemma protocol_granted:
  fixes s :: "'a service_scheme"
  assumes "NUL \<notin> set str"
  shows "\<exists>s'. granted E (Set_protocol str) s s'"
proof -
  have l: "map to_lower ''none'' = ''none''" "map to_lower ''WPA2'' = ''wpa2''" by code_simp+
  define p where "p = (if map to_lower str = ''none'' then WIFI_AP_SECURITY_NONE
    else if map to_lower str = ''wpa2'' then WIFI_AP_SECURITY_WPA2 else securityProtocol (wifi s))"
  define r where "r = (if map to_lower str = ''none'' \<or> map to_lower str = ''wpa2'' then 0 else (- 1 :: int))"
  have "setSecurityProtocolParameter (wifi s) (Some str) = Inr (r, (wifi s)\<lparr>securityProtocol := p\<rparr>)"
    using assms l by (simp add: setSecurityProtocolParameter_def strcasecmp_eq_def p_def r_def)
  from string_wish [of setSecurityProtocolParameter, OF this, of E] show ?thesis
    by (auto simp: granted_def request_def verbs_def setSecurityProtocol_def
        p_def r_def split: if_splits)
qed

lemma visible_granted:
  fixes s :: "'a service_scheme"
  shows "\<exists>s'. granted E (Set_visible b) s s'"
  by (auto simp: granted_def request_def verbs_def setDiscoverable_def get_single_boolean_def bool_param_def on_wifi_def
      setDiscoverableParameter_def)

lemma number_granted:
  fixes s :: "'a service_scheme"
  assumes "params_ok (wifi s)"
  shows "\<exists>s'. granted E (Set_standard n) s s'" "\<exists>s'. granted E (Set_clients n) s s'"
proof -
  have e: "setIeeeStandardParameter (wifi s) n = Inr (mask_check n, if mask_check n = 0 then (wifi s)\<lparr>IeeeStdMask := n\<rparr> else wifi s)"
    by (rule setIeeeStandardParameter_eq)
  have c: "mask_check n = (if mask_ok n then 0 else - (if hw_modes n = [] then 5 else if 1 < length (hw_modes n) then 6
              else if bit n 7 \<and> \<not> bit n 0 then 7 else 8))"
    using mask_check_0 [of n] by (auto simp: mask_check_def)
  from uint32_wish [of setIeeeStandardParameter, OF e, of E] show "\<exists>s'. granted E (Set_standard n) s s'"
    by (auto simp: granted_def request_def verbs_def setIeeeStandard_single c
        split: if_splits)
  have m: "setMaxNumberClients (wifi s) n = Inr (clients_check n, if clients_check n = 0 then (wifi s)\<lparr>maxNumberClient := n\<rparr> else wifi s)"
    by (rule setMaxNumberClients_eq)
  from uint32_wish [of setMaxNumberClients, OF m, of E] show "\<exists>s'. granted E (Set_clients n) s s'"
    by (auto simp: granted_def request_def verbs_def SetMaxNumberClients_def
        clients_check_def too_small_def too_large_def split: if_splits)
qed
lemma settings_of_load: "settings_of (s\<lparr>wifi := load_range (wifi s)\<rparr>) = (settings_of s)\<lparr>s_range := doc_range (IeeeStdMask (wifi s))\<rparr>"
  for s :: "'a ap_scheme"
  using stored_range_load [of "wifi s"] by (simp add: settings_of_def Let_def) (simp add: load_range_def)

lemma settings_of_channel: "settings_of (s\<lparr>wifi := w\<lparr>channelNumber := c\<rparr>\<rparr>) = (settings_of (s\<lparr>wifi := w\<rparr>))\<lparr>s_channel := unat c\<rparr>"
  for s :: "'a ap_scheme"
  by (simp add: settings_of_def Let_def stored_range_def)

lemma channel_granted:
  fixes s :: "'a service_scheme"
  assumes "params_ok (wifi s)"
  shows "\<exists>s'. granted E (Set_channel n) s s'"
proof -
  let ?m = "IeeeStdMask (wifi s)" and ?w = "load_range (wifi s)"
  have one: "length (hw_modes ?m) = 1" using assms by (simp add: params_ok_def mask_ok_def)
  define r where "r = range_check (doc_range ?m) (unat n)"
  define w where "w = (if r = 0 then ?w\<lparr>channelNumber := ucast n\<rparr> else ?w)"
  have "setChannelParameter (wifi s) n = Inr (r, w)"
    by (simp add: setChannelParameter_eq [OF one] r_def w_def Let_def)
  moreover have "status w = status (wifi s)" by (simp add: w_def load_range_def)
  ultimately obtain s' where s': "single_uint32_set E (on_wifi setChannelParameter) [text_param (show_nat (unat n))] s = Inr s'"
    "apart s s'" "settings_of s' = settings_of (s\<lparr>wifi := w\<rparr>)"
    "replies (calls s') = replies (calls s) @ [(if r = 0 then Success else AFB_USER_ERRNO (- r), None)]"
    using uint32_wish [of setChannelParameter s n r w E] by blast
  have "unat (ucast n :: 16 word) = unat n" if "r = 0"
    using that channel_ok_accept [of "wifi s" n] by (simp add: r_def range_check_0)
  then have "settings_of (s\<lparr>wifi := w\<rparr>) = snd (wished (Set_channel n) (settings_of s)) \<and>
      (if r = 0 then Success else AFB_USER_ERRNO (- r)) = fst (wished (Set_channel n) (settings_of s))"
    by (auto simp: w_def r_def range_check_def settings_of_load settings_of_channel too_small_def too_large_def Let_def split: if_splits)
  with s' have "granted E (Set_channel n) s s'" by (simp add: granted_def request_def verbs_def setChannel_def del: wished.simps)
  then show ?thesis by blast
qed

lemma addresses_granted:
  fixes s :: "'a service_scheme"
  assumes "params_ok (wifi s)" "unpacks E" "list_all whole [a, b, c, d]"
  shows "\<exists>s'. granted E (Set_addresses a b c d) s s'"
proof -
  let ?ok = "list_all (\<lambda>x. 1 \<le> length x \<and> length x \<le> 15) [a, b, c, d]"
  have get: "get_single_jsonc E [json_param (range_json a b c d)] s = (Some (range_json a b c d), s)"
    and un: "unpack_ip E (range_json a b c d) = Some (a, b, c, d)"
    using assms(2) by (simp_all add: get_single_jsonc_def json_param_def unpacks_def)
  have bufs: "buffers_ok (wifi s)" using assms(1) by (simp add: params_ok_def)
  have run: "\<exists>s'. setIpRange E [json_param (range_json a b c d)] s = Inr s' \<and> apart s s' \<and> settings_of s' = settings_of (s\<lparr>wifi := w\<rparr>) \<and>
      replies (calls s') = replies (calls s) @ [(if r = 0 then Success else AFB_USER_ERRNO (- r), None)]"
    if "setIpRangeParameters (wifi s) a b c d = Inr (r, w)" "status w = status (wifi s)" for r w
    using that by (simp add: setIpRange_def get un)
  show ?thesis
  proof (cases ?ok)
    case True
    then obtain w where w: "setIpRangeParameters (wifi s) a b c d = Inr (0, w)"
      "cstr (ip_ap w) = a" "cstr (ip_start w) = b" "cstr (ip_stop w) = c" "cstr (ip_netmask w) = d"
      using setIpRange_all_or_nothing [OF bufs assms(3)] by auto
    obtain b1 b2 b3 b4 where
      u: "w = (wifi s)\<lparr>ip_ap := b1, ip_start := b2, ip_stop := b3, ip_netmask := b4\<rparr>"
      by (rule that) (rule conjunct1 [OF setIpRangeParameters_result [OF w(1) bufs]])
    have "status w = status (wifi s)" by (simp add: u)
    moreover have "settings_of (s\<lparr>wifi := w\<rparr>) = (settings_of s)\<lparr>s_addresses := (a, b, c, d)\<rparr>"
      using w(2-5) by (simp add: settings_of_def Let_def stored_range_def u)
    ultimately show ?thesis using run [OF w(1)] True
      by (auto simp: granted_def request_def verbs_def)
  next
    case False
    let ?none = "[] \<in> set [a, b, c, d]"
    have "\<exists>x \<in> set [a, b, c, d]. 15 < length x" if "\<not> ?none"
    proof -
      obtain x where "x \<in> set [a, b, c, d]" "\<not> (1 \<le> length x \<and> length x \<le> 15)"
        using False unfolding list_all_iff by blast
      then have "x \<in> set [a, b, c, d]" "15 < length x" using that by (metis One_nat_def Suc_leI length_greater_0_conv not_le)+
      then show ?thesis by blast
    qed
    then have wi: "wished (Set_addresses a b c d) t = (if ?none then too_small else too_large, t)" for t
      unfolding wished.simps by (cases ?none) (simp_all only: if_True if_False not_False_eq_True simp_thms)
    have "setIpRangeParameters (wifi s) a b c d = Inr (if ?none then - 3 else - 4, wifi s)"
      using setIpRange_all_or_nothing [OF bufs assms(3)] False by (simp only: if_False)
    from run [OF this refl] obtain s' where s': "setIpRange E [json_param (range_json a b c d)] s = Inr s'" "apart s s'"
      "settings_of s' = settings_of s"
      "replies (calls s') = replies (calls s) @ [(if ?none then too_small else too_large, None)]"
      by (cases ?none) (simp_all add: too_small_def too_large_def del: set_simps, blast+)
    then have "granted E (Set_addresses a b c d) s s'" unfolding granted_def wi
      by (simp add: request_def verbs_def del: set_simps)
    then show ?thesis by blast
  qed
qed

text \<open>The names.\<close>

lemma names_apart:
  assumes "names_ok s" "named s" "f \<noteq> g"
  shows "name_of f (wifi s) \<noteq> name_of g (wifi s)"
proof -
  obtain i d h where n: "interfaceName (wifi s) = Some i" "domainName (wifi s) = Some d" "hostName (wifi s) = Some h"
    using assms(2) by (metis named_def name_of.simps not_None_eq)
  with distinct_names [OF assms(1)] have "d \<noteq> i" "h \<noteq> i" "h \<noteq> d" by auto
  with n assms(3) show ?thesis by (cases f; cases g) auto
qed

lemma name_copied:
  fixes s :: "'a ap_scheme"
  assumes "calm E" "names_ok s" "NUL \<notin> set str"
  shows "\<exists>r p s1. set_string_copy E (name_of f (wifi s)) (Some str) s = Inr (r, p, s1) \<and>
    (if str \<noteq> [] then r = 0 \<and> text_at p s1 = str else r = - 3 \<and> p = name_of f (wifi s) \<and> s1 = s)"
proof (cases "str = []")
  case True
  then show ?thesis by (simp add: set_string_copy_def)
next
  case False
  have "\<exists>ps qs. name_ptrs (wifi s) = ps @ name_of f (wifi s) # qs"
    by (cases f) (simp_all add: name_ptrs_def, (metis append_Nil append_Cons)+)
  then obtain ps qs where "owned_by s (ps @ name_of f (wifi s) # qs)" using assms(2) by (auto simp: names_ok_def)
  from set_string_copy_owned [OF this, of E "Some str"] obtain r p s1 where
    c: "set_string_copy E (name_of f (wifi s)) (Some str) s = Inr (r, p, s1)" "r = 0 \<longrightarrow> deref p s1 = Inr str"
    using assms(3) by auto
  moreover have "r = 0" using c(1) False assms(1,3)
    by (auto simp: set_string_copy_def strdup_def calm_ask Let_def)
  ultimately show ?thesis using False by (simp add: text_at_def)
qed

lemma name_granted:
  fixes s :: "'a service_scheme"
  assumes "calm E" "binding_ok s" "named s" "NUL \<notin> set str"
  shows "\<exists>s'. granted E (Set_name f str) s s'"
proof -
  have names: "names_ok s" and heap: "heap_ok s" using assms(2) by (simp_all add: binding_ok_def names_ok_def owned_by_def)
  obtain r p s1 where copy: "set_string_copy E (name_of f (wifi s)) (Some str) s = Inr (r, p, s1)"
    and own: "if str \<noteq> [] then r = 0 \<and> text_at p s1 = str else r = - 3 \<and> p = name_of f (wifi s) \<and> s1 = s"
    using name_copied [OF assms(1) names assms(4), of f] by blast
  have w: "wifi s1 = wifi s" and rest: "ap.more s1 = ap.more s" "files s1 = files s"
    using set_string_copy_rest [OF copy] ap_more [of s1 s] by simp_all
  have others: "text_at (name_of g (wifi s)) s1 = text_at (name_of g (wifi s)) s" if ne: "g \<noteq> f" for g
  proof -
    obtain v where v: "deref (name_of g (wifi s)) s = Inr v" using named_readable [OF assms(2,3)] by blast
    from deref_others [OF copy heap v] names_apart [OF names assms(3), of f g] ne v show ?thesis by (simp add: text_at_def)
  qed
  let ?s2 = "s1\<lparr>wifi := put_name f p (wifi s1)\<rparr>"
  have "settings_of ?s2 = (if str \<noteq> [] then (settings_of s)\<lparr>s_names := (s_names (settings_of s))(f := str)\<rparr> else settings_of s)"
  proof -
    have "text_at (name_of g (put_name f p (wifi s))) s1 = (if g = f \<and> str \<noteq> [] then str else text_at (name_of g (wifi s)) s)" for g
      using own others by (cases "g = f") (auto split: if_splits)
    then have "s_names (settings_of ?s2) = (if str \<noteq> [] then (s_names (settings_of s))(f := str) else s_names (settings_of s))"
      by (auto simp: settings_of_def Let_def w)
    moreover have "settings_of ?s2 = (settings_of s)\<lparr>s_names := s_names (settings_of ?s2)\<rparr>"
      by (cases f) (simp_all add: settings_of_def Let_def w stored_range_def)
    ultimately show ?thesis by simp
  qed
  moreover have "name_setter f E (Some str) s = Inr (r, ?s2)" by (simp add: name_setter_def copy)
  moreover have "apart s ?s2" using w rest by (cases f) (simp_all add: apart_def)
  moreover have "replies (calls ?s2) = replies (calls s)"
    using set_string_copy_silent [OF copy] by (simp add: silent_def)
  ultimately show ?thesis using own
    by (auto simp: granted_def request_name_setter single_string_set_def read_text Let_def split: if_splits)
qed

text \<open>Every wish is granted as specified.\<close>

lemma wish_granted:
  fixes s :: "'a service_scheme"
  assumes "calm E" "unpacks E" "binding_ok s" "named s" "plain q"
  shows "\<exists>s'. granted E q s s'"
proof -
  have p: "params_ok (wifi s)" using assms(3) by (simp add: binding_ok_def)
  show ?thesis
    using assms(5) text_granted [OF p] key_granted [OF p] protocol_granted visible_granted number_granted [OF p]
      channel_granted [OF p] addresses_granted [OF p assms(2)] name_granted [OF assms(1,3,4)]
    by (cases q) simp_all
qed

lemma granted_keeps: "granted E q s s' \<Longrightarrow> binding_ok s \<Longrightarrow> named s \<Longrightarrow> binding_ok s' \<and> named s'"
  by (auto simp: granted_def intro: request_keeps request_named)

section \<open>Many wishes\<close>

text \<open>
  A machine that answers one request as an abstract one does, answers any sequence of them so. \<open>abs\<close> is the abstraction,
  \<open>spec\<close> the abstract machine, \<open>log\<close> the answers given so far, and \<open>frame\<close> what no request touches.
\<close>

locale refined_machine =
  fixes run :: "'q \<Rightarrow> 's \<Rightarrow> fault + 's"
    and spec :: "'q \<Rightarrow> 'c \<Rightarrow> 'r \<times> 'c"
    and abs :: "'s \<Rightarrow> 'c"
    and log :: "'s \<Rightarrow> 'r list"
    and ok :: "'s \<Rightarrow> bool"
    and fine :: "'q \<Rightarrow> bool"
    and frame :: "'s \<Rightarrow> 's \<Rightarrow> bool"
  assumes answers: "ok s \<Longrightarrow> fine q \<Longrightarrow> \<exists>s'. run q s = Inr s' \<and> ok s' \<and> frame s s' \<and> abs s' = snd (spec q (abs s)) \<and>
      log s' = log s @ [fst (spec q (abs s))]"
    and frame_refl: "frame s s"
    and frame_trans: "frame s t \<Longrightarrow> frame t u \<Longrightarrow> frame s u"
begin

primrec abstract_run :: "'q list \<Rightarrow> 'c \<Rightarrow> 'r list \<times> 'c" where
  "abstract_run [] c = ([], c)"
| "abstract_run (q # qs) c = (let (r, c1) = spec q c; (rs, c2) = abstract_run qs c1 in (r # rs, c2))"

primrec detailed_run :: "'q list \<Rightarrow> 's \<Rightarrow> fault + 's" where
  "detailed_run [] s = Inr s"
| "detailed_run (q # qs) s = bindE (run q s) (detailed_run qs)"

lemma simulation:
  "ok s \<Longrightarrow> list_all fine qs \<Longrightarrow> \<exists>s'. detailed_run qs s = Inr s' \<and> ok s' \<and> frame s s' \<and>
     abs s' = snd (abstract_run qs (abs s)) \<and> log s' = log s @ fst (abstract_run qs (abs s))"
proof (induction qs arbitrary: s)
  case Nil
  then show ?case by (simp add: frame_refl)
next
  case (Cons q qs)
  then obtain s1 where s1: "run q s = Inr s1" "ok s1" "frame s s1" "abs s1 = snd (spec q (abs s))"
    "log s1 = log s @ [fst (spec q (abs s))]" using answers [of s q] by auto
  from Cons.IH [OF s1(2)] Cons.prems(2) obtain s' where s': "detailed_run qs s1 = Inr s'" "ok s'" "frame s1 s'"
    "abs s' = snd (abstract_run qs (abs s1))" "log s' = log s1 @ fst (abstract_run qs (abs s1))" by auto
  with s1 frame_trans [OF s1(3) s'(3)] show ?case by (auto simp: split_beta Let_def)
qed

end

definition setters_ok :: "env \<Rightarrow> 'a ap_scheme \<Rightarrow> bool" where
  "setters_ok E s \<longleftrightarrow> calm E \<and> unpacks E \<and> binding_ok s \<and> named s"

definition answer_to :: "env \<Rightarrow> wish \<Rightarrow> 'a service_scheme \<Rightarrow> fault + 'a service_scheme" where
  "answer_to E q s = request E (fst (sent q)) (snd (sent q)) s"

definition answered :: "wish \<Rightarrow> settings \<Rightarrow> (reply_status \<times> string option) \<times> settings" where
  "answered q c = (let (r, c1) = wished q c in ((r, None), c1))"

interpretation setters: refined_machine "answer_to E" answered settings_of "\<lambda>s. replies (calls s)" "setters_ok E" plain apart for E
proof
  fix s :: "'a service_scheme" and q
  assume ok: "setters_ok E s" and q: "plain q"
  then obtain s' where s': "granted E q s s'" using wish_granted [of E s q] by (auto simp: setters_ok_def)
  with ok granted_keeps [OF s'] have "setters_ok E s'" by (simp add: setters_ok_def)
  with s' show "\<exists>s'. answer_to E q s = Inr s' \<and> setters_ok E s' \<and> apart s s' \<and> settings_of s' = snd (answered q (settings_of s)) \<and>
      replies (calls s') = replies (calls s) @ [fst (answered q (settings_of s))]"
    by (auto simp: granted_def answer_to_def answered_def split_beta Let_def)
qed (simp_all add: apart_def)

definition request_list :: "env \<Rightarrow> wish list \<Rightarrow> (env \<times> string \<times> param list) list" where
  "request_list E qs = map (\<lambda>q. (E, sent q)) qs"

lemma requests_run: "requests (request_list E qs) s = setters.detailed_run E qs s"
proof -
  have f: "foldl (\<lambda>r q. bindE r (ask_verb q)) (Inl e) rs = Inl e" for e :: fault and rs by (induction rs) simp_all
  show ?thesis
  proof (induction qs arbitrary: s)
    case Nil
    then show ?case by (simp add: requests_def request_list_def)
  next
    case (Cons q qs)
    have "ask_verb (E, sent q) s = answer_to E q s" by (simp add: ask_verb_def answer_to_def split_beta)
    then show ?case using Cons.IH
      by (cases "answer_to E q s") (simp_all add: requests_def request_list_def f)
  qed
qed

lemma all_wished_run: "setters.abstract_run qs c = (map (\<lambda>r. (r, None)) (fst (all_wished qs c)), snd (all_wished qs c))"
  by (induction qs arbitrary: c) (simp_all add: answered_def split_beta Let_def)

lemma wishes_granted:
  fixes s :: "'a service_scheme"
  assumes "calm E" "unpacks E" "binding_ok s" "named s" "list_all plain qs"
  shows "\<exists>s'. requests (request_list E qs) s = Inr s' \<and> apart s s' \<and> binding_ok s' \<and> named s' \<and>
    settings_of s' = snd (all_wished qs (settings_of s)) \<and>
    replies (calls s') = replies (calls s) @ map (\<lambda>r. (r, None)) (fst (all_wished qs (settings_of s)))"
  using setters.simulation [of E s qs] assms by (auto simp: setters_ok_def requests_run all_wished_run)

section \<open>The access point that is started\<close>

text \<open>The lines of hostapd.conf that the settings promise, and the settings an access point can be started with.\<close>

definition promised_conf :: "settings \<Rightarrow> (string \<times> string) list" where
  "promised_conf c =
     [(''driver'', ''nl80211''), (''wmm_enabled'', ''1''), (''beacon_int'', ''100''), (''dtim_period'', ''2''),
      (''rts_threshold'', ''2347''), (''fragm_threshold'', ''2346''), (''ctrl_interface'', ''/var/run/hostapd''),
      (''ctrl_interface_group'', ''0''), (''ssid'', s_ssid c), (''channel'', show_nat (s_channel c)),
      (''max_num_sta'', show_nat (unat (s_clients c))), (''country_code'', s_country c),
      (''ignore_broadcast_ssid'', if s_visible c then ''0'' else ''1'')] @
     (if s_protocol c = WIFI_AP_SECURITY_NONE
      then [(''auth_algs'', ''1''), (''eap_server'', ''0''), (''eapol_key_index_workaround'', ''0''), (''macaddr_acl'', ''0'')]
      else [(''wpa'', ''2''), (''wpa_key_mgmt'', ''WPA-PSK''), (''rsn_pairwise'', ''CCMP''), (''wpa_passphrase'', s_passphrase c)]) @
     (''hw_mode'', if bit (s_standard c) 0 then ''a'' else if bit (s_standard c) 3 then ''ad''
        else if bit (s_standard c) 1 then ''b'' else ''g'') #
     [(k, ''1''). (i, k) \<leftarrow> [(4, ''ieee80211d''), (5, ''ieee80211h''), (6, ''ieee80211n''), (7, ''ieee80211ac''),
        (8, ''ieee80211ax''), (9, ''ieee80211w'')], bit (s_standard c) i]"

definition startable_settings :: "settings \<Rightarrow> bool" where
  "startable_settings c \<longleftrightarrow> in_range (s_range c) (s_channel c) \<and>
     (case s_addresses c of (a, l, h, n) \<Rightarrow>
        case (inet_pton a, inet_pton l, inet_pton h, inet_pton n) of
          (Some ap, Some lo, Some hi, Some _) \<Rightarrow> \<not> (min lo hi \<le> ap \<and> ap \<le> max lo hi)
        | _ \<Rightarrow> False)"

lemma promised_conf_settings: "conf_settings (wifi s) = promised_conf (settings_of s)"
  by (simp add: conf_settings_def promised_conf_def settings_of_def Let_def split: wifiAp_SecurityProtocol_t.split)

lemma inet_pton_cstr [simp]: "inet_pton (cstr b) = inet_pton b"
  by (simp add: inet_pton_def)

lemma promised_start:
  assumes "binding_ok s" "named s" "startable_settings (settings_of s)"
  shows "startable s"
proof -
  have "names_set s" using named_readable [OF assms(1,2), of Interface_name] named_readable [OF assms(1,2), of Host_name]
      named_readable [OF assms(1,2), of Domain_name] by (simp add: names_set_def iface_def)
  with assms(1,3) show ?thesis
    by (auto simp: startable_def startable_settings_def binding_ok_def addresses_ok_def settings_of_def Let_def
        split: option.splits)
qed

lemma name_text: "deref p s = Inr v \<Longrightarrow> text_at p s = v"
  by (simp add: text_at_def)

text \<open>The three files an access point with these settings is started with, once the script has appended the interface.\<close>

definition promised_files :: "settings \<Rightarrow> files \<Rightarrow> bool" where
  "promised_files c f \<longleftrightarrow> (case s_addresses c of (ap, lo, hi, nm) \<Rightarrow>
     f HOSTS_FILE = Some (hosts_text ap (s_names c Host_name)) \<and>
     f DNSMASQ_FILE = Some (dnsmasq_text ap lo hi (s_names c Domain_name) @ interface_line (s_names c Interface_name)) \<and>
     f WIFI_HOSTAPD_FILE = Some (lines_of (map conf_line (promised_conf c))))"

lemma configured_start:
  fixes s :: "'a service_scheme"
  assumes "calm E" "binding_ok s" "named s" "threads_ok s" "status (wifi s) \<noteq> Status_started"
    "startable_settings (settings_of s)"
  shows "\<exists>s'. request E ''start'' [] s = Inr s' \<and> status (wifi s') = Status_started \<and>
    replies (calls s') = replies (calls s) @ [(Success, None)] \<and>
    (obedient E (s_names (settings_of s) Interface_name) \<longrightarrow> promised_files (settings_of s) (files s'))"
proof -
  have a: "s_addresses (settings_of s) = (cstr (ip_ap (wifi s)), cstr (ip_start (wifi s)), cstr (ip_stop (wifi s)), cstr (ip_netmask (wifi s)))"
    by (simp add: settings_of_def Let_def)
  have n: "s_names (settings_of s) f = text_at (name_of f (wifi s)) s" for f
    by (simp add: settings_of_def Let_def)
  obtain s' i h d where s': "start E s = Inr s'" "status (wifi s') = Status_started"
    "replies (calls s') = replies (calls s) @ [(Success, None)]" "iface s = Inr i"
    "deref (hostName (wifi s)) s = Inr h" "deref (domainName (wifi s)) s = Inr d"
    "obedient E i \<longrightarrow> files s' HOSTS_FILE = Some (hosts_text (cstr (ip_ap (wifi s))) h) \<and>
      files s' DNSMASQ_FILE =
        Some (dnsmasq_text (cstr (ip_ap (wifi s))) (cstr (ip_start (wifi s))) (cstr (ip_stop (wifi s))) d @ interface_line i) \<and>
      files s' WIFI_HOSTAPD_FILE = Some (hostapd_conf (wifi s))"
    using calm_start [OF assms(1,4) promised_start [OF assms(2,3,6)] assms(5)] by blast
  have "text_at (interfaceName (wifi s)) s = i" using s'(4) by (intro name_text) (simp add: iface_def)
  with s' name_text [OF s'(5)] name_text [OF s'(6)] show ?thesis
    by (simp add: request_def verbs_def promised_files_def a n hostapd_conf_settings promised_conf_settings)
qed

section \<open>Properties\<close>

text \<open>
  C2. The setters as one machine: after any sequence of requests, accepted and rejected ones mixed, the replies and the
  parameters of the access point are those of the specification, which speaks of texts and numbers and not of buffers and heap strings. It holds
  in every environment in which no call fails and \<open>rp_jsonc_unpack\<close> reads the four addresses, from every well-formed state with its three
  names, and for all texts without NUL bytes, where the pre-shared key and the addresses are whole UTF-8 characters (other
  keys are the matter of a property of their own). Texts and numbers are sent as strings that the framework does not itself convert to
  a number or to JSON, the flag as a boolean and the addresses as a JSON object.
\<close>

theorem settings_refine_the_specification:
  assumes "calm E" "unpacks E" "binding_ok s" "named s" "list_all plain qs"
    and "all_wished qs (settings_of s) = (rs, c)"
  shows "\<exists>s'. requests (request_list E qs) s = Inr s' \<and> settings_of s' = c \<and>
    replies (calls s') = replies (calls s) @ map (\<lambda>r. (r, None)) rs"
  using wishes_granted [OF assms(1-5)] assms(6) by auto


text \<open>An environment that reads the object by its keys, and the settings of a state in it.\<close>

definition text_member :: "string \<Rightarrow> json \<Rightarrow> string option" where
  "text_member k j = (case j of JObject kvs \<Rightarrow> (case map_of kvs k of Some (JString t) \<Rightarrow> Some t | _ \<Rightarrow> None) | _ \<Rightarrow> None)"

definition unpack_env :: env where
  "unpack_env = script_env\<lparr>unpack_ip := \<lambda>j.
     (case map (\<lambda>k. text_member k j) [''ip_ap'', ''ip_start'', ''ip_stop'', ''ip_netmask''] of
        [Some ap, Some lo, Some hi, Some nm] \<Rightarrow> Some (ap, lo, hi, nm) | _ \<Rightarrow> None)\<rparr>"

lemma unpack_env: "unpacks unpack_env" "calm unpack_env" "obedient unpack_env ''wlan0''"
proof -
  have "obedient (script_env\<lparr>unpack_ip := u\<rparr>) i = obedient script_env i" for u i
    by (simp add: obedient_def script_cmd_def script_cmd2_def WIFI_SCRIPT_def)
  then show "obedient unpack_env ''wlan0''" using script_env(2) by (simp add: unpack_env_def)
  show "calm unpack_env" using script_env(1) by (simp add: unpack_env_def calm_def)
qed (simp add: unpacks_def unpack_env_def text_member_def range_json_def)

lemma ready_settings:
  "s_names (settings_of ready_service) = case_name_field ''wlan0'' ''lan'' ''box''"
  "s_standard (settings_of ready_service) = 4"
  "named ready_service" "status (wifi ready_service) \<noteq> Status_started" "replies (calls ready_service) = []"
proof -
  show "s_names (settings_of ready_service) = case_name_field ''wlan0'' ''lan'' ''box''"
    by (rule ext) (simp add: settings_of_def Let_def text_at_def ready_service_def deref_def split: name_field.split)
  show "named ready_service" unfolding named_def
  proof
    show "name_of f (wifi ready_service) \<noteq> None" for f by (cases f) (simp_all add: ready_service_def)
  qed
qed (simp_all add: settings_of_def Let_def ready_service_def sample_ap_def zero_wifi_def idle_service_def)

theorem settings_refine_the_specification_witness:
  "\<exists>s'. requests (request_list unpack_env [Set_ssid ''cafe'', Set_ssid [], Set_channel 200]) ready_service = Inr s' \<and>
     s_ssid (settings_of s') = ''cafe'' \<and>
     replies (calls s') = [(Success, None), (AFB_ERRNO_INVALID_REQUEST, None), (too_large, None)]"
proof -
  let ?qs = "[Set_ssid ''cafe'', Set_ssid [], Set_channel 200]"
  have "all_wished ?qs (settings_of ready_service) = ([Success, AFB_ERRNO_INVALID_REQUEST, too_large],
      (settings_of ready_service)\<lparr>s_ssid := ''cafe'', s_range := (1, 14)\<rparr>)"
    by (simp add: sized_def doc_range_def ready_settings(2) del: settings_of_standard)
  from settings_refine_the_specification [OF unpack_env(2,1) ready_binding ready_settings(3) _ this] show ?thesis
    by (auto simp: ready_settings(5))
qed


end
