(* ===== verification/Spec2Isabelle.thy ===== *)
theory Spec2Isabelle
  imports Utilities Addresses ApData ApConfig Threads Events Service Verbs Requests Init Binding Faults TestMode Concurrent Copying Channels Specification
begin

text \<open>
  Verification of the wifiap-binding, the binding that turns a WiFi card into an access point. A client of the
  framework sets the parameters of the access point (\<open>setSsid\<close>, \<open>setChannel\<close>, ...), starts and stops it, and gets an
  event for every station that joins or leaves. Starting writes the configuration files of hostapd and
  dnsmasq, runs platform commands through \<open>system\<close>, and creates a thread that reads \<open>iw event\<close>.

  The theories and the code they model (paths below \<open>src/\<close> of the repository), in the order of their imports:

  \<^item> \<open>Prelude\<close>: the faults, the sequencing of fallible steps \<open>bindE\<close>, C strings and buffers, decimal printing, the
    rewrite collections. \<open>World\<close>: the environment and the external calls. \<open>Store\<close>: the heap of
    strings (\<open>strdup\<close>, \<open>free\<close>) and the locale \<open>allocator\<close> with its laws.
  \<^item> \<open>Utilities\<close>: \<open>lib/wifi-ap-utilities.c\<close>. \<open>Addresses\<close>: \<open>inet_pton\<close> of the C library and its relation to \<open>toCidr\<close>.
  \<^item> \<open>ApData\<close>: \<open>lib/wifi-ap-data.c\<close> and its header: the structure \<open>wifiApT\<close> as a record, with buffers of their declared
    size, integers of their width, and names as addresses of heap strings; one definition per setter. The
    locale \<open>checked_setter\<close> is the contract of a validating setter, and is interpreted on the setters.
  \<^item> \<open>ApConfig\<close>: \<open>lib/wifi-ap-config.c\<close> and its header: the generator of hostapd.conf with its buffer of 1024 bytes, the
    files of dnsmasq, and a reader of hostapd.conf against which the generator is proved.
  \<^item> \<open>Threads\<close>: \<open>lib/wifi-ap-thread.c\<close> and its header: thread objects, their list, the mutex (locale \<open>monitor\<close>) and the life
    of a thread from \<open>CreateThread\<close> to \<open>JoinThread\<close>.
  \<^item> \<open>Events\<close>: the event thread of \<open>wifiAp.c\<close> (\<open>WifiApThreadMainFunc\<close>, \<open>threadDestructorFunc\<close>).
  \<^item> \<open>Service\<close>: \<open>startAp\<close>, \<open>setDnsmasqService\<close>, the handling of NetworkManager and firewalld, and the verbs \<open>start\<close>,
    \<open>stop\<close>, \<open>restart\<close> and \<open>getWifiApStatus\<close> of \<open>wifiAp.c\<close>; and what the commands of \<open>scripts/wifi_setup.sh\<close> do to the three
    configuration files (\<open>script_files\<close>).
  \<^item> \<open>Verbs\<close>: the readers of parameters, all other verbs and the table of verbs of \<open>wifiAp.c\<close>. \<open>Requests\<close>: what clients see.
  \<^item> \<open>Init\<close>: \<open>createWifiApData\<close> and \<open>binding_ctl\<close> of \<open>wifiAp.c\<close>.
  \<^item> \<open>Binding\<close>: the process as a step relation over requests and pieces of event threads. \<open>Faults\<close>: the steps that fault, and which of them
    can meet freed memory. \<open>TestMode\<close>: the block \<open>start\<close> begins with
    when the binding is built with \<open>TEST_MODE\<close>.
  \<^item> \<open>Concurrent\<close>: requests handled at the same time, as a pool of requests in progress: the setters of the names cut at their
    accesses to the pointer (\<open>set_string_copy\<close>), \<open>start\<close> cut after its test of the status, \<open>getAPnumberClients\<close> cut after its load of the
    interface name, between whole steps of \<open>Binding\<close>; every piece and every whole step can return or fault. In the discipline \<open>one\<close> a setter has
    its name to itself, as under a lock for readers and writers.
  \<^item> \<open>Copying\<close>: the \<open>memcpy\<close> of \<open>set_buffer\<close> (\<open>lib/wifi-ap-data.c\<close>) byte by byte: any number of copies into the SSID, the passphrase
    and the country code, and readers of them, at the same time. \<open>Channels\<close>: \<open>setChannelParameter\<close> access by access, for the same reason.
  \<^item> \<open>Specification\<close>: what a client may expect of all the setters and of the \<open>start\<close> that follows, as an abstract machine over plain
    texts and numbers (\<open>settings\<close>, \<open>wish\<close>, \<open>wished\<close>); the locale \<open>refined_machine\<close> carries the refinement from one request to any sequence,
    and is interpreted on the verbs of the binding.

  The state is one record that grows along the imports, as each component adds what it keeps: \<open>world\<close> (the files and
  the history of external calls), \<open>strings\<close> (the heap), \<open>ap\<close> (the structure \<open>wifiApT\<close>), \<open>threads\<close> (objects, list, mutex)
  and \<open>service\<close> (the three static variables of \<open>wifiAp.c\<close> and the counters of the threads). Operations are
  polymorphic in the rest of the record, so a component cannot touch what it does not know.

  What is outside the repository is the record \<open>env\<close>, an argument of the definitions: the answer to an external
  call is an arbitrary function of the call and of all calls before it, the effect of a command on the files is
  arbitrary, and so is the output of a command. Where a property needs more, it says so: \<open>calm\<close> is an
  environment in which every call reports success, and \<open>obedient\<close> one where the commands for an interface do to the three files of the access
  point what \<open>wifi_setup.sh\<close> does (remove them, or append the line with the interface to dnsmasq's); \<open>script_env\<close> is both, for \<open>wlan0\<close>. The texts
  of requests (\<open>text_param\<close>) are strings which the framework itself converts neither to a number nor to JSON.
  Undefined behaviour of C is a value: an operation returns \<open>Inl\<close> of a fault (a NULL or freed pointer, a
  read or write outside an object, a failed assertion, a lock that is never released) or \<open>Inr\<close> of a result and
  a state; so a statement that an operation returns \<open>Inr\<close> says that it is defined and ends.

  What the lemmas show. For the setters: acceptance exactly in the documented ranges, refusal without a
  change, ownership of the names. For the files: the generator against the text it means, and the text against a
  reader. For the threads: the registry invariant and the life cycle, and the places where the module breaks its
  own protocol. For the service: each outcome of starting with the status and the error code it reports. For the verbs: one reply
  per request, the parameters' meaning, the invariant \<open>binding_ok\<close>. For the binding: \<open>binding_ok\<close>, names that are
  set and a list of threads without freed objects in every reachable state. Of all requests and steps, only \<open>stop\<close>, \<open>restart\<close> and the event threads can
  meet freed memory. For requests at the same time: each alone is the request as a
  whole; the invariants hold if a setter has its name to itself, and schedules that break them if not; the text buffers
  need no such proviso, since their last byte is only ever written with NUL, but two copies may mix; the
  channel stays in the widest range, but may be tested against the range of another call. For the specification: each setter with all
  its checks, buffers and heap strings answers and changes the settings as specified, and the files an access point is started with are
  those of the specified settings.

  Bounds and fuel. No definition of the code uses fuel: loops recurse over lists, or over streams that get shorter (\<open>fgets_progress\<close>), and
  \<open>utf8_Copy\<close> over the room that is left. Only the runs of a setter in pieces count steps: 6 are enough for \<open>setChannelParameter\<close>
  (\<open>tune_run\<close>), and three more than the longest text for a copy (\<open>fill_run\<close>), as the theorems show. The output of \<open>iw event\<close> is finite in the model: a stream without end is a
  thread that does not end (so nothing is claimed of the end of a thread), and all that is said of its lines holds of every prefix. \<open>size_t\<close> and \<open>unsigned long\<close> have 64 bits.

  Not modelled, and why. The scripts behind \<open>system\<close>, but for their effect on the three files, the framework and json-c: they are the environment or,
  for json-c, functions written from their documentation. The status mutex: each of its critical sections is one access to the status. Interleavings inside the requests
  that \<open>Concurrent\<close>, \<open>Copying\<close> and \<open>Channels\<close> keep whole (the setters that copy UTF-8, \<open>startAp\<close>, \<open>stop\<close>, \<open>restart\<close>): C gives a meaning to races
  only as far as single accesses do not tear, which these theories assume of pointers, numbers and bytes. With \<open>TEST_MODE\<close> the commands after the block name another script; only the block itself is modelled. The text of \<open>info\<close>: a
  generated file, of which only the list of verbs is compared with the table. \<open>createPolkitRulesFile_NM\<close> and \<open>createPolkitRulesFile_Firewalld\<close>: declared in
  \<open>lib/wifi-ap-config.h\<close>, without a body anywhere in the repository. Log messages.
\<close>

section \<open>Properties\<close>

text \<open>
  C1. In every state the binding can reach - from the control function, through any requests of any clients and any steps
  of event threads between them, with any behaviour of the environment - the parameters are validated, the heap
  holds exactly the three names, all three are set and can be read, a status of started means that an event thread has been created, and the list of
  threads holds at most one object, which is allocated: looking up a thread never reads a freed one, whoever
  holds the mutex.
\<close>

theorem reachable_states_are_well_formed:
  assumes "reachable s"
  shows "binding_ok s \<and> (\<exists>v. deref (name_of f (wifi s)) s = Inr v) \<and> launched s \<and> registry_ok s \<and>
    (\<exists>p. findThreadFromIdInList s i = Inr p)"
  using reachable_ok [OF assms] registry_lookup [of s i] named_readable [of s f] by (simp add: service_ok_def)

theorem reachable_states_are_well_formed_witness:
  "\<exists>s. reachable s \<and> binding_ok s \<and> launched s \<and> registry_ok s"
  using some_reachable reachable_states_are_well_formed by blast

text \<open>
  The event thread as the thread module runs it, \<open>PThreadStartRoutine\<close> with the main function and the destructor of
  the binding, does what its pieces do when nothing comes between them: it ends in the very state that entering and
  then reading line by line reaches.
\<close>

lemma thread_routine_is_its_steps:
  fixes s :: service
  assumes "PThreadStartRoutine E (call_main E) (call_destructor E) a s = Inr s'" "objects s a = Some t"
    "threadState t = THREAD_STATE_RUNNING" "threadHandle t \<noteq> 0" "clients s a = None"
  shows "\<exists>k. runs (Enter E a # replicate k (Read E a)) s s'"
  by (rule routine_runs [OF assms])

lemma thread_routine_is_its_steps_example:
  "\<exists>s' k. PThreadStartRoutine calm_env (call_main calm_env) (call_destructor calm_env) 7 started_service = Inr s' \<and>
     runs (Enter calm_env 7 # replicate k (Read calm_env 7)) started_service s'"
proof -
  have "\<exists>s'. PThreadStartRoutine calm_env (call_main calm_env) (call_destructor calm_env) 7 started_service = Inr s'"
    by (simp add: PThreadStartRoutine_def thread_prologue_def get_obj_def started_service_def started_thread_def new_thread_def
        ask_def calm_env_def popen_def WifiApThreadMainFunc_def event_loop.simps fgets_def CleanupThread_def run_destructors_def
        put_obj_def threadDestructorFunc_def system_def GetNumberOfNodesInList_def Let_def)
  then obtain s' where s': "PThreadStartRoutine calm_env (call_main calm_env) (call_destructor calm_env) 7 started_service = Inr s'" ..
  have "objects started_service 7 = Some started_thread" "threadState started_thread = THREAD_STATE_RUNNING"
    "threadHandle started_thread \<noteq> 0" "clients started_service 7 = None"
    by (simp_all add: started_service_def started_thread_def idle_service_def)
  from thread_routine_is_its_steps [OF s' this] s' show ?thesis by blast
qed

text \<open>
  C27. Only the thirteen setter verbs change parameters: a run of other requests and of thread steps leaves every
  parameter but the status, the three names and the heap as they are.
\<close>

theorem only_setters_change_parameters:
  assumes "runs ls s s'" "\<forall>l \<in> set ls. \<not> is_setter l"
  shows "(\<exists>st. wifi s' = (wifi s)\<lparr>status := st\<rparr>) \<and> blocks s' = blocks s"
  using runs_kept [OF assms] by (simp add: kept_def)

theorem only_setters_change_parameters_witness:
  "\<exists>s'. runs [Request calm_env ''getWifiApStatus'' []] idle_service s' \<and> blocks s' = blocks idle_service"
proof -
  obtain s' where "request calm_env ''getWifiApStatus'' [] idle_service = Inr s'"
    by (simp add: request_def verbs_def getWifiApStatus_def)
  then have "runs [Request calm_env ''getWifiApStatus'' []] idle_service s'" by (auto intro: runs.intros requested)
  moreover have "\<forall>l \<in> set [Request calm_env ''getWifiApStatus'' []]. \<not> is_setter l" by (simp add: is_setter_def setter_verbs_def)
  ultimately show ?thesis using only_setters_change_parameters by blast
qed

text \<open>
  An event thread left to itself reads at most \<open>n + 1\<close> times in a state whose stream has \<open>n\<close> bytes to deliver, whatever the
  environment answers.
\<close>

lemma event_thread_ends:
  assumes "runs ls s s'" "\<forall>l \<in> set ls. \<exists>E. l = Read E a" "IwThreadPipePtr s = Some stream"
  shows "length ls \<le> length stream + 1"
  using reads_bounded [OF assms] by simp

lemma event_thread_ends_example:
  "\<exists>s s'. runs [Read calm_env 7] s s' \<and> IwThreadPipePtr s = Some [] \<and> length [Read calm_env 7] \<le> length ([] :: string) + 1"
proof -
  let ?s = "started_service\<lparr>IwThreadPipePtr := Some [], clients := [7 \<mapsto> 0]\<rparr>"
  have "\<exists>s'. read_line calm_env 7 0 [] ?s = Inr s'"
    by (simp add: read_line_def get_obj_def started_service_def started_thread_def new_thread_def
        ask_def calm_env_def fgets_def CleanupThread_def run_destructors_def
        put_obj_def threadDestructorFunc_def system_def GetNumberOfNodesInList_def Let_def)
  then obtain s' where "read_line calm_env 7 0 [] ?s = Inr s'" ..
  then have "bstep (Read calm_env 7) ?s s'"
    by (rule lineread [of _ _ started_thread, rotated 4]) (simp_all add: started_service_def started_thread_def)
  then have r: "runs [Read calm_env 7] ?s s'" by (auto intro: runs.intros)
  have p: "IwThreadPipePtr ?s = Some []" by simp
  from event_thread_ends [OF r _ p] r p show ?thesis by auto
qed

end
